(* ===== verification/Prelude.thy ===== *)
theory Prelude
  imports Main "HOL-Library.Word" "HOL-Library.Monad_Syntax" "HOL-Library.Multiset"
begin

text \<open>
  What every component of the development shares: the C-level types and constants, the
  operations on the intrusive tail queues of \<^verbatim>\<open>sys/queue.h\<close>, the two's complement
  wrap of a 32-bit counter, and a generic notion of reachable state with its invariant rule.

  Convention. An operation of type \<open>'s \<Rightarrow> 's option\<close> returns \<open>None\<close> where the
  C code has no defined behaviour: it follows a pointer to memory that is not allocated, removes
  an element from a list that does not hold it, links an element whose link is already in use,
  or reads an array out of its bounds. The \<open>assert\<close>s of the library compile to the bare
  evaluation of their argument (\<^verbatim>\<open>src/common/internal/assert.h\<close>), so they check nothing in
  the model either.
\<close>

section \<open>C types and constants\<close>

type_synonym addr = "64 word"

text \<open>\<open>upthread_t\<close> is the address of a thread control block; a field that may hold the
  null pointer is an \<open>upthread_t option\<close>.\<close>

type_synonym upthread_t = addr

abbreviation (input) EBUSY :: int where "EBUSY \<equiv> 16"
abbreviation (input) EINVAL :: int where "EINVAL \<equiv> 22"
abbreviation (input) ENOSYS :: int where "ENOSYS \<equiv> 38"
abbreviation (input) INT_MAX :: int where "INT_MAX \<equiv> 2147483647"

text \<open>The value of a 32-bit \<open>int\<close> after an atomic builtin such as
  \<open>__sync_fetch_and_add\<close>, which wraps around in two's complement.\<close>

definition wrap32 :: "int \<Rightarrow> int" where
  "wrap32 n = (n + 2147483648) mod 4294967296 - 2147483648"

lemma wrap32_id: "-2147483648 \<le> n \<Longrightarrow> n \<le> INT_MAX \<Longrightarrow> wrap32 n = n"
  by (simp add: wrap32_def)

lemma wrap32_range: "-2147483648 \<le> wrap32 n \<and> wrap32 n \<le> INT_MAX"
proof -
  have "0 \<le> (n + 2147483648) mod 4294967296" "(n + 2147483648) mod 4294967296 < 4294967296"
    by simp_all
  then show ?thesis unfolding wrap32_def by linarith
qed

text \<open>\<open>++\<close> and \<open>--\<close> on an \<open>int\<close>, whose overflow is undefined.\<close>

definition int_inc :: "int \<Rightarrow> int option" where
  "int_inc n = (if n < INT_MAX then Some (n + 1) else None)"

definition int_dec :: "int \<Rightarrow> int option" where
  "int_dec n = (if -2147483648 < n then Some (n - 1) else None)"

text \<open>A 64-bit value that fits survives being stored in a 32-bit field.\<close>

lemma take_bit_fits: "take_bit 64 (z :: int) < 4294967296 \<Longrightarrow> take_bit 32 z = take_bit 64 z"
proof -
  assume "take_bit 64 z < 4294967296"
  then have "take_bit 32 (take_bit 64 z) = take_bit 64 z" by (intro take_bit_int_eq_self) simp_all
  then show ?thesis by simp
qed

lemma ucast_down_up: "(z :: 64 word) < 2 ^ 32 \<Longrightarrow> ucast (ucast z :: 32 word) = z"
  by transfer (simp add: take_bit_fits)

section \<open>The option monad\<close>

lemma bind_eq_SomeE:
  assumes "Option.bind m f = Some y"
  obtains x where "m = Some x" and "f x = Some y"
  using assms by (cases m) auto

lemma bind_Some_conv: "Option.bind m f = Some y \<longleftrightarrow> (\<exists>x. m = Some x \<and> f x = Some y)"
  by (cases m) auto

section \<open>Intrusive tail queues\<close>

text \<open>
  A \<open>STAILQ\<close> is the list of its elements from head to tail. The link of an element is a
  field of the element, so an element is on one queue at a time: \<open>linked\<close> is the set of
  elements whose link is in use, and linking one of them again is undefined.
\<close>

definition stailq_insert_tail :: "'a set \<Rightarrow> 'a \<Rightarrow> 'a list \<Rightarrow> 'a list option" where
  "stailq_insert_tail linked t q = (if t \<in> linked then None else Some (q @ [t]))"

definition stailq_insert_head :: "'a set \<Rightarrow> 'a \<Rightarrow> 'a list \<Rightarrow> 'a list option" where
  "stailq_insert_head linked t q = (if t \<in> linked then None else Some (t # q))"

text \<open>\<open>STAILQ_REMOVE\<close> walks to the element; off the end it follows a null pointer.\<close>

definition stailq_remove :: "'a \<Rightarrow> 'a list \<Rightarrow> 'a list option" where
  "stailq_remove t q = (if t \<in> set q then Some (remove1 t q) else None)"

text \<open>\<open>STAILQ_FIRST\<close> (null when empty) followed by \<open>STAILQ_REMOVE_HEAD\<close>.\<close>

fun stailq_pop :: "'a list \<Rightarrow> 'a option \<times> 'a list" where
  "stailq_pop [] = (None, [])"
| "stailq_pop (t # q) = (Some t, q)"

lemma stailq_remove_Some [simp]: "t \<in> set q \<Longrightarrow> stailq_remove t q = Some (remove1 t q)"
  by (simp add: stailq_remove_def)

lemma stailq_insert_tail_Some [simp]:
  "t \<notin> linked \<Longrightarrow> stailq_insert_tail linked t q = Some (q @ [t])"
  by (simp add: stailq_insert_tail_def)

lemma stailq_insert_head_Some [simp]:
  "t \<notin> linked \<Longrightarrow> stailq_insert_head linked t q = Some (t # q)"
  by (simp add: stailq_insert_head_def)

lemma length_remove1_int:
  "t \<in> set q \<Longrightarrow> int (length (remove1 t q)) = int (length q) - 1"
  by (frule length_pos_if_in_set) (simp add: length_remove1 of_nat_diff Suc_leI)

section \<open>Reachable states\<close>

inductive reachable :: "('s \<Rightarrow> bool) \<Rightarrow> ('s \<Rightarrow> 's \<Rightarrow> bool) \<Rightarrow> 's \<Rightarrow> bool"
  for init :: "'s \<Rightarrow> bool" and step :: "'s \<Rightarrow> 's \<Rightarrow> bool" where
  reach_init: "init s \<Longrightarrow> reachable init step s"
| reach_step: "reachable init step s \<Longrightarrow> step s s' \<Longrightarrow> reachable init step s'"

lemma reachable_invariant:
  assumes "reachable init step s"
    and "\<And>s. init s \<Longrightarrow> I s"
    and "\<And>s s'. I s \<Longrightarrow> step s s' \<Longrightarrow> I s'"
  shows "I s"
  using assms(1) by (induction rule: reachable.induct) (auto intro: assms(2,3))

end
