(* ===== verification/Upthread_Types.thy ===== *)
theory Upthread_Types
  imports Prelude
begin

text \<open>
  The data of the library: \<^verbatim>\<open>src/common/upthread-types.h\<close> and the constants of
  \<^verbatim>\<open>src/common/upthread-common.h\<close>. A struct is a record whose fields are prefixed with
  the struct's name; the fields of type \<open>struct uthread\<close>, \<open>spin_pdr_lock_t\<close> and
  \<open>mcs_pdr_lock_t\<close> belong to parlib and are left out, except for the \<open>sysc\<close> pointer
  that the schedulers read and write. Locks have no field because a critical section is one step
  of the model.
\<close>

section \<open>Threads\<close>

datatype upth_state =
    UPTH_CREATED
  | UPTH_RUNNABLE
  | UPTH_RUNNING
  | UPTH_EXITING
  | UPTH_BLK_YIELDING
  | UPTH_BLK_JOINING
  | UPTH_BLK_SYSC
  | UPTH_BLK_MUTEX
  | UPTH_BLK_PAUSED

text \<open>The number a state stands for, as it is printed.\<close>

fun upth_state_code :: "upth_state \<Rightarrow> int" where
  "upth_state_code UPTH_CREATED = 1"
| "upth_state_code UPTH_RUNNABLE = 2"
| "upth_state_code UPTH_RUNNING = 3"
| "upth_state_code UPTH_EXITING = 4"
| "upth_state_code UPTH_BLK_YIELDING = 5"
| "upth_state_code UPTH_BLK_JOINING = 6"
| "upth_state_code UPTH_BLK_SYSC = 7"
| "upth_state_code UPTH_BLK_MUTEX = 8"
| "upth_state_code UPTH_BLK_PAUSED = 9"

text \<open>
  \<open>uth_sysc\<close> is the \<open>sysc\<close> pointer of the embedded \<open>struct uthread\<close>. Function pointers
  and \<open>void *\<close> values are addresses.
\<close>

record upthread_tcb =
  uth_sysc :: "addr option"
  tcb_state :: upth_state
  tcb_detached :: bool
  tcb_joiner :: "upthread_t option"
  tcb_id :: "32 word"
  tcb_stack_offset :: int
  tcb_stacksize :: "32 word"
  tcb_stacktop :: addr
  tcb_start_routine :: addr
  tcb_arg :: addr
  tcb_retval :: addr
  tcb_preferred_vcq :: int

text \<open>
  A control block whose bytes are all zero (after \<open>memset\<close>, or fresh from an anonymous
  \<open>mmap\<close>). The state code 0 has no name in the library; the creating code overwrites the
  state before anything reads it, so the model starts it at \<open>UPTH_CREATED\<close>.
\<close>

definition tcb_zero :: upthread_tcb where
  "tcb_zero = \<lparr>uth_sysc = None, tcb_state = UPTH_CREATED, tcb_detached = False,
     tcb_joiner = None, tcb_id = 0, tcb_stack_offset = 0, tcb_stacksize = 0, tcb_stacktop = 0,
     tcb_start_routine = 0, tcb_arg = 0, tcb_retval = 0, tcb_preferred_vcq = 0\<rparr>"

section \<open>Thread attributes\<close>

record upthread_attr_t =
  attr_stackaddr :: addr
  attr_stacksize :: "64 word"
  attr_detachstate :: int

abbreviation (input) UPTHREAD_CREATE_JOINABLE :: int where "UPTHREAD_CREATE_JOINABLE \<equiv> 0"
abbreviation (input) UPTHREAD_CREATE_DETACHED :: int where "UPTHREAD_CREATE_DETACHED \<equiv> 1"

text \<open>\<open>UPTHREAD_STACK_PAGES * PGSIZE\<close>; the page size is parlib's.\<close>

definition UPTHREAD_STACK_SIZE :: "64 word \<Rightarrow> 64 word" where
  "UPTHREAD_STACK_SIZE pgsize = 1024 * pgsize"

section \<open>Mutexes\<close>

abbreviation (input) UPTHREAD_MUTEX_NORMAL :: int where "UPTHREAD_MUTEX_NORMAL \<equiv> 0"
abbreviation (input) UPTHREAD_MUTEX_RECURSIVE :: int where "UPTHREAD_MUTEX_RECURSIVE \<equiv> 1"
abbreviation (input) NUM_UPTHREAD_MUTEX_TYPES :: int where "NUM_UPTHREAD_MUTEX_TYPES \<equiv> 2"
abbreviation (input) UPTHREAD_MUTEX_DEFAULT :: int where "UPTHREAD_MUTEX_DEFAULT \<equiv> UPTHREAD_MUTEX_NORMAL"

record upthread_mutexattr_t =
  mattr_type :: int

record upthread_mutex_t =
  mutex_attr :: upthread_mutexattr_t
  mutex_queue :: "upthread_t list"
  mutex_locked :: int
  mutex_owner :: "upthread_t option"

definition UPTHREAD_MUTEX_INITIALIZER :: upthread_mutex_t where
  "UPTHREAD_MUTEX_INITIALIZER =
     \<lparr>mutex_attr = \<lparr>mattr_type = 0\<rparr>, mutex_queue = [], mutex_locked = 0, mutex_owner = None\<rparr>"

section \<open>Condition variables\<close>

text \<open>
  \<open>waiting_mutex\<close> is the address of the mutex of the thread that is going to sleep;
  \<open>waiting_qnode\<close> only serves the release of the lock and is left out.
\<close>

record upthread_cond_t =
  cond_waiting_mutex :: "addr option"
  cond_queue :: "upthread_t list"

definition UPTHREAD_CONDVAR_INITIALIZER :: upthread_cond_t where
  "UPTHREAD_CONDVAR_INITIALIZER = \<lparr>cond_waiting_mutex = None, cond_queue = []\<rparr>"

section \<open>Barriers\<close>

record contextq_t =
  cq_queue :: "upthread_t list"  \<comment> \<open>the malloc'ed array, \<open>maxlen\<close> cells\<close>
  cq_len :: int
  cq_maxlen :: int

record upthread_barrier_t =
  bar_N :: int
  bar_arrived :: int
  bar_wait :: bool
  bar_signals :: "bool list"
  bar_blocked :: "contextq_t list"  \<comment> \<open>two of them\<close>

section \<open>Semaphores\<close>

record upthread_sem_t =
  sem_value :: int
  sem_nwaiters :: int

definition UPTHREAD_SEM_INITIALIZER :: upthread_sem_t where
  "UPTHREAD_SEM_INITIALIZER = \<lparr>sem_value = 0, sem_nwaiters = 0\<rparr>"

section \<open>Calls that leave a thread\<close>

text \<open>
  How the front half of a blocking call ends: it returns a value, or it calls
  \<open>uthread_yield\<close> with a callback, which parlib runs in vcore context once the thread's
  context is saved, and returns the value when the thread runs again. The callback is a
  definition of its own.
\<close>

datatype 'a outcome =
    Return 'a
  | Yield_then 'a

end
