(* ===== verification/Sched_Base.thy ===== *)
theory Sched_Base
  imports Upthread_Types
begin

text \<open>
  What the scheduler variants have in common: the memory of thread control blocks, the globals
  that each \<^verbatim>\<open>upthread.c\<close> declares under the same name, the calls a scheduler makes to
  parlib and the operating system, and the table of scheduler operations it registers.
\<close>

section \<open>Calls out of the library\<close>

text \<open>
  The schedulers call parlib, libc and the kernel for effect. Such a call is recorded in the
  order it is made; what it does is outside the model.
\<close>

datatype ext_call =
    VcoreRequest int
  | VcoreRequestSpecific int
  | VcoreYield
  | HandleEvents
  | CpuRelax
  | RunCurrentUthread
  | RunUthread upthread_t
  | InitUthreadTf upthread_t addr "32 word"
  | UthreadInit upthread_t
  | UthreadCleanup upthread_t
  | DestroyDtls
  | Munmap addr "64 word"
  | PrintfOddState int upthread_t
  | PrintfMsg string

datatype ext_blk_flag = UTH_EXT_BLK_MUTEX | UTH_EXT_BLK_JUSTICE | UTH_EXT_BLK_OTHER int

section \<open>The globals\<close>

text \<open>
  \<open>tcbs\<close> is the memory of control blocks: \<open>None\<close> is memory that is not, or no
  longer, allocated. \<open>u_data\<close> is that field of each \<open>struct syscall\<close>. The variants
  extend the record by their queues.
\<close>

record sched_globals =
  tcbs :: "upthread_t \<Rightarrow> upthread_tcb option"
  u_data :: "addr \<Rightarrow> upthread_t option"
  can_adjust_vcores :: bool
  max_spin_count :: int
  next_pid :: "32 word"
  calls :: "ext_call list"

definition ext :: "ext_call \<Rightarrow> 'z sched_globals_scheme \<Rightarrow> 'z sched_globals_scheme" where
  "ext c s = s\<lparr>calls := calls s @ [c]\<rparr>"

text \<open>A write to fields of the control block at \<open>t\<close>.\<close>

definition tcb_upd ::
  "upthread_t \<Rightarrow> (upthread_tcb \<Rightarrow> upthread_tcb) \<Rightarrow> 'z sched_globals_scheme \<Rightarrow>
   'z sched_globals_scheme option" where
  "tcb_upd t f s =
     (case tcbs s t of
        None \<Rightarrow> None
      | Some p \<Rightarrow> Some (s\<lparr>tcbs := (tcbs s)(t \<mapsto> f p)\<rparr>))"

definition set_state ::
  "upthread_t \<Rightarrow> upth_state \<Rightarrow> 'z sched_globals_scheme \<Rightarrow> 'z sched_globals_scheme option" where
  "set_state t st = tcb_upd t (\<lambda>p. p\<lparr>tcb_state := st\<rparr>)"

lemma tcb_upd_Some [simp]:
  "tcbs s t = Some p \<Longrightarrow> tcb_upd t f s = Some (s\<lparr>tcbs := (tcbs s)(t \<mapsto> f p)\<rparr>)"
  by (simp add: tcb_upd_def)

lemma set_state_Some [simp]:
  "tcbs s t = Some p \<Longrightarrow>
   set_state t st s = Some (s\<lparr>tcbs := (tcbs s)(t \<mapsto> p\<lparr>tcb_state := st\<rparr>)\<rparr>)"
  by (simp add: set_state_def)

lemma ext_simps [simp]:
  "tcbs (ext c s) = tcbs s"
  "u_data (ext c s) = u_data s"
  "can_adjust_vcores (ext c s) = can_adjust_vcores s"
  "max_spin_count (ext c s) = max_spin_count s"
  "next_pid (ext c s) = next_pid s"
  "calls (ext c s) = calls s @ [c]"
  by (simp_all add: ext_def)

text \<open>The state of the thread at \<open>t\<close>, if its control block is allocated.\<close>

definition state_of :: "'z sched_globals_scheme \<Rightarrow> upthread_t \<Rightarrow> upth_state option" where
  "state_of s t = map_option tcb_state (tcbs s t)"

section \<open>What makes a thread runnable again\<close>

text \<open>
  The states in which \<open>uthread_runnable\<close> may legitimately be called: the cases of the switch
  in \<open>pth_thread_runnable\<close> that do not print.
\<close>

fun wakeable :: "upth_state \<Rightarrow> bool" where
  "wakeable UPTH_CREATED = True"
| "wakeable UPTH_BLK_YIELDING = True"
| "wakeable UPTH_BLK_JOINING = True"
| "wakeable UPTH_BLK_SYSC = True"
| "wakeable UPTH_BLK_PAUSED = True"
| "wakeable UPTH_BLK_MUTEX = True"
| "wakeable UPTH_RUNNABLE = False"
| "wakeable UPTH_RUNNING = False"
| "wakeable UPTH_EXITING = False"

text \<open>The threads that a synchronisation primitive has put to sleep.\<close>

definition blocked_threads :: "'z sched_globals_scheme \<Rightarrow> upthread_t set" where
  "blocked_threads s = {t. state_of s t = Some UPTH_BLK_MUTEX}"

text \<open>A running thread is in one of these states: the variants differ in whether they set
  \<open>UPTH_RUNNING\<close> when they dispatch a thread.\<close>

fun schedulable :: "upth_state \<Rightarrow> bool" where
  "schedulable UPTH_RUNNABLE = True"
| "schedulable UPTH_RUNNING = True"
| "schedulable _ = False"

lemma schedulable_not_wakeable: "schedulable st \<Longrightarrow> \<not> wakeable st"
  by (cases st) simp_all

section \<open>Process identifiers\<close>

text \<open>\<open>next_pid\<close> is a \<open>uint32_t\<close>: it wraps around to 0.\<close>

definition get_next_pid ::
  "'z sched_globals_scheme \<Rightarrow> 32 word \<times> 'z sched_globals_scheme" where
  "get_next_pid s = (next_pid s, s\<lparr>next_pid := next_pid s + 1\<rparr>)"

section \<open>Spinning\<close>

text \<open>The condition \<open>can_adjust_vcores && !(spin_count--)\<close> of the search loops, and \<open>spin_count\<close> after it.
  The decrement is undefined when it overflows.\<close>

definition spin_step :: "bool \<Rightarrow> int \<Rightarrow> (bool \<times> int) option" where
  "spin_step can spin =
     (if can then do { d \<leftarrow> int_dec spin; Some (spin = 0, d) } else Some (False, spin))"

section \<open>The attributes of a running thread\<close>

text \<open>\<open>upthread_getattr_np\<close>: \<open>stacktop - stacksize\<close> is pointer arithmetic on a
  \<open>uint32_t\<close> size.\<close>

definition upthread_getattr_np :: "upthread_tcb \<Rightarrow> int \<times> upthread_attr_t" where
  "upthread_getattr_np th =
     (0, \<lparr>attr_stackaddr = tcb_stacktop th - ucast (tcb_stacksize th),
          attr_stacksize = ucast (tcb_stacksize th),
          attr_detachstate =
            (if tcb_detached th then UPTHREAD_CREATE_DETACHED else UPTHREAD_CREATE_JOINABLE)\<rparr>)"

section \<open>The table of scheduler operations\<close>

text \<open>
  \<open>struct schedule_ops\<close>: the entries a variant fills in and registers with parlib (the two
  null entries \<open>preempt_pending\<close> and \<open>spawn_thread\<close> are left out, and
  \<open>sched_entry\<close>, which does not return, is modelled apart).
\<close>

record 's schedule_ops =
  thread_runnable :: "upthread_t \<Rightarrow> 's \<Rightarrow> 's option"
  thread_paused :: "upthread_t \<Rightarrow> 's \<Rightarrow> 's option"
  thread_blockon_syscall :: "upthread_t \<Rightarrow> addr \<Rightarrow> 's \<Rightarrow> 's option"
  thread_has_blocked :: "upthread_t \<Rightarrow> ext_blk_flag \<Rightarrow> 's \<Rightarrow> 's option"

end
