(* ===== verification/Runtime.thy ===== *)
theory Runtime
  imports Sched_Base
begin

text \<open>
  The interface between the synchronisation primitives and whatever scheduler runs beneath
  them. The primitives call parlib (\<open>uthread_runnable\<close>, \<open>uthread_has_blocked\<close>,
  \<open>uthread_paused\<close>), and parlib calls the operations the scheduler variant registered. The
  primitives therefore take a \<open>runtime\<close> as an argument; the locale states what they rely on,
  and each scheduler variant interprets it.
\<close>

section \<open>The runtime below a primitive\<close>

text \<open>
  \<open>linked\<close> is not a call: it is the set of threads whose \<open>next\<close> field is in use by a
  queue of the scheduler. The primitives thread their wait queues through the same field.
\<close>

record 's runtime =
  uthread_runnable :: "upthread_t \<Rightarrow> 's \<Rightarrow> 's option"
  uthread_has_blocked :: "upthread_t \<Rightarrow> ext_blk_flag \<Rightarrow> 's \<Rightarrow> 's option"
  uthread_paused :: "upthread_t \<Rightarrow> 's \<Rightarrow> 's option"
  linked :: "'s \<Rightarrow> upthread_t set"

text \<open>
  Parlib on top of a registered table: each entry point calls the operation of the table.
  What parlib does to its own \<open>struct uthread\<close> besides is not part of the state.
\<close>

definition registered :: "'s schedule_ops \<Rightarrow> ('s \<Rightarrow> upthread_t set) \<Rightarrow> 's runtime" where
  "registered sops links =
     \<lparr>uthread_runnable = thread_runnable sops,
      uthread_has_blocked = thread_has_blocked sops,
      uthread_paused = thread_paused sops,
      linked = links\<rparr>"

lemma registered_simps [simp]:
  "uthread_runnable (registered sops links) = thread_runnable sops"
  "uthread_has_blocked (registered sops links) = thread_has_blocked sops"
  "uthread_paused (registered sops links) = thread_paused sops"
  "linked (registered sops links) = links"
  by (simp_all add: registered_def)

section \<open>Executions\<close>

text \<open>What may happen to a scheduler: a running thread is blocked for a primitive or preempted, a
  blocked one is woken, or the scheduler moves by itself.\<close>

inductive sched_step ::
  "'s runtime \<Rightarrow> ('s \<Rightarrow> upthread_t set) \<Rightarrow> ('s \<Rightarrow> upthread_t set) \<Rightarrow> ('s \<Rightarrow> 's \<Rightarrow> bool) \<Rightarrow>
   's \<Rightarrow> 's \<Rightarrow> bool"
  for rt :: "'s runtime" and running blocked :: "'s \<Rightarrow> upthread_t set" and moves :: "'s \<Rightarrow> 's \<Rightarrow> bool" where
  ss_block: "t \<in> running s \<Longrightarrow> uthread_has_blocked rt t f s = Some s' \<Longrightarrow>
    sched_step rt running blocked moves s s'"
| ss_pause: "t \<in> running s \<Longrightarrow> uthread_paused rt t s = Some s' \<Longrightarrow>
    sched_step rt running blocked moves s s'"
| ss_wake: "t \<in> blocked s \<Longrightarrow> uthread_runnable rt t s = Some s' \<Longrightarrow>
    sched_step rt running blocked moves s s'"
| ss_move: "moves s s' \<Longrightarrow> sched_step rt running blocked moves s s'"

section \<open>The contract\<close>

text \<open>
  A scheduler has running threads and threads it holds blocked for a primitive. Blocking takes a
  running thread off every queue of the scheduler and leaves its link free; making a blocked
  thread runnable puts it on a queue. Everything else a scheduler does (\<open>moves\<close>: dispatching,
  preempting, creating, joining, system calls) neither blocks nor wakes such a thread.
\<close>

locale two_level_scheduler =
  fixes rt :: "'s runtime"
    and sinv :: "'s \<Rightarrow> bool"
    and running :: "'s \<Rightarrow> upthread_t set"
    and blocked :: "'s \<Rightarrow> upthread_t set"
    and moves :: "'s \<Rightarrow> 's \<Rightarrow> bool"
  assumes blocked_unlinked: "sinv s \<Longrightarrow> t \<in> blocked s \<Longrightarrow> t \<notin> linked rt s"
    and blocked_not_running: "sinv s \<Longrightarrow> t \<in> blocked s \<Longrightarrow> t \<notin> running s"
    and has_blocked_spec: "sinv s \<Longrightarrow> t \<in> running s \<Longrightarrow>
          \<exists>s'. uthread_has_blocked rt t f s = Some s' \<and> sinv s' \<and>
               running s' = running s - {t} \<and> blocked s' = insert t (blocked s)"
    and runnable_spec: "sinv s \<Longrightarrow> t \<in> blocked s \<Longrightarrow>
          \<exists>s'. uthread_runnable rt t s = Some s' \<and> sinv s' \<and>
               running s' = running s \<and> blocked s' = blocked s - {t} \<and> t \<in> linked rt s'"
    and paused_spec: "sinv s \<Longrightarrow> t \<in> running s \<Longrightarrow>
          \<exists>s'. uthread_paused rt t s = Some s' \<and> sinv s' \<and>
               running s' = running s - {t} \<and> blocked s' = blocked s \<and> t \<in> linked rt s'"
    and moves_spec: "moves s s' \<Longrightarrow> sinv s \<Longrightarrow> sinv s' \<and> blocked s' = blocked s"
begin

lemma has_blockedE:
  assumes "uthread_has_blocked rt t f s = Some s'" and "sinv s" and "t \<in> running s"
  obtains "sinv s'" and "running s' = running s - {t}" and "blocked s' = insert t (blocked s)"
  using has_blocked_spec [OF assms(2,3), of f] assms(1) by auto

lemma runnableE:
  assumes "uthread_runnable rt t s = Some s'" and "sinv s" and "t \<in> blocked s"
  obtains "sinv s'" and "running s' = running s" and "blocked s' = blocked s - {t}"
    and "t \<in> linked rt s'"
  using runnable_spec [OF assms(2,3)] assms(1) by auto

lemma pausedE:
  assumes "uthread_paused rt t s = Some s'" and "sinv s" and "t \<in> running s"
  obtains "sinv s'" and "running s' = running s - {t}" and "blocked s' = blocked s"
    and "t \<in> linked rt s'"
  using paused_spec [OF assms(2,3)] assms(1) by auto

lemma sched_step_inv:
  assumes "sched_step rt running blocked moves s s'" and "sinv s"
  shows "sinv s'"
  using assms
proof (induction rule: sched_step.induct)
  case (ss_block t s f s')
  then show ?case by (blast elim: has_blockedE)
next
  case (ss_pause t s s')
  then show ?case by (blast elim: pausedE)
next
  case (ss_wake t s s')
  then show ?case by (blast elim: runnableE)
next
  case (ss_move s s')
  then show ?case using moves_spec by blast
qed

lemma sched_reachable_inv:
  assumes "reachable init (sched_step rt running blocked moves) s" and "\<And>s. init s \<Longrightarrow> sinv s"
  shows "sinv s"
  using assms(1) by (rule reachable_invariant) (auto intro: assms(2) sched_step_inv)

text \<open>Waking a list of distinct blocked threads one after the other, as the wake-all loops do.\<close>

lemma runnable_all:
  assumes "sinv s" and "distinct ts" and "set ts \<subseteq> blocked s"
  shows "\<exists>s'. foldl (\<lambda>m t. Option.bind m (uthread_runnable rt t)) (Some s) ts = Some s' \<and>
           sinv s' \<and> running s' = running s \<and> blocked s' = blocked s - set ts"
  using assms
proof (induction ts arbitrary: s)
  case Nil
  then show ?case by simp
next
  case (Cons t ts)
  then obtain s1 where s1: "uthread_runnable rt t s = Some s1" "sinv s1"
      "running s1 = running s" "blocked s1 = blocked s - {t}"
    using runnable_spec [of s t] by auto
  with Cons.prems have "set ts \<subseteq> blocked s1" by auto
  from Cons.IH [OF s1(2) _ this] Cons.prems(2) s1 show ?case by auto
qed

end

end
