(* ===== verification/Mutex.thy ===== *)
theory Mutex
  imports Runtime
begin

text \<open>
  Mutexes, \<^verbatim>\<open>src/common/mutex.c\<close>. A pointer argument that may be null is an option. The
  code between \<open>spin_pdr_lock\<close> and \<open>spin_pdr_unlock\<close> is one step; where a function gives the
  lock up in the middle (to sleep, or before it wakes a thread) the parts are definitions of
  their own, and the function is composed of them.
\<close>

section \<open>Attributes\<close>

definition upthread_mutexattr_init ::
  "upthread_mutexattr_t option \<Rightarrow> int \<times> upthread_mutexattr_t option" where
  "upthread_mutexattr_init attr =
     (case attr of
        None \<Rightarrow> (EINVAL, None)
      | Some a \<Rightarrow> (0, Some (a\<lparr>mattr_type := UPTHREAD_MUTEX_DEFAULT\<rparr>)))"

definition upthread_mutexattr_destroy :: "upthread_mutexattr_t option \<Rightarrow> int" where
  "upthread_mutexattr_destroy attr = 0"

text \<open>The second component is what is stored through \<open>type\<close>.\<close>

definition upthread_mutexattr_gettype :: "upthread_mutexattr_t option \<Rightarrow> int \<times> int option" where
  "upthread_mutexattr_gettype attr =
     (case attr of None \<Rightarrow> (EINVAL, None) | Some a \<Rightarrow> (0, Some (mattr_type a)))"

definition upthread_mutexattr_settype ::
  "upthread_mutexattr_t option \<Rightarrow> int \<Rightarrow> int \<times> upthread_mutexattr_t option" where
  "upthread_mutexattr_settype attr ty =
     (case attr of
        None \<Rightarrow> (EINVAL, None)
      | Some a \<Rightarrow>
          if ty \<ge> NUM_UPTHREAD_MUTEX_TYPES then (EINVAL, Some a)
          else (0, Some (a\<lparr>mattr_type := ty\<rparr>)))"

section \<open>Initialisation\<close>

definition upthread_mutex_init ::
  "upthread_mutex_t option \<Rightarrow> upthread_mutexattr_t option \<Rightarrow> int \<times> upthread_mutex_t option" where
  "upthread_mutex_init mutex attr =
     (case mutex of
        None \<Rightarrow> (EINVAL, None)
      | Some m \<Rightarrow>
          let m = (case attr of
                     None \<Rightarrow> (case upthread_mutexattr_init (Some (mutex_attr m)) of
                                (_, Some a) \<Rightarrow> m\<lparr>mutex_attr := a\<rparr>
                              | (_, None) \<Rightarrow> m)
                   | Some a \<Rightarrow> m\<lparr>mutex_attr := a\<rparr>)
          in (0, Some (m\<lparr>mutex_queue := [], mutex_locked := 0, mutex_owner := None\<rparr>)))"

definition upthread_mutex_destroy :: "upthread_mutex_t option \<Rightarrow> int" where
  "upthread_mutex_destroy mutex = 0"

section \<open>Going to sleep\<close>

text \<open>The callback of \<open>uthread_yield\<close>; it runs with the lock held and releases it.\<close>

definition mutex_block ::
  "'s runtime \<Rightarrow> upthread_t \<Rightarrow> upthread_mutex_t \<Rightarrow> 's \<Rightarrow> (upthread_mutex_t \<times> 's) option" where
  "mutex_block rt t m s = do {
     s \<leftarrow> uthread_has_blocked rt t UTH_EXT_BLK_MUTEX s;
     q \<leftarrow> stailq_insert_tail (linked rt s \<union> set (mutex_queue m)) t (mutex_queue m);
     Some (m\<lparr>mutex_queue := q\<rparr>, s)
   }"

section \<open>Locking\<close>

definition mutex_recursive_owner :: "upthread_t \<Rightarrow> upthread_mutex_t \<Rightarrow> bool" where
  "mutex_recursive_owner self m \<longleftrightarrow>
     mattr_type (mutex_attr m) = UPTHREAD_MUTEX_RECURSIVE \<and> mutex_owner m = Some self"

definition upthread_mutex_trylock ::
  "upthread_t \<Rightarrow> upthread_mutex_t option \<Rightarrow> (int \<times> upthread_mutex_t option) option" where
  "upthread_mutex_trylock self mutex =
     (case mutex of
        None \<Rightarrow> Some (EINVAL, None)
      | Some m \<Rightarrow>
          if mutex_recursive_owner self m then do {
            l \<leftarrow> int_inc (mutex_locked m);
            Some (0, Some (m\<lparr>mutex_locked := l\<rparr>))
          }
          else if mutex_locked m \<noteq> 0 then Some (EBUSY, Some m)
          else do {
            l \<leftarrow> int_inc (mutex_locked m);
            Some (0, Some (m\<lparr>mutex_owner := Some self, mutex_locked := l\<rparr>))
          })"

text \<open>How an attempt ends: the call returns, or the thread yields to \<open>mutex_block\<close> and makes
  another attempt (\<open>mutex_lock_loop\<close>) when it runs again.\<close>

datatype lock_outcome = Lock_done int | Lock_sleep

text \<open>The head of the while loop, entered with the lock held.\<close>

definition mutex_lock_loop ::
  "upthread_t \<Rightarrow> upthread_mutex_t \<Rightarrow> (lock_outcome \<times> upthread_mutex_t) option" where
  "mutex_lock_loop self m =
     (if mutex_locked m \<noteq> 0 then Some (Lock_sleep, m)
      else do {
        l \<leftarrow> int_inc (mutex_locked m);
        Some (Lock_done 0, m\<lparr>mutex_owner := Some self, mutex_locked := l\<rparr>)
      })"

definition upthread_mutex_lock ::
  "upthread_t \<Rightarrow> upthread_mutex_t option \<Rightarrow> (lock_outcome \<times> upthread_mutex_t option) option" where
  "upthread_mutex_lock self mutex =
     (case mutex of
        None \<Rightarrow> Some (Lock_done EINVAL, None)
      | Some m \<Rightarrow>
          if mutex_recursive_owner self m then do {
            l \<leftarrow> int_inc (mutex_locked m);
            Some (Lock_done 0, Some (m\<lparr>mutex_locked := l\<rparr>))
          }
          else do {
            (r, m) \<leftarrow> mutex_lock_loop self m;
            Some (r, Some m)
          })"

section \<open>Unlocking\<close>

text \<open>The critical section; the thread it takes off the queue is woken after the lock has been
  released.\<close>

definition mutex_unlock_cs :: "upthread_mutex_t \<Rightarrow> (upthread_t option \<times> upthread_mutex_t) option" where
  "mutex_unlock_cs m = do {
     l \<leftarrow> int_dec (mutex_locked m);
     let m = m\<lparr>mutex_locked := l\<rparr>;
     Some (if l = 0
           then (case stailq_pop (mutex_queue m) of
                   (upthread, q) \<Rightarrow> (upthread, m\<lparr>mutex_queue := q, mutex_owner := None\<rparr>))
           else (None, m))
   }"

definition wake_opt :: "'s runtime \<Rightarrow> upthread_t option \<Rightarrow> 's \<Rightarrow> 's option" where
  "wake_opt rt upthread s =
     (case upthread of None \<Rightarrow> Some s | Some w \<Rightarrow> uthread_runnable rt w s)"

definition upthread_mutex_unlock ::
  "'s runtime \<Rightarrow> upthread_mutex_t option \<Rightarrow> 's \<Rightarrow> (int \<times> upthread_mutex_t option \<times> 's) option" where
  "upthread_mutex_unlock rt mutex s =
     (case mutex of
        None \<Rightarrow> Some (EINVAL, None, s)
      | Some m \<Rightarrow> do {
          (upthread, m) \<leftarrow> mutex_unlock_cs m;
          s \<leftarrow> wake_opt rt upthread s;
          Some (0, Some m, s)
        })"

section \<open>Ownership\<close>

text \<open>The invariant of a mutex: \<open>locked\<close> counts the acquisitions of the owner.\<close>

definition mutex_wf :: "upthread_mutex_t \<Rightarrow> bool" where
  "mutex_wf m \<longleftrightarrow> 0 \<le> mutex_locked m \<and> (mutex_locked m = 0 \<longleftrightarrow> mutex_owner m = None)"

text \<open>How often \<open>t\<close> has the mutex.\<close>

definition mutex_holds :: "upthread_mutex_t \<Rightarrow> upthread_t \<Rightarrow> nat" where
  "mutex_holds m t = (if mutex_owner m = Some t then nat (mutex_locked m) else 0)"

lemma mutex_init_wf:
  "upthread_mutex_init mp a = (0, Some m) \<Longrightarrow> mutex_wf m \<and> mutex_holds m = (\<lambda>_. 0) \<and> mutex_queue m = []"
  by (auto simp: upthread_mutex_init_def mutex_wf_def mutex_holds_def Let_def fun_eq_iff
      split: option.splits)

lemma mutex_lock_loop_cases:
  assumes "mutex_wf m" and "mutex_lock_loop t m = Some (r, m')"
  obtains "r = Lock_sleep" and "m' = m" and "mutex_locked m \<noteq> 0"
  | "r = Lock_done 0" and "mutex_locked m = 0" and "mutex_wf m'"
    and "mutex_holds m' = (mutex_holds m)(t := 1)" and "mutex_holds m = (\<lambda>_. 0)"
    and "mutex_queue m' = mutex_queue m" and "mutex_locked m' \<noteq> 0"
  using assms
  by (auto simp: mutex_lock_loop_def mutex_wf_def mutex_holds_def int_inc_def fun_eq_iff
      split: if_splits)

lemma mutex_lock_cases:
  assumes "mutex_wf m" and "upthread_mutex_lock t (Some m) = Some (r, mp)"
  obtains "r = Lock_sleep" and "mp = Some m" and "mutex_locked m \<noteq> 0"
  | m' where "r = Lock_done 0" and "mp = Some m'" and "mutex_wf m'"
    and "mutex_holds m' = (mutex_holds m)(t := Suc (mutex_holds m t))"
    and "mutex_queue m' = mutex_queue m" and "mutex_locked m' \<noteq> 0"
proof (cases "mutex_recursive_owner t m")
  case True
  with assms that(2) show ?thesis
    by (auto simp: upthread_mutex_lock_def mutex_recursive_owner_def mutex_wf_def mutex_holds_def
        int_inc_def fun_eq_iff nat_add_distrib split: if_splits)
next
  case False
  with assms(2) obtain m' where m': "mutex_lock_loop t m = Some (r, m')" "mp = Some m'"
    by (auto simp: upthread_mutex_lock_def bind_Some_conv)
  from assms(1) m'(1) show ?thesis
    by (cases rule: mutex_lock_loop_cases) (use that m'(2) in auto)
qed

lemma mutex_trylock_cases:
  assumes "mutex_wf m" and "upthread_mutex_trylock t (Some m) = Some (r, mp)"
  obtains "r = EBUSY" and "mp = Some m" and "mutex_locked m \<noteq> 0"
  | m' where "r = 0" and "mp = Some m'" and "mutex_wf m'"
    and "mutex_holds m' = (mutex_holds m)(t := Suc (mutex_holds m t))"
    and "mutex_queue m' = mutex_queue m" and "mutex_locked m' \<noteq> 0"
  using assms
  by (auto simp: upthread_mutex_trylock_def mutex_recursive_owner_def mutex_wf_def mutex_holds_def
      int_inc_def fun_eq_iff nat_add_distrib split: if_splits)

lemma mutex_unlock_cases:
  assumes "mutex_wf m" and "0 < mutex_holds m t" and "mutex_unlock_cs m = Some (u, m')"
  obtains "u = None" and "mutex_wf m'" and "mutex_holds m' = (mutex_holds m)(t := mutex_holds m t - 1)"
    and "mutex_queue m' = mutex_queue m" and "mutex_locked m' \<noteq> 0 \<or> mutex_queue m = []"
  | w where "u = Some w" and "mutex_wf m'"
    and "mutex_holds m' = (mutex_holds m)(t := mutex_holds m t - 1)"
    and "mutex_queue m = w # mutex_queue m'"
proof -
  from assms have own: "mutex_owner m = Some t" "0 < mutex_locked m"
    by (auto simp: mutex_holds_def split: if_splits)
  show ?thesis
  proof (cases "mutex_locked m = 1")
    case True
    then show ?thesis using assms own that
      by (cases "mutex_queue m")
        (auto simp: mutex_unlock_cs_def int_dec_def mutex_wf_def mutex_holds_def fun_eq_iff)
  next
    case False
    then show ?thesis using assms own that(1)
      by (auto simp: mutex_unlock_cs_def int_dec_def mutex_wf_def mutex_holds_def fun_eq_iff nat_diff_distrib)
  qed
qed

end
