(* ===== verification/Condvar.thy ===== *)
theory Condvar
  imports Mutex
begin

text \<open>
  Condition variables, \<^verbatim>\<open>src/common/condvar.c\<close>. The lock of the condition variable makes
  each of the parts below one step; the mutex that the sleeping thread gives up is found through
  the field \<open>waiting_mutex\<close>, so the callback takes the memory of mutexes.
\<close>

section \<open>Attributes and initialisation\<close>

definition upthread_condattr_init :: "addr option \<Rightarrow> int" where
  "upthread_condattr_init a = 0"

definition upthread_condattr_destroy :: "addr option \<Rightarrow> int" where
  "upthread_condattr_destroy a = 0"

definition upthread_cond_init :: "upthread_cond_t option \<Rightarrow> int \<times> upthread_cond_t option" where
  "upthread_cond_init c =
     (case c of None \<Rightarrow> (EINVAL, None) | Some c \<Rightarrow> (0, Some (c\<lparr>cond_queue := []\<rparr>)))"

definition upthread_cond_destroy :: "upthread_cond_t option \<Rightarrow> int" where
  "upthread_cond_destroy c = 0"

section \<open>Waiting\<close>

text \<open>The front half: \<open>Inl\<close> is an immediate return. Otherwise the mutex is recorded and the
  thread yields to \<open>cond_block\<close>; when it runs again the call returns
  \<open>upthread_mutex_lock\<close> of the mutex.\<close>

definition upthread_cond_wait ::
  "upthread_cond_t option \<Rightarrow> addr option \<Rightarrow> int + upthread_cond_t" where
  "upthread_cond_wait c m =
     (case c of
        None \<Rightarrow> Inl EINVAL
      | Some c \<Rightarrow>
          case m of
            None \<Rightarrow> Inl EINVAL
          | Some m \<Rightarrow> Inr (c\<lparr>cond_waiting_mutex := Some m\<rparr>))"

text \<open>The callback: the thread is blocked and queued before the mutex is released.\<close>

definition cond_enqueue ::
  "'s runtime \<Rightarrow> upthread_t \<Rightarrow> upthread_cond_t \<Rightarrow> 's \<Rightarrow> (upthread_cond_t \<times> 's) option" where
  "cond_enqueue rt t c s = do {
     s \<leftarrow> uthread_has_blocked rt t UTH_EXT_BLK_MUTEX s;
     q \<leftarrow> stailq_insert_tail (linked rt s \<union> set (cond_queue c)) t (cond_queue c);
     Some (c\<lparr>cond_queue := q\<rparr>, s)
   }"

definition cond_block ::
  "'s runtime \<Rightarrow> upthread_t \<Rightarrow> upthread_cond_t \<Rightarrow> (addr \<Rightarrow> upthread_mutex_t option) \<Rightarrow> 's \<Rightarrow>
   (upthread_cond_t \<times> (addr \<Rightarrow> upthread_mutex_t option) \<times> 's) option" where
  "cond_block rt t c mutexes s = do {
     (c, s) \<leftarrow> cond_enqueue rt t c s;
     (case cond_waiting_mutex c of
        None \<Rightarrow> do {
          (_, _, s) \<leftarrow> upthread_mutex_unlock rt None s;
          Some (c, mutexes, s)
        }
      | Some a \<Rightarrow> do {
          m \<leftarrow> mutexes a;
          (_, m, s) \<leftarrow> upthread_mutex_unlock rt (Some m) s;
          Some (c, mutexes(a := m), s)
        })
   }"

section \<open>Waking\<close>

text \<open>Under the lock, the first waiter is taken off the queue.\<close>

definition cond_pop :: "upthread_cond_t \<Rightarrow> upthread_t option \<times> upthread_cond_t" where
  "cond_pop c = (case stailq_pop (cond_queue c) of (u, q) \<Rightarrow> (u, c\<lparr>cond_queue := q\<rparr>))"

definition upthread_cond_signal ::
  "'s runtime \<Rightarrow> upthread_cond_t option \<Rightarrow> 's \<Rightarrow> (int \<times> upthread_cond_t option \<times> 's) option" where
  "upthread_cond_signal rt c s =
     (case c of
        None \<Rightarrow> Some (EINVAL, None, s)
      | Some c \<Rightarrow>
          (case cond_pop c of
             (upthread, c) \<Rightarrow> do {
               s \<leftarrow> wake_opt rt upthread s;
               Some (0, Some c, s)
             }))"

text \<open>The loop of \<open>upthread_cond_broadcast\<close>, when nobody else uses the condition variable while
  it runs: each pass pops one waiter under the lock and wakes it outside. The lock is given up
  between the passes; the interleaved form is a pair of rules of the monitor.\<close>

fun cond_broadcast_loop ::
  "'s runtime \<Rightarrow> upthread_t list \<Rightarrow> 's \<Rightarrow> (upthread_t list \<times> 's) option" where
  "cond_broadcast_loop rt [] s = Some ([], s)"
| "cond_broadcast_loop rt (t # q) s = do {
     s \<leftarrow> uthread_runnable rt t s;
     cond_broadcast_loop rt q s
   }"

definition upthread_cond_broadcast ::
  "'s runtime \<Rightarrow> upthread_cond_t option \<Rightarrow> 's \<Rightarrow> (int \<times> upthread_cond_t option \<times> 's) option" where
  "upthread_cond_broadcast rt c s =
     (case c of
        None \<Rightarrow> Some (EINVAL, None, s)
      | Some c \<Rightarrow> do {
          (q, s) \<leftarrow> cond_broadcast_loop rt (cond_queue c) s;
          Some (0, Some (c\<lparr>cond_queue := q\<rparr>), s)
        })"

lemma cond_pop_simps [simp]:
  "cond_queue c = [] \<Longrightarrow> cond_pop c = (None, c\<lparr>cond_queue := []\<rparr>)"
  "cond_queue c = t # q \<Longrightarrow> cond_pop c = (Some t, c\<lparr>cond_queue := q\<rparr>)"
  by (simp_all add: cond_pop_def)

lemma cond_popE:
  assumes "cond_pop c = (u, c')"
  obtains "u = None" and "cond_queue c = []" and "cond_queue c' = []"
  | w where "u = Some w" and "cond_queue c = w # cond_queue c'"
  using assms by (cases "cond_queue c") auto

section \<open>What the calls do to a scheduler\<close>

context two_level_scheduler
begin

text \<open>Every waiter present when the broadcast starts is made runnable, in the order of the
  queue, and no other thread.\<close>

lemma cond_broadcast_loop_wakes:
  assumes "sinv s" and "distinct q" and "set q \<subseteq> blocked s"
  shows "\<exists>s'. cond_broadcast_loop rt q s = Some ([], s') \<and> sinv s' \<and>
           running s' = running s \<and> blocked s' = blocked s - set q"
  using assms
proof (induction q arbitrary: s)
  case Nil
  then show ?case by simp
next
  case (Cons t q)
  then obtain s1 where s1: "uthread_runnable rt t s = Some s1" "sinv s1"
      "running s1 = running s" "blocked s1 = blocked s - {t}"
    using runnable_spec [of s t] by auto
  with Cons.prems have "set q \<subseteq> blocked s1" by auto
  from Cons.IH [OF s1(2) _ this] Cons.prems(2) s1 show ?case by auto
qed

lemma cond_broadcast_wakes:
  assumes "sinv s" and "distinct (cond_queue c)" and "set (cond_queue c) \<subseteq> blocked s"
  shows "\<exists>c' s'. upthread_cond_broadcast rt (Some c) s = Some (0, Some c', s') \<and>
           cond_queue c' = [] \<and> sinv s' \<and> running s' = running s \<and>
           blocked s' = blocked s - set (cond_queue c)"
  using cond_broadcast_loop_wakes [OF assms] by (auto simp: upthread_cond_broadcast_def)

lemma cond_signal_wakes:
  assumes "sinv s" and "cond_queue c = t # q" and "t \<in> blocked s"
  shows "\<exists>s'. upthread_cond_signal rt (Some c) s = Some (0, Some (c\<lparr>cond_queue := q\<rparr>), s') \<and>
           sinv s' \<and> running s' = running s \<and> blocked s' = blocked s - {t} \<and> t \<in> linked rt s'"
  using runnable_spec [OF assms(1,3)] assms(2)
  by (auto simp: upthread_cond_signal_def wake_opt_def)

end

end
