(* ===== verification/Monitor.thy ===== *)
theory Monitor
  imports Condvar
begin

text \<open>
  Any number of threads that use one mutex and one condition variable, on any scheduler. A step
  is one critical section of \<^verbatim>\<open>src/common/mutex.c\<close> or \<^verbatim>\<open>src/common/condvar.c\<close>, one
  call of \<open>uthread_runnable\<close> for a thread that was taken off a queue before, or a step of the
  scheduler. Threads are free to call anything at any time, except that a thread unlocks, and
  waits with, only a mutex it holds.
\<close>

section \<open>State\<close>

text \<open>Where in the library a thread is.\<close>

datatype mpc =
    Client            \<comment> \<open>outside, or at the start of a call\<close>
  | Lock_waiting      \<comment> \<open>asleep on the queue of the mutex\<close>
  | Lock_retry        \<comment> \<open>taken off it, on its way to the next attempt\<close>
  | Cond_waiting      \<comment> \<open>asleep on the queue of the condition variable\<close>
  | Relock            \<comment> \<open>taken off it, on its way to \<open>upthread_mutex_lock\<close>\<close>
  | Broadcasting      \<comment> \<open>between two passes of \<open>upthread_cond_broadcast\<close>\<close>

text \<open>
  \<open>mon_waking\<close> holds the threads that were taken off a queue and for which the call of
  \<open>uthread_runnable\<close> is still to come. \<open>mon_held\<close> is a ghost: it counts the successful lock
  calls of each thread less its unlock calls, going by the values the calls return.
\<close>

record 's monitor =
  mon_mutex :: upthread_mutex_t
  mon_cond :: upthread_cond_t
  mon_sched :: 's
  mon_pc :: "upthread_t \<Rightarrow> mpc"
  mon_waking :: "upthread_t set"
  mon_held :: "upthread_t \<Rightarrow> nat"

definition set_of_opt :: "'a option \<Rightarrow> 'a set" where
  "set_of_opt u = (case u of None \<Rightarrow> {} | Some x \<Rightarrow> {x})"

definition pc_opt :: "upthread_t option \<Rightarrow> mpc \<Rightarrow> (upthread_t \<Rightarrow> mpc) \<Rightarrow> upthread_t \<Rightarrow> mpc" where
  "pc_opt u p f = (case u of None \<Rightarrow> f | Some x \<Rightarrow> f(x := p))"

section \<open>Steps\<close>

inductive mon_step ::
  "'s runtime \<Rightarrow> ('s \<Rightarrow> upthread_t set) \<Rightarrow> ('s \<Rightarrow> 's \<Rightarrow> bool) \<Rightarrow> 's monitor \<Rightarrow> 's monitor \<Rightarrow> bool"
  for rt :: "'s runtime" and running :: "'s \<Rightarrow> upthread_t set" and moves :: "'s \<Rightarrow> 's \<Rightarrow> bool" where
  m_lock: "t \<in> running (mon_sched M) \<Longrightarrow> mon_pc M t = Client \<or> mon_pc M t = Relock \<Longrightarrow>
    upthread_mutex_lock t (Some (mon_mutex M)) = Some (Lock_done 0, Some m) \<Longrightarrow>
    mon_step rt running moves M
      (M\<lparr>mon_mutex := m, mon_pc := (mon_pc M)(t := Client),
         mon_held := (mon_held M)(t := Suc (mon_held M t))\<rparr>)"
| m_lock_sleep: "t \<in> running (mon_sched M) \<Longrightarrow> mon_pc M t = Client \<or> mon_pc M t = Relock \<Longrightarrow>
    upthread_mutex_lock t (Some (mon_mutex M)) = Some (Lock_sleep, Some m) \<Longrightarrow>
    mutex_block rt t m (mon_sched M) = Some (m', s') \<Longrightarrow>
    mon_step rt running moves M
      (M\<lparr>mon_mutex := m', mon_sched := s', mon_pc := (mon_pc M)(t := Lock_waiting)\<rparr>)"
| m_retry: "t \<in> running (mon_sched M) \<Longrightarrow> mon_pc M t = Lock_retry \<Longrightarrow>
    mutex_lock_loop t (mon_mutex M) = Some (Lock_done 0, m) \<Longrightarrow>
    mon_step rt running moves M
      (M\<lparr>mon_mutex := m, mon_pc := (mon_pc M)(t := Client),
         mon_held := (mon_held M)(t := Suc (mon_held M t))\<rparr>)"
| m_retry_sleep: "t \<in> running (mon_sched M) \<Longrightarrow> mon_pc M t = Lock_retry \<Longrightarrow>
    mutex_lock_loop t (mon_mutex M) = Some (Lock_sleep, m) \<Longrightarrow>
    mutex_block rt t m (mon_sched M) = Some (m', s') \<Longrightarrow>
    mon_step rt running moves M
      (M\<lparr>mon_mutex := m', mon_sched := s', mon_pc := (mon_pc M)(t := Lock_waiting)\<rparr>)"
| m_trylock: "t \<in> running (mon_sched M) \<Longrightarrow> mon_pc M t = Client \<Longrightarrow>
    upthread_mutex_trylock t (Some (mon_mutex M)) = Some (r, Some m) \<Longrightarrow>
    mon_step rt running moves M
      (M\<lparr>mon_mutex := m,
         mon_held := (if r = 0 then (mon_held M)(t := Suc (mon_held M t)) else mon_held M)\<rparr>)"
| m_unlock: "t \<in> running (mon_sched M) \<Longrightarrow> mon_pc M t = Client \<Longrightarrow> 0 < mon_held M t \<Longrightarrow>
    mutex_unlock_cs (mon_mutex M) = Some (u, m) \<Longrightarrow>
    mon_step rt running moves M
      (M\<lparr>mon_mutex := m, mon_pc := pc_opt u Lock_retry (mon_pc M),
         mon_waking := mon_waking M \<union> set_of_opt u,
         mon_held := (mon_held M)(t := mon_held M t - 1)\<rparr>)"
| m_wake: "w \<in> mon_waking M \<Longrightarrow> uthread_runnable rt w (mon_sched M) = Some s' \<Longrightarrow>
    mon_step rt running moves M (M\<lparr>mon_sched := s', mon_waking := mon_waking M - {w}\<rparr>)"
| m_wait: "t \<in> running (mon_sched M) \<Longrightarrow> mon_pc M t = Client \<Longrightarrow> 0 < mon_held M t \<Longrightarrow>
    upthread_cond_wait (Some (mon_cond M)) (Some a) = Inr c \<Longrightarrow>
    cond_enqueue rt t c (mon_sched M) = Some (c', s') \<Longrightarrow>
    mutex_unlock_cs (mon_mutex M) = Some (u, m) \<Longrightarrow>
    mon_step rt running moves M
      (M\<lparr>mon_mutex := m, mon_cond := c', mon_sched := s',
         mon_pc := (pc_opt u Lock_retry (mon_pc M))(t := Cond_waiting),
         mon_waking := mon_waking M \<union> set_of_opt u,
         mon_held := (mon_held M)(t := mon_held M t - 1)\<rparr>)"
| m_signal: "t \<in> running (mon_sched M) \<Longrightarrow> mon_pc M t = Client \<Longrightarrow>
    cond_pop (mon_cond M) = (u, c) \<Longrightarrow>
    mon_step rt running moves M
      (M\<lparr>mon_cond := c, mon_pc := pc_opt u Relock (mon_pc M),
         mon_waking := mon_waking M \<union> set_of_opt u\<rparr>)"
| m_broadcast: "t \<in> running (mon_sched M) \<Longrightarrow>
    mon_pc M t = Client \<or> mon_pc M t = Broadcasting \<Longrightarrow>
    cond_pop (mon_cond M) = (u, c) \<Longrightarrow>
    mon_step rt running moves M
      (M\<lparr>mon_cond := c,
         mon_pc := (pc_opt u Relock (mon_pc M))
                     (t := (case u of None \<Rightarrow> Client | Some _ \<Rightarrow> Broadcasting)),
         mon_waking := mon_waking M \<union> set_of_opt u\<rparr>)"
| m_preempt: "t \<in> running (mon_sched M) \<Longrightarrow> uthread_paused rt t (mon_sched M) = Some s' \<Longrightarrow>
    mon_step rt running moves M (M\<lparr>mon_sched := s'\<rparr>)"
| m_sched: "moves (mon_sched M) s' \<Longrightarrow> mon_step rt running moves M (M\<lparr>mon_sched := s'\<rparr>)"

definition mon_init :: "('s \<Rightarrow> bool) \<Rightarrow> 's monitor \<Rightarrow> bool" where
  "mon_init sinv M \<longleftrightarrow>
     (\<exists>m a. upthread_mutex_init (Some m) a = (0, Some (mon_mutex M))) \<and>
     (\<exists>c. upthread_cond_init (Some c) = (0, Some (mon_cond M))) \<and>
     sinv (mon_sched M) \<and> mon_pc M = (\<lambda>_. Client) \<and> mon_waking M = {} \<and> mon_held M = (\<lambda>_. 0)"

section \<open>The invariant\<close>

text \<open>
  The queues hold exactly the threads that are asleep on them, each once; a thread that is
  asleep or about to be woken is blocked in the scheduler, so its link is free for the queue;
  \<open>locked\<close> and \<open>owner\<close> agree with what the callers know; and a free mutex with sleepers has
  a thread on its way to retry.
\<close>

definition mon_queues_ok :: "'s monitor \<Rightarrow> bool" where
  "mon_queues_ok M \<longleftrightarrow>
     distinct (mutex_queue (mon_mutex M)) \<and> distinct (cond_queue (mon_cond M)) \<and>
     set (mutex_queue (mon_mutex M)) = {t. mon_pc M t = Lock_waiting} \<and>
     set (cond_queue (mon_cond M)) = {t. mon_pc M t = Cond_waiting} \<and>
     (\<forall>w \<in> mon_waking M. mon_pc M w = Lock_retry \<or> mon_pc M w = Relock)"

definition asleep :: "'s monitor \<Rightarrow> upthread_t set" where
  "asleep M = {t. mon_pc M t = Lock_waiting} \<union> {t. mon_pc M t = Cond_waiting} \<union> mon_waking M"

definition mon_lock_ok :: "'s monitor \<Rightarrow> bool" where
  "mon_lock_ok M \<longleftrightarrow>
     mutex_wf (mon_mutex M) \<and> mon_held M = mutex_holds (mon_mutex M) \<and>
     (mutex_locked (mon_mutex M) = 0 \<longrightarrow> mutex_queue (mon_mutex M) \<noteq> [] \<longrightarrow>
        (\<exists>w. mon_pc M w = Lock_retry))"

definition mon_inv :: "('s \<Rightarrow> bool) \<Rightarrow> ('s \<Rightarrow> upthread_t set) \<Rightarrow> 's monitor \<Rightarrow> bool" where
  "mon_inv sinv blocked M \<longleftrightarrow>
     sinv (mon_sched M) \<and> asleep M \<subseteq> blocked (mon_sched M) \<and> mon_queues_ok M \<and> mon_lock_ok M"

lemma mon_init_inv:
  assumes "mon_init sinv M"
  shows "mon_inv sinv blocked M"
proof -
  from assms have pc: "mon_pc M = (\<lambda>_. Client)" "mon_waking M = {}" "mon_held M = (\<lambda>_. 0)"
    and s: "sinv (mon_sched M)"
    by (simp_all add: mon_init_def)
  from assms have m: "mutex_wf (mon_mutex M)" "mutex_holds (mon_mutex M) = (\<lambda>_. 0)"
      "mutex_queue (mon_mutex M) = []"
    using mutex_init_wf by (fastforce simp: mon_init_def)+
  from assms obtain c where "c\<lparr>cond_queue := []\<rparr> = mon_cond M"
    by (auto simp: mon_init_def upthread_cond_init_def)
  from arg_cong [OF this, of cond_queue] have "cond_queue (mon_cond M) = []" by simp
  with pc s m show ?thesis
    by (simp add: mon_inv_def mon_queues_ok_def mon_lock_ok_def asleep_def)
qed

section \<open>Every step keeps the invariant\<close>

lemma set_of_opt_simps [simp]: "set_of_opt None = {}" "set_of_opt (Some x) = {x}"
  by (simp_all add: set_of_opt_def)

lemma pc_opt_simps [simp]: "pc_opt None p f = f" "pc_opt (Some x) p f = f(x := p)"
  by (simp_all add: pc_opt_def)

lemma asleepI:
  "mon_pc M t = Lock_waiting \<Longrightarrow> t \<in> asleep M"
  "mon_pc M t = Cond_waiting \<Longrightarrow> t \<in> asleep M"
  "t \<in> mon_waking M \<Longrightarrow> t \<in> asleep M"
  by (simp_all add: asleep_def)

lemma ex_fun_upd: "\<exists>w. f w = a \<Longrightarrow> f t \<noteq> a \<Longrightarrow> \<exists>w. (f(t := p)) w = a"
  by (metis fun_upd_other)

context two_level_scheduler
begin

lemma mon_running_awake:
  assumes "mon_inv sinv blocked M" and "t \<in> running (mon_sched M)"
  shows "mon_pc M t \<noteq> Lock_waiting" and "mon_pc M t \<noteq> Cond_waiting" and "t \<notin> mon_waking M"
    and "t \<notin> set (mutex_queue (mon_mutex M))" and "t \<notin> set (cond_queue (mon_cond M))"
proof -
  have "t \<notin> asleep M" using assms blocked_not_running by (auto simp: mon_inv_def)
  then show "mon_pc M t \<noteq> Lock_waiting" "mon_pc M t \<noteq> Cond_waiting" "t \<notin> mon_waking M"
    "t \<notin> set (mutex_queue (mon_mutex M))" "t \<notin> set (cond_queue (mon_cond M))"
    using assms(1) by (auto simp: asleep_def mon_inv_def mon_queues_ok_def)
qed

lemma mutex_blockE:
  assumes "mutex_block rt t m s = Some (m', s')" and "sinv s" and "t \<in> running s"
  obtains "sinv s'" and "running s' = running s - {t}" and "blocked s' = insert t (blocked s)"
    and "m' = m\<lparr>mutex_queue := mutex_queue m @ [t]\<rparr>" and "t \<notin> set (mutex_queue m)"
  using assms by (auto simp: mutex_block_def bind_Some_conv stailq_insert_tail_def
      elim: has_blockedE split: if_splits)

lemma cond_enqueueE:
  assumes "cond_enqueue rt t c s = Some (c', s')" and "sinv s" and "t \<in> running s"
  obtains "sinv s'" and "running s' = running s - {t}" and "blocked s' = insert t (blocked s)"
    and "cond_queue c' = cond_queue c @ [t]" and "t \<notin> set (cond_queue c)"
  using assms by (auto simp: cond_enqueue_def bind_Some_conv stailq_insert_tail_def
      elim: has_blockedE split: if_splits)

lemma mon_lock_inv:
  assumes inv: "mon_inv sinv blocked M" and t: "t \<in> running (mon_sched M)"
    and m: "mutex_wf m" "mutex_holds m = (mon_held M)(t := Suc (mon_held M t))"
      "mutex_queue m = mutex_queue (mon_mutex M)" "mutex_locked m \<noteq> 0"
    and pc: "mon_pc M t \<noteq> Lock_waiting" "mon_pc M t \<noteq> Cond_waiting"
  shows "mon_inv sinv blocked
           (M\<lparr>mon_mutex := m, mon_pc := (mon_pc M)(t := Client),
              mon_held := (mon_held M)(t := Suc (mon_held M t))\<rparr>)"
  using inv m pc mon_running_awake(3) [OF inv t]
  by (auto simp: mon_inv_def mon_queues_ok_def mon_lock_ok_def asleep_def)

lemma mon_sleep_inv:
  assumes inv: "mon_inv sinv blocked M" and t: "t \<in> running (mon_sched M)"
    and blk: "mutex_block rt t (mon_mutex M) (mon_sched M) = Some (m', s')"
    and held: "mutex_locked (mon_mutex M) \<noteq> 0"
  shows "mon_inv sinv blocked
           (M\<lparr>mon_mutex := m', mon_sched := s', mon_pc := (mon_pc M)(t := Lock_waiting)\<rparr>)"
proof -
  note awake = mon_running_awake [OF inv t]
  from inv have "sinv (mon_sched M)" by (simp add: mon_inv_def)
  from mutex_blockE [OF blk this t] have s': "sinv s'" "blocked s' = insert t (blocked (mon_sched M))"
    and m': "m' = (mon_mutex M)\<lparr>mutex_queue := mutex_queue (mon_mutex M) @ [t]\<rparr>" by blast+
  have "mutex_wf m' = mutex_wf (mon_mutex M)" "mutex_holds m' = mutex_holds (mon_mutex M)"
    by (simp_all add: m' mutex_wf_def mutex_holds_def fun_eq_iff)
  with inv s' awake held show ?thesis
    by (auto simp: mon_inv_def mon_queues_ok_def mon_lock_ok_def asleep_def m')
qed

lemma mon_unlock_inv:
  assumes inv: "mon_inv sinv blocked M" and t: "t \<in> running (mon_sched M)"
    and pc: "mon_pc M t = Client" and held: "0 < mon_held M t"
    and cs: "mutex_unlock_cs (mon_mutex M) = Some (u, m)"
  shows "mon_inv sinv blocked
      (M\<lparr>mon_mutex := m, mon_pc := pc_opt u Lock_retry (mon_pc M),
         mon_waking := mon_waking M \<union> set_of_opt u,
         mon_held := (mon_held M)(t := mon_held M t - 1)\<rparr>)"
proof -
  from inv have wf: "mutex_wf (mon_mutex M)" and h: "mon_held M = mutex_holds (mon_mutex M)"
    by (simp_all add: mon_inv_def mon_lock_ok_def)
  from held h have "0 < mutex_holds (mon_mutex M) t" by simp
  from wf this cs show ?thesis
  proof (cases rule: mutex_unlock_cases)
    case 1
    with inv h show ?thesis by (auto simp: mon_inv_def mon_queues_ok_def mon_lock_ok_def asleep_def)
  next
    case (2 w)
    from inv 2(4) have w: "mon_pc M w = Lock_waiting" "distinct (w # mutex_queue m)"
        "set (w # mutex_queue m) = {t. mon_pc M t = Lock_waiting}"
      by (auto simp: mon_inv_def mon_queues_ok_def)
    have "w \<in> blocked (mon_sched M)" using inv w(1) by (auto simp: mon_inv_def asleep_def)
    with inv h w 2 show ?thesis
      by (auto simp: mon_inv_def mon_queues_ok_def mon_lock_ok_def asleep_def)
  qed
qed

lemma mon_wait_inv:
  assumes inv: "mon_inv sinv blocked M" and t: "t \<in> running (mon_sched M)"
    and pc: "mon_pc M t = Client" and held: "0 < mon_held M t"
    and c: "cond_queue c = cond_queue (mon_cond M)"
    and enq: "cond_enqueue rt t c (mon_sched M) = Some (c', s')"
    and cs: "mutex_unlock_cs (mon_mutex M) = Some (u, m)"
  shows "mon_inv sinv blocked
      (M\<lparr>mon_mutex := m, mon_cond := c', mon_sched := s',
         mon_pc := (pc_opt u Lock_retry (mon_pc M))(t := Cond_waiting),
         mon_waking := mon_waking M \<union> set_of_opt u,
         mon_held := (mon_held M)(t := mon_held M t - 1)\<rparr>)"
proof -
  let ?M = "M\<lparr>mon_mutex := m, mon_pc := pc_opt u Lock_retry (mon_pc M),
         mon_waking := mon_waking M \<union> set_of_opt u,
         mon_held := (mon_held M)(t := mon_held M t - 1)\<rparr>"
  have inv': "mon_inv sinv blocked ?M" by (rule mon_unlock_inv [OF inv t pc held cs])
  have t': "t \<in> running (mon_sched ?M)" using t by simp
  note awake = mon_running_awake [OF inv' t']
  from inv have "sinv (mon_sched M)" by (simp add: mon_inv_def)
  from cond_enqueueE [OF enq this t] c have s': "sinv s'" "blocked s' = insert t (blocked (mon_sched M))"
    and c': "cond_queue c' = cond_queue (mon_cond M) @ [t]" by auto
  have "pc_opt u Lock_retry (mon_pc M) t \<noteq> Lock_retry"
    using pc mon_running_awake(4) [OF inv t] cs
    by (cases "mutex_queue (mon_mutex M)"; cases u)
      (auto simp: mutex_unlock_cs_def bind_Some_conv Let_def split: if_splits)
  with inv' s' awake c' show ?thesis
    by (auto simp: mon_inv_def mon_queues_ok_def mon_lock_ok_def asleep_def)
qed

lemma mon_pop_inv:
  assumes inv: "mon_inv sinv blocked M" and "cond_pop (mon_cond M) = (u, c)"
  shows "mon_inv sinv blocked
      (M\<lparr>mon_cond := c, mon_pc := pc_opt u Relock (mon_pc M),
         mon_waking := mon_waking M \<union> set_of_opt u\<rparr>)"
  using assms(2)
proof (cases rule: cond_popE)
  case 1
  with inv show ?thesis by (auto simp: mon_inv_def mon_queues_ok_def mon_lock_ok_def asleep_def)
next
  case (2 w)
  from inv 2(2) have w: "mon_pc M w = Cond_waiting" "distinct (w # cond_queue c)"
      "set (w # cond_queue c) = {t. mon_pc M t = Cond_waiting}"
    by (auto simp: mon_inv_def mon_queues_ok_def)
  have "w \<in> blocked (mon_sched M)" using inv w(1) by (auto simp: mon_inv_def asleep_def)
  moreover have "mon_pc M v = Lock_retry \<Longrightarrow> v \<noteq> w" for v using w(1) by auto
  ultimately show ?thesis using inv w 2
    by (auto simp: mon_inv_def mon_queues_ok_def mon_lock_ok_def asleep_def)
qed

lemma mon_pc_client_inv:
  assumes inv: "mon_inv sinv blocked M" and "t \<in> running (mon_sched M)"
    and "mon_pc M t = Client \<or> mon_pc M t = Broadcasting" and "p = Client \<or> p = Broadcasting"
  shows "mon_inv sinv blocked (M\<lparr>mon_pc := (mon_pc M)(t := p)\<rparr>)"
proof -
  have "mon_lock_ok (M\<lparr>mon_pc := (mon_pc M)(t := p)\<rparr>)"
    using inv assms(3)
    by (auto simp: mon_inv_def mon_lock_ok_def simp del: fun_upd_apply intro!: ex_fun_upd)
  then show ?thesis using assms mon_running_awake [OF inv assms(2)]
    by (auto simp: mon_inv_def mon_queues_ok_def asleep_def)
qed

lemma mon_sched_inv:
  assumes "mon_inv sinv blocked M" and "sinv s'" and "blocked s' = blocked (mon_sched M)"
  shows "mon_inv sinv blocked (M\<lparr>mon_sched := s'\<rparr>)"
  using assms by (simp add: mon_inv_def mon_queues_ok_def mon_lock_ok_def asleep_def)

lemma mon_wake_inv:
  assumes inv: "mon_inv sinv blocked M" and w: "w \<in> mon_waking M"
    and run: "uthread_runnable rt w (mon_sched M) = Some s'"
  shows "mon_inv sinv blocked (M\<lparr>mon_sched := s', mon_waking := mon_waking M - {w}\<rparr>)"
proof -
  from inv w have "sinv (mon_sched M)" "w \<in> blocked (mon_sched M)"
    by (auto simp: mon_inv_def asleep_def)
  from runnableE [OF run this] have "sinv s'" "blocked s' = blocked (mon_sched M) - {w}" by blast+
  moreover from inv w have "mon_pc M w = Lock_retry \<or> mon_pc M w = Relock"
    by (simp add: mon_inv_def mon_queues_ok_def)
  ultimately show ?thesis using inv
    by (auto simp: mon_inv_def mon_queues_ok_def mon_lock_ok_def asleep_def)
qed

lemma mon_step_inv:
  assumes "mon_step rt running moves M M'" and "mon_inv sinv blocked M"
  shows "mon_inv sinv blocked M'"
  using assms
proof (induction rule: mon_step.induct)
  case (m_lock t M m)
  then have wf: "mutex_wf (mon_mutex M)" and h: "mon_held M = mutex_holds (mon_mutex M)"
    by (simp_all add: mon_inv_def mon_lock_ok_def)
  from wf m_lock(3) show ?case
  proof (cases rule: mutex_lock_cases)
    case 1
    then show ?thesis by simp
  next
    case (2 m1)
    show ?thesis by (rule mon_lock_inv) (use 2 h m_lock in auto)
  qed
next
  case (m_lock_sleep t M m m' s')
  then have "mutex_wf (mon_mutex M)" by (simp add: mon_inv_def mon_lock_ok_def)
  from this m_lock_sleep(3) have "m = mon_mutex M" "mutex_locked (mon_mutex M) \<noteq> 0"
    by (cases rule: mutex_lock_cases; simp)+
  with m_lock_sleep show ?case by (intro mon_sleep_inv) simp_all
next
  case (m_retry t M m)
  then have wf: "mutex_wf (mon_mutex M)" and h: "mon_held M = mutex_holds (mon_mutex M)"
    by (simp_all add: mon_inv_def mon_lock_ok_def)
  from wf m_retry(3) show ?case
  proof (cases rule: mutex_lock_loop_cases)
    case 1
    then show ?thesis by simp
  next
    case 2
    show ?thesis by (rule mon_lock_inv) (use 2 h m_retry in auto)
  qed
next
  case (m_retry_sleep t M m m' s')
  then have "mutex_wf (mon_mutex M)" by (simp add: mon_inv_def mon_lock_ok_def)
  from this m_retry_sleep(3) have "m = mon_mutex M" "mutex_locked (mon_mutex M) \<noteq> 0"
    by (cases rule: mutex_lock_loop_cases; simp)+
  with m_retry_sleep show ?case by (intro mon_sleep_inv) simp_all
next
  case (m_trylock t M r m)
  then have wf: "mutex_wf (mon_mutex M)" and h: "mon_held M = mutex_holds (mon_mutex M)"
    by (simp_all add: mon_inv_def mon_lock_ok_def)
  from wf m_trylock(3) show ?case
  proof (cases rule: mutex_trylock_cases)
    case 1
    with m_trylock show ?thesis by simp
  next
    case (2 m1)
    have "mon_inv sinv blocked
           (M\<lparr>mon_mutex := m, mon_pc := (mon_pc M)(t := Client),
              mon_held := (mon_held M)(t := Suc (mon_held M t))\<rparr>)"
      by (rule mon_lock_inv) (use m_trylock 2 h in simp_all)
    moreover have "(mon_pc M)(t := Client) = mon_pc M" using m_trylock(2) by auto
    ultimately show ?thesis using 2 by simp
  qed
next
  case (m_unlock t M u m)
  then show ?case by (intro mon_unlock_inv)
next
  case (m_wake w M s')
  then show ?case by (intro mon_wake_inv)
next
  case (m_wait t M a c c' s' u m)
  from m_wait(4) have "cond_queue c = cond_queue (mon_cond M)"
    by (auto simp: upthread_cond_wait_def)
  with m_wait show ?case by (intro mon_wait_inv)
next
  case (m_signal t M u c)
  then show ?case by (intro mon_pop_inv)
next
  case (m_broadcast t M u c)
  let ?M = "M\<lparr>mon_cond := c, mon_pc := pc_opt u Relock (mon_pc M),
         mon_waking := mon_waking M \<union> set_of_opt u\<rparr>"
  have inv: "mon_inv sinv blocked ?M" by (rule mon_pop_inv) (use m_broadcast in simp_all)
  have "u \<noteq> Some t" using mon_running_awake(5) [OF m_broadcast(4,1)] m_broadcast(3)
    by (auto elim: cond_popE)
  then have "mon_pc ?M t = mon_pc M t" by (cases u) auto
  then have "mon_inv sinv blocked
      (?M\<lparr>mon_pc := (mon_pc ?M)(t := (case u of None \<Rightarrow> Client | Some _ \<Rightarrow> Broadcasting))\<rparr>)"
    by (intro mon_pc_client_inv [OF inv]) (use m_broadcast in \<open>auto split: option.splits\<close>)
  then show ?case by (rule back_subst) (rule monitor.equality, simp_all)
next
  case (m_preempt t M s')
  then have "sinv (mon_sched M)" by (simp add: mon_inv_def)
  from pausedE [OF m_preempt(2) this m_preempt(1)] m_preempt(3) show ?case
    by (blast intro: mon_sched_inv)
next
  case (m_sched M s')
  then have "sinv (mon_sched M)" by (simp add: mon_inv_def)
  from moves_spec [OF m_sched(1) this] m_sched(2) show ?case by (blast intro: mon_sched_inv)
qed

lemma mon_reachable_inv:
  assumes "reachable (mon_init sinv) (mon_step rt running moves) M"
  shows "mon_inv sinv blocked M"
  using assms by (rule reachable_invariant) (auto intro: mon_init_inv mon_step_inv)

section \<open>What follows from the invariant\<close>

text \<open>At most one thread holds the mutex, it is the recorded owner, and \<open>locked\<close> counts.\<close>

lemma mon_mutual_exclusion:
  assumes "reachable (mon_init sinv) (mon_step rt running moves) M"
    and "0 < mon_held M t" and "0 < mon_held M u"
  shows "t = u \<and> mutex_owner (mon_mutex M) = Some t \<and>
         mutex_locked (mon_mutex M) = int (mon_held M t)"
  using mon_reachable_inv [OF assms(1)] assms(2,3)
  by (auto simp: mon_inv_def mon_lock_ok_def mutex_holds_def split: if_splits)

text \<open>A free mutex never leaves its sleepers to themselves.\<close>

lemma mon_no_lost_wakeup:
  assumes "reachable (mon_init sinv) (mon_step rt running moves) M"
    and "mutex_locked (mon_mutex M) = 0" and "mon_pc M t = Lock_waiting"
  shows "\<exists>w. mon_pc M w = Lock_retry"
proof -
  note inv = mon_reachable_inv [OF assms(1)]
  from inv assms(3) have "t \<in> set (mutex_queue (mon_mutex M))"
    by (simp add: mon_inv_def mon_queues_ok_def)
  then have "mutex_queue (mon_mutex M) \<noteq> []" by auto
  with inv assms(2) show ?thesis by (simp add: mon_inv_def mon_lock_ok_def)
qed

text \<open>No call a thread can make here is undefined: links are free when a queue needs them, and
  a thread that is woken is one the scheduler holds blocked.\<close>

lemma mon_defined:
  assumes "reachable (mon_init sinv) (mon_step rt running moves) M"
  shows "t \<in> running (mon_sched M) \<Longrightarrow> mutex_block rt t (mon_mutex M) (mon_sched M) \<noteq> None"
    and "t \<in> running (mon_sched M) \<Longrightarrow> cond_enqueue rt t (mon_cond M) (mon_sched M) \<noteq> None"
    and "w \<in> mon_waking M \<Longrightarrow> uthread_runnable rt w (mon_sched M) \<noteq> None"
proof -
  note inv = mon_reachable_inv [OF assms]
  then have s: "sinv (mon_sched M)" by (simp add: mon_inv_def)
  show "mutex_block rt t (mon_mutex M) (mon_sched M) \<noteq> None" if t: "t \<in> running (mon_sched M)"
  proof -
    from has_blocked_spec [OF s t] obtain s' where s':
      "uthread_has_blocked rt t UTH_EXT_BLK_MUTEX (mon_sched M) = Some s'" "sinv s'"
      "t \<in> blocked s'" by blast
    then show ?thesis
      using blocked_unlinked [OF s'(2,3)] mon_running_awake(4) [OF inv t] by (simp add: mutex_block_def)
  qed
  show "cond_enqueue rt t (mon_cond M) (mon_sched M) \<noteq> None" if t: "t \<in> running (mon_sched M)"
  proof -
    from has_blocked_spec [OF s t] obtain s' where s':
      "uthread_has_blocked rt t UTH_EXT_BLK_MUTEX (mon_sched M) = Some s'" "sinv s'"
      "t \<in> blocked s'" by blast
    then show ?thesis
      using blocked_unlinked [OF s'(2,3)] mon_running_awake(5) [OF inv t] by (simp add: cond_enqueue_def)
  qed
  show "uthread_runnable rt w (mon_sched M) \<noteq> None" if "w \<in> mon_waking M"
  proof -
    have "w \<in> blocked (mon_sched M)" using inv that by (auto simp: mon_inv_def asleep_def)
    from runnable_spec [OF s this] show ?thesis by auto
  qed
qed

end

end
