(* ===== verification/Gq_Sched.thy ===== *)
theory Gq_Sched
  imports Sched_Base
begin

text \<open>
  The global-queue scheduler, \<^verbatim>\<open>src/gq/upthread.c\<close>: one ready queue and one active
  queue, both under \<open>queue_lock\<close>. Each function is the whole of the C function; the code
  under \<open>queue_lock\<close> is one step, and \<open>ur\<close> is parlib's \<open>uthread_runnable\<close>, which
  the callbacks call to make a thread ready again.
\<close>

section \<open>State\<close>

record gq = sched_globals +
  ready_queue :: "upthread_t list"
  active_queue :: "upthread_t list"
  threads_ready :: int
  threads_active :: int

text \<open>The threads whose \<open>next\<close> link is in use by a queue of the scheduler.\<close>

definition gq_links :: "gq \<Rightarrow> upthread_t set" where
  "gq_links s = set (ready_queue s) \<union> set (active_queue s)"

lemma gq_ext_simps [simp]:
  "ready_queue (ext c s) = ready_queue s"
  "active_queue (ext c s) = active_queue s"
  "threads_ready (ext c s) = threads_ready s"
  "threads_active (ext c s) = threads_active s"
  "gq_links (ext c s) = gq_links s"
  by (simp_all add: ext_def gq_links_def)

section \<open>Accounting when a thread stops\<close>

definition gq_generic_yield :: "upthread_t \<Rightarrow> gq \<Rightarrow> gq option" where
  "gq_generic_yield t s = do {
     q \<leftarrow> stailq_remove t (active_queue s);
     Some (s\<lparr>threads_active := threads_active s - 1, active_queue := q\<rparr>)
   }"

section \<open>Operations registered with parlib\<close>

definition gq_pth_thread_runnable :: "upthread_t \<Rightarrow> gq \<Rightarrow> gq option" where
  "gq_pth_thread_runnable t s = do {
     p \<leftarrow> tcbs s t;
     let s = (if wakeable (tcb_state p) then s
              else ext (PrintfOddState (upth_state_code (tcb_state p)) t) s);
     s \<leftarrow> set_state t UPTH_RUNNABLE s;
     q \<leftarrow> stailq_insert_tail (gq_links s) t (ready_queue s);
     let s = s\<lparr>ready_queue := q, threads_ready := threads_ready s + 1\<rparr>;
     Some (if can_adjust_vcores s then ext (VcoreRequest 1) s else s)
   }"

definition gq_pth_thread_paused ::
  "(upthread_t \<Rightarrow> gq \<Rightarrow> gq option) \<Rightarrow> upthread_t \<Rightarrow> gq \<Rightarrow> gq option" where
  "gq_pth_thread_paused ur t s = do {
     s \<leftarrow> gq_generic_yield t s;
     s \<leftarrow> set_state t UPTH_BLK_PAUSED s;
     ur t s
   }"

definition gq_pth_thread_has_blocked :: "upthread_t \<Rightarrow> ext_blk_flag \<Rightarrow> gq \<Rightarrow> gq option" where
  "gq_pth_thread_has_blocked t flags s = do {
     s \<leftarrow> gq_generic_yield t s;
     s \<leftarrow> set_state t UPTH_BLK_MUTEX s;
     Some (if flags = UTH_EXT_BLK_JUSTICE then ext (PrintfMsg ''For great justice!'') s else s)
   }"

definition gq_pth_blockon_syscall :: "upthread_t \<Rightarrow> addr \<Rightarrow> gq \<Rightarrow> gq option" where
  "gq_pth_blockon_syscall t sysc s = do {
     s \<leftarrow> set_state t UPTH_BLK_SYSC s;
     q \<leftarrow> stailq_remove t (active_queue s);
     let s = s\<lparr>threads_active := threads_active s - 1, active_queue := q\<rparr>;
     Some (s\<lparr>u_data := (u_data s)(sysc := Some t)\<rparr>)
   }"

definition gq_upthread_sched_ops :: "(upthread_t \<Rightarrow> gq \<Rightarrow> gq option) \<Rightarrow> gq schedule_ops" where
  "gq_upthread_sched_ops ur =
     \<lparr>thread_runnable = gq_pth_thread_runnable,
      thread_paused = gq_pth_thread_paused ur,
      thread_blockon_syscall = gq_pth_blockon_syscall,
      thread_has_blocked = gq_pth_thread_has_blocked\<rparr>"

section \<open>Choosing a thread to run\<close>

text \<open>One pass of the loop of \<open>pth_sched_entry\<close> under \<open>queue_lock\<close>: the first ready
  thread moves to the active queue.\<close>

fun gq_take_ready :: "gq \<Rightarrow> upthread_t option \<times> gq" where
  "gq_take_ready s =
     (case stailq_pop (ready_queue s) of
        (None, _) \<Rightarrow> (None, s)
      | (Some t, q) \<Rightarrow>
          (Some t, s\<lparr>ready_queue := q, active_queue := active_queue s @ [t],
             threads_active := threads_active s + 1, threads_ready := threads_ready s - 1\<rparr>))"

declare gq_take_ready.simps [simp del]

text \<open>
  The loop. \<open>spin\<close> is \<open>spin_count\<close>, tested by \<open>!(spin_count--)\<close>; \<open>env k\<close> is what
  \<open>vcore_yield\<close>, \<open>handle_events\<close> and the other vcores do to the scheduler during pass
  \<open>k\<close>. The loop ends only with a thread to run; \<open>None\<close> is running out of fuel, or an overflow of
  \<open>spin_count\<close>.
\<close>

fun gq_sched_loop ::
  "(nat \<Rightarrow> gq \<Rightarrow> gq) \<Rightarrow> nat \<Rightarrow> nat \<Rightarrow> int \<Rightarrow> gq \<Rightarrow> (upthread_t \<times> gq) option" where
  "gq_sched_loop env 0 k spin s = None"
| "gq_sched_loop env (Suc fuel) k spin s =
     (case gq_take_ready s of
        (Some t, s) \<Rightarrow> Some (t, s)
      | (None, s) \<Rightarrow> do {
          (give_up, spin) \<leftarrow> spin_step (can_adjust_vcores s) spin;
          let s = (if give_up then ext VcoreYield s else s);
          gq_sched_loop env fuel (Suc k) spin (env k (ext HandleEvents s))
        })"

text \<open>\<open>pth_sched_entry\<close>, with the thread it ends up running.\<close>

definition gq_pth_sched_entry ::
  "(nat \<Rightarrow> gq \<Rightarrow> gq) \<Rightarrow> nat \<Rightarrow> upthread_t option \<Rightarrow> gq \<Rightarrow> (upthread_t \<times> gq) option" where
  "gq_pth_sched_entry env fuel current_uthread s =
     (case current_uthread of
        Some t \<Rightarrow> Some (t, ext RunCurrentUthread s)
      | None \<Rightarrow> do {
          (t, s) \<leftarrow> gq_sched_loop env fuel 0 (max_spin_count s) s;
          Some (t, ext (RunUthread t) s)
        })"

section \<open>System calls\<close>

definition gq_restart_thread :: "addr \<Rightarrow> gq \<Rightarrow> gq option" where
  "gq_restart_thread sysc s = do {
     t \<leftarrow> u_data s sysc;
     s \<leftarrow> tcb_upd t (\<lambda>p. p\<lparr>uth_sysc := None\<rparr>) s;
     gq_pth_thread_runnable t s
   }"

text \<open>The event message, if there is one, carries the address of the system call.\<close>

definition gq_pth_handle_syscall :: "addr option \<Rightarrow> gq \<Rightarrow> gq option" where
  "gq_pth_handle_syscall ev_msg s =
     (case ev_msg of None \<Rightarrow> Some s | Some sysc \<Rightarrow> gq_restart_thread sysc s)"

definition gq_upthread_can_vcore_request :: "bool \<Rightarrow> gq \<Rightarrow> gq" where
  "gq_upthread_can_vcore_request can s = s\<lparr>can_adjust_vcores := can\<rparr>"

definition gq_upthread_kill :: "upthread_t \<Rightarrow> int \<Rightarrow> gq \<Rightarrow> int \<times> gq" where
  "gq_upthread_kill threadid signo s = (-1, ext (PrintfMsg ''Not yet supported on parlib!'') s)"

definition gq_upthread_sigmask :: "int \<Rightarrow> gq \<Rightarrow> int \<times> gq" where
  "gq_upthread_sigmask how s = (-1, ext (PrintfMsg ''Not yet supported on parlib!'') s)"

end
