(* ===== verification/Gq_Threads.thy ===== *)
theory Gq_Threads
  imports Gq_Sched
begin

text \<open>
  The thread interface of \<^verbatim>\<open>src/gq/upthread.c\<close>: initialisation, creation, join, exit and
  yield. A call that leaves the thread is split where the code hands over to parlib: the front
  half ends in \<open>Yield_then\<close>, and the callback \<open>..._cb\<close> runs in vcore context.
\<close>

section \<open>Stacks\<close>

text \<open>\<open>mmap\<close> gives the start of the new mapping of that many bytes, or \<open>None\<close> for
  \<open>MAP_FAILED\<close>.\<close>

definition gq_allocate_stack ::
  "(64 word \<Rightarrow> addr option) \<Rightarrow> upthread_tcb \<Rightarrow> int \<times> upthread_tcb" where
  "gq_allocate_stack mmap pt =
     (case mmap (ucast (tcb_stacksize pt)) of
        None \<Rightarrow> (-1, pt)
      | Some stackbot \<Rightarrow> (0, pt\<lparr>tcb_stacktop := stackbot + ucast (tcb_stacksize pt)\<rparr>))"

definition gq_free_stack :: "upthread_tcb \<Rightarrow> gq \<Rightarrow> gq" where
  "gq_free_stack pt = ext (Munmap (tcb_stacktop pt - ucast (tcb_stacksize pt))
                                  (ucast (tcb_stacksize pt)))"

section \<open>Initialisation\<close>

text \<open>
  \<open>upthread_lib_init\<close> on the zeroed globals: \<open>spin_count_env\<close> is \<open>atoi\<close> of the
  environment variable, \<open>t\<close> the memory \<open>parlib_aligned_alloc\<close> returned, and the main
  stack is parlib's answer.
\<close>

definition gq_globals :: gq where
  "gq_globals =
     \<lparr>tcbs = Map.empty, u_data = (\<lambda>_. None), can_adjust_vcores = True, max_spin_count = 100,
      next_pid = 0, calls = [], ready_queue = [], active_queue = [], threads_ready = 0,
      threads_active = 0\<rparr>"

definition gq_upthread_lib_init ::
  "int option \<Rightarrow> upthread_t \<Rightarrow> addr \<Rightarrow> 64 word \<Rightarrow> gq \<Rightarrow> gq option" where
  "gq_upthread_lib_init spin_count_env t stackbottom stacksize s = do {
     let s = (case spin_count_env of None \<Rightarrow> s | Some n \<Rightarrow> s\<lparr>max_spin_count := n\<rparr>);
     let (pid, s) = get_next_pid s;
     let p = tcb_zero\<lparr>tcb_id := pid, tcb_stacktop := stackbottom + stacksize,
               tcb_stacksize := ucast stacksize, tcb_detached := True,
               tcb_state := UPTH_RUNNING, tcb_joiner := None\<rparr>;
     let s = s\<lparr>tcbs := (tcbs s)(t \<mapsto> p), threads_active := threads_active s + 1\<rparr>;
     q \<leftarrow> stailq_insert_tail (gq_links s) t (active_queue s);
     Some (s\<lparr>active_queue := q\<rparr>)
   }"

section \<open>Creation\<close>

text \<open>The new control block, with the attributes applied and a stack allocated; the first
  component is what \<open>gq_allocate_stack\<close> returned.\<close>

definition gq_create_tcb ::
  "(64 word \<Rightarrow> addr option) \<Rightarrow> 64 word \<Rightarrow> 32 word \<Rightarrow> upthread_attr_t option \<Rightarrow>
   int \<times> upthread_tcb" where
  "gq_create_tcb mmap pgsize pid attr =
     (let p = tcb_zero\<lparr>tcb_stacksize := ucast (UPTHREAD_STACK_SIZE pgsize),
                tcb_state := UPTH_CREATED, tcb_id := pid, tcb_detached := False,
                tcb_joiner := None\<rparr>;
          p = (case attr of
                 None \<Rightarrow> p
               | Some a \<Rightarrow>
                   (let p = (if attr_stacksize a \<noteq> 0
                             then p\<lparr>tcb_stacksize := ucast (attr_stacksize a)\<rparr> else p)
                    in if attr_detachstate a = UPTHREAD_CREATE_DETACHED
                       then p\<lparr>tcb_detached := True\<rparr> else p))
      in gq_allocate_stack mmap p)"

text \<open>\<open>t\<close> is the memory \<open>parlib_aligned_alloc\<close> returned.\<close>

definition gq_upthread_create ::
  "(upthread_t \<Rightarrow> gq \<Rightarrow> gq option) \<Rightarrow> (64 word \<Rightarrow> addr option) \<Rightarrow> 64 word \<Rightarrow>
   upthread_t \<Rightarrow> upthread_attr_t option \<Rightarrow> addr \<Rightarrow> addr \<Rightarrow> gq \<Rightarrow>
   (int \<times> upthread_t \<times> gq) option" where
  "gq_upthread_create ur mmap pgsize t attr start_routine arg s = do {
     let (pid, s) = get_next_pid s;
     let (ret, p) = gq_create_tcb mmap pgsize pid attr;
     let s = (if ret \<noteq> 0 then ext (PrintfMsg ''We're fucked'') s else s);
     let s = ext (InitUthreadTf t (tcb_stacktop p - ucast (tcb_stacksize p)) (tcb_stacksize p)) s;
     let p = p\<lparr>tcb_start_routine := start_routine, tcb_arg := arg\<rparr>;
     let s = ext (UthreadInit t) (s\<lparr>tcbs := (tcbs s)(t \<mapsto> p)\<rparr>);
     s \<leftarrow> ur t s;
     Some (0, t, s)
   }"

section \<open>Join\<close>

text \<open>The front half: \<open>-1\<close> for a detached target; otherwise either the target has exited
  already and the call goes on at \<open>gq_join_finish\<close>, or it yields to \<open>gq_pth_join_cb\<close>
  and goes on there once it runs again.\<close>

datatype join_start = Join_refused int | Join_block | Join_ready

definition gq_upthread_join :: "upthread_t \<Rightarrow> gq \<Rightarrow> (join_start \<times> gq) option" where
  "gq_upthread_join join_target s = do {
     p \<leftarrow> tcbs s join_target;
     Some (if tcb_detached p
           then (Join_refused (-1),
                 ext (PrintfMsg ''[upthread] trying to join on a detached upthread'') s)
           else if tcb_joiner p = None then (Join_block, s)
           else (Join_ready, s))
   }"

text \<open>The callback; \<open>atomic_swap_ptr\<close> returns the old joiner.\<close>

definition gq_pth_join_cb ::
  "(upthread_t \<Rightarrow> gq \<Rightarrow> gq option) \<Rightarrow> upthread_t \<Rightarrow> upthread_t \<Rightarrow> gq \<Rightarrow> gq option" where
  "gq_pth_join_cb ur t join_target s = do {
     s \<leftarrow> gq_generic_yield t s;
     s \<leftarrow> set_state t UPTH_BLK_JOINING s;
     p \<leftarrow> tcbs s join_target;
     s \<leftarrow> tcb_upd join_target (\<lambda>p. p\<lparr>tcb_joiner := Some t\<rparr>) s;
     (case tcb_joiner p of None \<Rightarrow> Some s | Some _ \<Rightarrow> ur t s)
   }"

text \<open>The rest of the call: the return value is read and the control block freed.\<close>

definition gq_join_finish :: "upthread_t \<Rightarrow> gq \<Rightarrow> (int \<times> addr \<times> gq) option" where
  "gq_join_finish join_target s = do {
     p \<leftarrow> tcbs s join_target;
     Some (0, tcb_retval p, s\<lparr>tcbs := (tcbs s)(join_target := None)\<rparr>)
   }"

section \<open>Exit\<close>

definition gq_upthread_exit :: "addr \<Rightarrow> upthread_t \<Rightarrow> gq \<Rightarrow> gq option" where
  "gq_upthread_exit ret t s = do {
     s \<leftarrow> tcb_upd t (\<lambda>p. p\<lparr>tcb_retval := ret\<rparr>) s;
     Some (ext DestroyDtls s)
   }"

text \<open>\<open>__upthread_run\<close>, where a new thread begins. \<open>call\<close> stands for the call of a function of the
  client: its result, and what it and the other threads have done to the scheduler when it returns.\<close>

definition gq_upthread_run ::
  "(addr \<Rightarrow> addr \<Rightarrow> gq \<Rightarrow> (addr \<times> gq) option) \<Rightarrow> upthread_t \<Rightarrow> gq \<Rightarrow> gq option" where
  "gq_upthread_run call me s = do {
     p \<leftarrow> tcbs s me;
     (ret, s) \<leftarrow> call (tcb_start_routine p) (tcb_arg p) s;
     gq_upthread_exit ret me s
   }"

definition gq_pth_exit_cb ::
  "(upthread_t \<Rightarrow> gq \<Rightarrow> gq option) \<Rightarrow> upthread_t \<Rightarrow> gq \<Rightarrow> gq option" where
  "gq_pth_exit_cb ur t s = do {
     s \<leftarrow> gq_generic_yield t s;
     s \<leftarrow> set_state t UPTH_EXITING s;
     let s = ext (UthreadCleanup t) s;
     p \<leftarrow> tcbs s t;
     let s = gq_free_stack p s;
     if tcb_detached p then Some (s\<lparr>tcbs := (tcbs s)(t := None)\<rparr>)
     else do {
       s \<leftarrow> tcb_upd t (\<lambda>p. p\<lparr>tcb_joiner := Some t\<rparr>) s;
       (case tcb_joiner p of None \<Rightarrow> Some s | Some joiner \<Rightarrow> ur joiner s)
     }
   }"

section \<open>Yield\<close>

definition gq_upthread_yield :: "gq \<Rightarrow> int outcome" where
  "gq_upthread_yield s = Yield_then 0"

definition gq_pth_yield_cb ::
  "(upthread_t \<Rightarrow> gq \<Rightarrow> gq option) \<Rightarrow> upthread_t \<Rightarrow> gq \<Rightarrow> gq option" where
  "gq_pth_yield_cb ur t s = do {
     s \<leftarrow> gq_generic_yield t s;
     s \<leftarrow> set_state t UPTH_BLK_YIELDING s;
     ur t s
   }"

definition gq_upthread_tid :: "upthread_t \<Rightarrow> gq \<Rightarrow> (32 word) option" where
  "gq_upthread_tid current_uthread s = map_option tcb_id (tcbs s current_uthread)"

end
