(* ===== verification/Join_State.thy ===== *)
theory Join_State
  imports Sched_Base
begin

text \<open>
  The joiner slot of a control block is where an exiting thread and the thread that joins it
  meet: it is null, then the joiner or, once the thread has exited, the thread itself. This
  theory states what every scheduler variant keeps true of the slots, in terms of three views of
  the control blocks, and how the invariant moves along with the views.
\<close>

section \<open>Views of the control blocks\<close>

definition joiner_of :: "'z sched_globals_scheme \<Rightarrow> upthread_t \<Rightarrow> upthread_t option" where
  "joiner_of s x = Option.bind (tcbs s x) tcb_joiner"

definition detached_threads :: "'z sched_globals_scheme \<Rightarrow> upthread_t set" where
  "detached_threads s = {x. \<exists>p. tcbs s x = Some p \<and> tcb_detached p}"

text \<open>
  The slot of a detached thread stays empty and that of an exited thread is filled. While a
  thread has not exited, the occupant of its slot is asleep in \<open>upthread_join\<close>, and it is in
  no other live slot. And nobody sleeps in \<open>upthread_join\<close> in vain: such a thread is in the
  slot of a thread that has not exited.
\<close>

definition join_ok :: "'z sched_globals_scheme \<Rightarrow> bool" where
  "join_ok s \<longleftrightarrow>
     (\<forall>x w. joiner_of s x = Some w \<longrightarrow> x \<notin> detached_threads s) \<and>
     (\<forall>x. state_of s x = Some UPTH_EXITING \<longrightarrow> joiner_of s x \<noteq> None) \<and>
     (\<forall>x w. joiner_of s x = Some w \<longrightarrow> state_of s x \<noteq> Some UPTH_EXITING \<longrightarrow>
        state_of s w = Some UPTH_BLK_JOINING) \<and>
     (\<forall>x y w. joiner_of s x = Some w \<longrightarrow> state_of s x \<noteq> Some UPTH_EXITING \<longrightarrow>
        joiner_of s y = Some w \<longrightarrow> state_of s y \<noteq> Some UPTH_EXITING \<longrightarrow> x = y) \<and>
     (\<forall>w. state_of s w = Some UPTH_BLK_JOINING \<longrightarrow>
        (\<exists>x. joiner_of s x = Some w \<and> state_of s x \<noteq> Some UPTH_EXITING))"

lemma join_okI:
  assumes "\<And>x w. joiner_of s x = Some w \<Longrightarrow> x \<notin> detached_threads s"
    and "\<And>x. state_of s x = Some UPTH_EXITING \<Longrightarrow> joiner_of s x \<noteq> None"
    and "\<And>x w. joiner_of s x = Some w \<Longrightarrow> state_of s x \<noteq> Some UPTH_EXITING \<Longrightarrow>
           state_of s w = Some UPTH_BLK_JOINING"
    and "\<And>x y w. joiner_of s x = Some w \<Longrightarrow> state_of s x \<noteq> Some UPTH_EXITING \<Longrightarrow>
           joiner_of s y = Some w \<Longrightarrow> state_of s y \<noteq> Some UPTH_EXITING \<Longrightarrow> x = y"
    and "\<And>w. state_of s w = Some UPTH_BLK_JOINING \<Longrightarrow>
           \<exists>x. joiner_of s x = Some w \<and> state_of s x \<noteq> Some UPTH_EXITING"
  shows "join_ok s"
  unfolding join_ok_def using assms by blast

lemma join_ok_detached: "join_ok s \<Longrightarrow> joiner_of s x = Some w \<Longrightarrow> x \<notin> detached_threads s"
  unfolding join_ok_def by blast

lemma join_ok_exited: "join_ok s \<Longrightarrow> state_of s x = Some UPTH_EXITING \<Longrightarrow> joiner_of s x \<noteq> None"
  unfolding join_ok_def by blast

lemma join_ok_live:
  "join_ok s \<Longrightarrow> joiner_of s x = Some w \<Longrightarrow> state_of s x \<noteq> Some UPTH_EXITING \<Longrightarrow>
   state_of s w = Some UPTH_BLK_JOINING"
  unfolding join_ok_def by blast

lemma join_ok_inj:
  "join_ok s \<Longrightarrow> joiner_of s x = Some w \<Longrightarrow> state_of s x \<noteq> Some UPTH_EXITING \<Longrightarrow>
   joiner_of s y = Some w \<Longrightarrow> state_of s y \<noteq> Some UPTH_EXITING \<Longrightarrow> x = y"
  unfolding join_ok_def by blast

lemma join_ok_waits:
  "join_ok s \<Longrightarrow> state_of s w = Some UPTH_BLK_JOINING \<Longrightarrow>
   \<exists>x. joiner_of s x = Some w \<and> state_of s x \<noteq> Some UPTH_EXITING"
  unfolding join_ok_def by blast

section \<open>How the views change\<close>

text \<open>States that have nothing to do with joining.\<close>

fun join_neutral :: "upth_state \<Rightarrow> bool" where
  "join_neutral UPTH_EXITING = False"
| "join_neutral UPTH_BLK_JOINING = False"
| "join_neutral _ = True"

lemma join_neutral_neq:
  "join_neutral st \<Longrightarrow> st \<noteq> UPTH_EXITING \<and> st \<noteq> UPTH_BLK_JOINING"
  by (cases st) simp_all

lemma schedulable_neutral: "schedulable st \<Longrightarrow> join_neutral st"
  by (cases st) simp_all

lemma state_of_upd:
  "tcbs s' = (tcbs s)(t \<mapsto> p) \<Longrightarrow>
   state_of s' = (state_of s)(t \<mapsto> tcb_state p)"
  by (auto simp: state_of_def fun_eq_iff)

lemma joiner_of_upd:
  "tcbs s' = (tcbs s)(t \<mapsto> p) \<Longrightarrow> joiner_of s' = (joiner_of s)(t := tcb_joiner p)"
  by (auto simp: joiner_of_def fun_eq_iff)

lemma detached_threads_upd:
  "tcbs s' = (tcbs s)(t \<mapsto> p) \<Longrightarrow>
   detached_threads s' = (if tcb_detached p then insert t (detached_threads s)
                          else detached_threads s - {t})"
  by (auto simp: detached_threads_def)

lemma views_free:
  assumes "tcbs s' = (tcbs s)(t := None)"
  shows "state_of s' = (state_of s)(t := None)" and "joiner_of s' = (joiner_of s)(t := None)"
    and "detached_threads s' = detached_threads s - {t}"
  using assms by (auto simp: state_of_def joiner_of_def detached_threads_def fun_eq_iff)

lemma views_ext [simp]:
  "state_of (ext c s) = state_of s" "joiner_of (ext c s) = joiner_of s"
  "detached_threads (ext c s) = detached_threads s" "blocked_threads (ext c s) = blocked_threads s"
  by (auto simp: state_of_def joiner_of_def detached_threads_def blocked_threads_def fun_eq_iff)

lemma join_ok_cong:
  assumes "tcbs s' = tcbs s"
  shows "join_ok s' = join_ok s"
proof -
  have "joiner_of s' = joiner_of s" "state_of s' = state_of s"
      "detached_threads s' = detached_threads s"
    using assms by (simp_all add: joiner_of_def state_of_def detached_threads_def fun_eq_iff)
  then show ?thesis by (simp add: join_ok_def)
qed

text \<open>A thread moves between states that have nothing to do with joining.\<close>

lemma join_ok_neutral_upd:
  assumes "join_ok s" and "tcbs s t = Some p" and "tcbs s' = (tcbs s)(t \<mapsto> q)"
    and "tcb_joiner q = tcb_joiner p" and "tcb_detached q = tcb_detached p"
    and "join_neutral (tcb_state p)" and "join_neutral (tcb_state q)"
  shows "join_ok s'"
proof -
  have j: "joiner_of s' = joiner_of s"
    using assms(2-4) by (auto simp: joiner_of_def fun_eq_iff)
  have d: "detached_threads s' = detached_threads s"
    using assms(2,3,5) by (auto simp: detached_threads_def)
  have "(state_of s' x = Some UPTH_EXITING) = (state_of s x = Some UPTH_EXITING)"
    and "(state_of s' x = Some UPTH_BLK_JOINING) = (state_of s x = Some UPTH_BLK_JOINING)" for x
    using assms(2,3) join_neutral_neq [OF assms(6)] join_neutral_neq [OF assms(7)]
    by (auto simp: state_of_def)
  with assms(1) j d show ?thesis by (simp add: join_ok_def)
qed

text \<open>A thread that nobody waits for is detached.\<close>

lemma join_ok_detach:
  assumes ok: "join_ok s" and t: "tcbs s t = Some p" and upd: "tcbs s' = (tcbs s)(t \<mapsto> q)"
    and same: "tcb_joiner q = tcb_joiner p" "tcb_state q = tcb_state p" and slot: "tcb_joiner p = None"
  shows "join_ok s'"
proof -
  have j: "joiner_of s' = joiner_of s" and st: "state_of s' = state_of s"
    using t upd same by (auto simp: joiner_of_def state_of_def fun_eq_iff)
  have "joiner_of s t = None" using t slot by (simp add: joiner_of_def)
  then have "x \<notin> detached_threads s'" if "joiner_of s x = Some w" for x w
    using that join_ok_detached [OF ok that] upd by (auto simp: detached_threads_def)
  with ok show ?thesis by (simp add: join_ok_def j st)
qed

text \<open>A new, unreferenced control block with an empty slot.\<close>

lemma join_ok_new:
  assumes "join_ok s" and "tcbs s t = None" and "tcbs s' = (tcbs s)(t \<mapsto> q)"
    and "tcb_joiner q = None" and "join_neutral (tcb_state q)"
  shows "join_ok s'"
proof -
  have j: "joiner_of s' = joiner_of s"
    using assms(2-4) by (auto simp: joiner_of_def fun_eq_iff)
  have "joiner_of s t = None" using assms(2) by (simp add: joiner_of_def)
  then have "x \<notin> detached_threads s'" if "joiner_of s x = Some w" for x w
    using that join_ok_detached [OF assms(1) that] assms(3) by (auto simp: detached_threads_def)
  moreover have "(state_of s' x = Some UPTH_EXITING) = (state_of s x = Some UPTH_EXITING)"
    and "(state_of s' x = Some UPTH_BLK_JOINING) = (state_of s x = Some UPTH_BLK_JOINING)" for x
    using assms(2,3) join_neutral_neq [OF assms(5)] by (auto simp: state_of_def)
  ultimately show ?thesis using assms(1) unfolding join_ok_def by (simp add: j)
qed

text \<open>A control block is freed whose thread nobody waits for, and that waits for nobody.\<close>

lemma join_ok_free:
  assumes ok: "join_ok s" and free: "tcbs s' = (tcbs s)(t := None)"
    and t: "state_of s t \<noteq> Some UPTH_BLK_JOINING"
    and own: "joiner_of s t = None \<or> state_of s t = Some UPTH_EXITING"
  shows "join_ok s'"
proof (rule join_okI, unfold views_free [OF free], goal_cases)
  case (1 x w)
  then show ?case using join_ok_detached [OF ok, of x w] by (auto split: if_splits)
next
  case (2 x)
  then show ?case using join_ok_exited [OF ok, of x] by (auto split: if_splits)
next
  case (3 x w)
  then have "state_of s w = Some UPTH_BLK_JOINING"
    using join_ok_live [OF ok, of x w] by (auto split: if_splits)
  with t show ?case by auto
next
  case (4 x y w)
  then show ?case using join_ok_inj [OF ok, of x w y] by (auto split: if_splits)
next
  case (5 w)
  then have "state_of s w = Some UPTH_BLK_JOINING" by (auto split: if_splits)
  then obtain x where "joiner_of s x = Some w" "state_of s x \<noteq> Some UPTH_EXITING"
    using join_ok_waits [OF ok] by blast
  moreover from this own have "x \<noteq> t" by auto
  ultimately show ?case by (intro exI [of _ x]) simp
qed

section \<open>The two ends of a join\<close>

text \<open>The joiner got there first: it sleeps, in the slot of a thread that has not exited.\<close>

lemma join_ok_sleep:
  assumes ok: "join_ok s" and "t \<noteq> x" and t: "tcbs s t = Some p" and x: "tcbs s x = Some q"
    and "join_neutral (tcb_state p)" and slot: "tcb_joiner q = None" and "\<not> tcb_detached q"
    and upd: "tcbs s' = (tcbs s)(t \<mapsto> p\<lparr>tcb_state := UPTH_BLK_JOINING\<rparr>,
                                 x \<mapsto> q\<lparr>tcb_joiner := Some t\<rparr>)"
  shows "join_ok s'"
proof -
  have j: "joiner_of s' = (joiner_of s)(x \<mapsto> t)"
    and st: "state_of s' = (state_of s)(t \<mapsto> UPTH_BLK_JOINING)"
    and d: "detached_threads s' = detached_threads s"
    using \<open>t \<noteq> x\<close> t x upd
    by (auto simp: joiner_of_def state_of_def detached_threads_def fun_eq_iff)
  have t_neutral: "state_of s t \<noteq> Some UPTH_EXITING" "state_of s t \<noteq> Some UPTH_BLK_JOINING"
    using t join_neutral_neq [OF assms(5)] by (simp_all add: state_of_def)
  have unnamed: "joiner_of s y = Some t \<Longrightarrow> state_of s y = Some UPTH_EXITING" for y
    using t_neutral join_ok_live [OF ok, of y t] by blast
  have jx: "joiner_of s x = None" using x slot by (simp add: joiner_of_def)
  have nd: "x \<notin> detached_threads s" using x assms(7) by (simp add: detached_threads_def)
  have x_live: "state_of s x \<noteq> Some UPTH_EXITING" using jx join_ok_exited [OF ok, of x] by auto
  show ?thesis
  proof (rule join_okI, unfold j st d, goal_cases)
    case (1 y w)
    then show ?case using nd join_ok_detached [OF ok, of y w] by (auto split: if_splits)
  next
    case (2 y)
    then show ?case using join_ok_exited [OF ok, of y] by (auto split: if_splits)
  next
    case (3 y w)
    then show ?case using join_ok_live [OF ok, of y w] t_neutral by (auto split: if_splits)
  next
    case (4 y z w)
    have "state_of s y \<noteq> Some UPTH_EXITING" "state_of s z \<noteq> Some UPTH_EXITING"
      using 4(2,4) t_neutral(1) by (auto split: if_splits)
    then have live: "joiner_of s y \<noteq> Some t" "joiner_of s z \<noteq> Some t"
        "joiner_of s y = Some w \<Longrightarrow> joiner_of s z = Some w \<Longrightarrow> y = z"
      using unnamed join_ok_inj [OF ok] by blast+
    show ?case using 4(1,3) live by (cases "y = x"; cases "z = x") auto
  next
    case (5 w)
    show ?case
    proof (cases "w = t")
      case True
      then show ?thesis using x_live \<open>t \<noteq> x\<close> by (intro exI [of _ x]) simp
    next
      case False
      with 5 obtain y where "joiner_of s y = Some w" "state_of s y \<noteq> Some UPTH_EXITING"
        using join_ok_waits [OF ok, of w] by auto
      with jx show ?thesis by (intro exI [of _ y]) auto
    qed
  qed
qed

text \<open>The joiner came late: it leaves its address in the slot of a thread that has exited, and
  does not sleep.\<close>

lemma join_ok_late:
  assumes ok: "join_ok s" and "t \<noteq> x" and t: "tcbs s t = Some p" and x: "tcbs s x = Some q"
    and "join_neutral (tcb_state p)" and "join_neutral st'" and "tcb_state q = UPTH_EXITING"
    and upd: "tcbs s' = (tcbs s)(t \<mapsto> p\<lparr>tcb_state := st'\<rparr>, x \<mapsto> q\<lparr>tcb_joiner := Some t\<rparr>)"
  shows "join_ok s'"
proof -
  have j: "joiner_of s' = (joiner_of s)(x \<mapsto> t)" and d: "detached_threads s' = detached_threads s"
    using \<open>t \<noteq> x\<close> t x upd
    by (auto simp: joiner_of_def detached_threads_def fun_eq_iff)
  have st: "(state_of s' y = Some UPTH_EXITING) = (state_of s y = Some UPTH_EXITING)"
      "(state_of s' y = Some UPTH_BLK_JOINING) = (state_of s y = Some UPTH_BLK_JOINING)" for y
    using \<open>t \<noteq> x\<close> t x upd join_neutral_neq [OF assms(5)] join_neutral_neq [OF assms(6)]
    by (auto simp: state_of_def)
  have x_ex: "state_of s x = Some UPTH_EXITING" using x assms(7) by (simp add: state_of_def)
  then obtain w0 where "joiner_of s x = Some w0" using join_ok_exited [OF ok] by blast
  then have nd: "x \<notin> detached_threads s" by (rule join_ok_detached [OF ok])
  show ?thesis
  proof (rule join_okI, unfold st j d, goal_cases)
    case (1 y w)
    then show ?case using nd join_ok_detached [OF ok, of y w] by (auto split: if_splits)
  next
    case (2 y)
    then show ?case using join_ok_exited [OF ok, of y] by auto
  next
    case (3 y w)
    then show ?case using x_ex join_ok_live [OF ok, of y w] by (auto split: if_splits)
  next
    case (4 y z w)
    then show ?case using x_ex join_ok_inj [OF ok, of y w z] by (auto split: if_splits)
  next
    case (5 w)
    then obtain y where "joiner_of s y = Some w" "state_of s y \<noteq> Some UPTH_EXITING"
      using join_ok_waits [OF ok] by blast
    with x_ex show ?case by (intro exI [of _ y]) auto
  qed
qed

text \<open>The thread exits and puts itself into its slot; a joiner it finds there is woken, that is,
  moves to a state that has nothing to do with joining.\<close>

lemma join_ok_exit:
  assumes ok: "join_ok s" and t: "tcbs s t = Some p" and "join_neutral (tcb_state p)"
    and "\<not> tcb_detached p"
    and upd: "\<And>y. state_of s' y = (if y = t then Some UPTH_EXITING
                    else if joiner_of s t = Some y then Some UPTH_RUNNABLE else state_of s y)"
    and j: "joiner_of s' = (joiner_of s)(t \<mapsto> t)" and d: "detached_threads s' = detached_threads s"
  shows "join_ok s'"
proof -
  have t_neutral: "state_of s t \<noteq> Some UPTH_EXITING" "state_of s t \<noteq> Some UPTH_BLK_JOINING"
    using t join_neutral_neq [OF assms(3)] by (simp_all add: state_of_def)
  have nd: "t \<notin> detached_threads s" using t assms(4) by (simp add: detached_threads_def)
  have live: "y \<noteq> t \<and> state_of s y \<noteq> Some UPTH_EXITING"
    if "state_of s' y \<noteq> Some UPTH_EXITING" for y
    using that t_neutral join_ok_live [OF ok, of t y] by (auto simp: upd split: if_splits)
  show ?thesis
  proof (rule join_okI, unfold j d, goal_cases)
    case (1 y w)
    then show ?case using nd join_ok_detached [OF ok, of y w] by (auto split: if_splits)
  next
    case (2 y)
    then show ?case using join_ok_exited [OF ok, of y] by (auto simp: upd split: if_splits)
  next
    case (3 y w)
    from live [OF 3(2)] 3(1) have y: "y \<noteq> t" "joiner_of s y = Some w"
        "state_of s y \<noteq> Some UPTH_EXITING" by auto
    then have "state_of s w = Some UPTH_BLK_JOINING" by (auto intro: join_ok_live [OF ok])
    moreover have "joiner_of s t \<noteq> Some w"
      using join_ok_inj [OF ok y(2,3), of t] t_neutral y(1) by blast
    ultimately show ?case using t_neutral by (auto simp: upd)
  next
    case (4 y z w)
    then show ?case using live [of y] live [of z] join_ok_inj [OF ok, of y w z] by auto
  next
    case (5 w)
    then have w: "joiner_of s t \<noteq> Some w" "w \<noteq> t" "state_of s w = Some UPTH_BLK_JOINING"
      by (auto simp: upd split: if_splits)
    then obtain y where y: "joiner_of s y = Some w" "state_of s y \<noteq> Some UPTH_EXITING"
      using join_ok_waits [OF ok] by blast
    with w have "y \<noteq> t" by blast
    moreover have "state_of s' y \<noteq> Some UPTH_EXITING" using y \<open>y \<noteq> t\<close> by (auto simp: upd)
    ultimately show ?case using y by (intro exI [of _ y]) simp
  qed
qed

section \<open>Threads that sleep for a primitive\<close>

lemma blocked_threads_upd:
  assumes "tcbs s' = (tcbs s)(t \<mapsto> q)" and "tcb_state q \<noteq> UPTH_BLK_MUTEX"
    and "state_of s t \<noteq> Some UPTH_BLK_MUTEX"
  shows "blocked_threads s' = blocked_threads s"
  using assms by (auto simp: blocked_threads_def state_of_def)

lemma blocked_threads_cong: "tcbs s' = tcbs s \<Longrightarrow> blocked_threads s' = blocked_threads s"
  by (simp add: blocked_threads_def state_of_def)

text \<open>A step that takes one thread from a neutral state to a neutral state.\<close>

lemma neutral_step:
  assumes "join_ok s" and "tcbs s t = Some p" and "tcbs s' = (tcbs s)(t \<mapsto> q)"
    and "tcb_joiner q = tcb_joiner p" and "tcb_detached q = tcb_detached p"
    and "join_neutral (tcb_state p)" and "join_neutral (tcb_state q)"
    and "tcb_state p \<noteq> UPTH_BLK_MUTEX" and "tcb_state q \<noteq> UPTH_BLK_MUTEX"
  shows "join_ok s' \<and> blocked_threads s' = blocked_threads s"
proof
  show "join_ok s'" by (rule join_ok_neutral_upd [OF assms(1-7)])
  show "blocked_threads s' = blocked_threads s"
    by (rule blocked_threads_upd [OF assms(3,9)]) (use assms(2,8) in \<open>simp add: state_of_def\<close>)
qed

end
