(* ===== verification/Gq_Inv.thy ===== *)
theory Gq_Inv
  imports Gq_Threads Runtime Join_State
begin

text \<open>
  The invariant of the global-queue scheduler, that every operation keeps it, and that the
  scheduler meets the contract of \<open>two_level_scheduler\<close>.
\<close>

section \<open>The invariant\<close>

text \<open>
  No thread is queued twice, the counters count, a queued thread is allocated and in a state
  that fits its queue, and no other thread claims to be runnable or running.
\<close>

definition gq_inv :: "gq \<Rightarrow> bool" where
  "gq_inv s \<longleftrightarrow>
     distinct (ready_queue s @ active_queue s) \<and>
     threads_ready s = int (length (ready_queue s)) \<and>
     threads_active s = int (length (active_queue s)) \<and>
     (\<forall>t. t \<in> set (ready_queue s) \<longrightarrow> state_of s t = Some UPTH_RUNNABLE) \<and>
     (\<forall>t. (t \<in> gq_links s) = (\<exists>st. state_of s t = Some st \<and> schedulable st))"

lemma gq_invD:
  assumes "gq_inv s"
  shows "distinct (ready_queue s)" and "distinct (active_queue s)"
    and "set (ready_queue s) \<inter> set (active_queue s) = {}"
    and "threads_ready s = int (length (ready_queue s))"
    and "threads_active s = int (length (active_queue s))"
  using assms by (auto simp: gq_inv_def)

lemma gq_inv_links_iff:
  "gq_inv s \<Longrightarrow> t \<in> gq_links s \<longleftrightarrow> (\<exists>p. tcbs s t = Some p \<and> schedulable (tcb_state p))"
  unfolding gq_inv_def state_of_def by auto

lemma gq_inv_unlinked:
  "gq_inv s \<Longrightarrow> tcbs s t = Some p \<Longrightarrow> wakeable (tcb_state p) \<Longrightarrow> t \<notin> gq_links s"
  using gq_inv_links_iff schedulable_not_wakeable by fastforce

lemma gq_inv_blocked_unlinked: "gq_inv s \<Longrightarrow> t \<in> blocked_threads s \<Longrightarrow> t \<notin> gq_links s"
  by (auto simp: blocked_threads_def state_of_def dest: gq_inv_unlinked)

lemma gq_inv_cong:
  assumes "ready_queue s' = ready_queue s" "active_queue s' = active_queue s"
    "threads_ready s' = threads_ready s" "threads_active s' = threads_active s"
    "\<And>t. state_of s' t = state_of s t"
  shows "gq_inv s' = gq_inv s"
  using assms by (simp add: gq_inv_def gq_links_def)

section \<open>Making a thread runnable\<close>

lemma gq_runnable_eq:
  assumes "tcbs s t = Some p" and "wakeable (tcb_state p)" and "t \<notin> gq_links s"
  shows "\<exists>s'. gq_pth_thread_runnable t s = Some s' \<and>
           ready_queue s' = ready_queue s @ [t] \<and> active_queue s' = active_queue s \<and>
           threads_ready s' = threads_ready s + 1 \<and> threads_active s' = threads_active s \<and>
           tcbs s' = (tcbs s)(t \<mapsto> p\<lparr>tcb_state := UPTH_RUNNABLE\<rparr>) \<and> u_data s' = u_data s"
  using assms by (simp add: gq_pth_thread_runnable_def gq_links_def Let_def)

lemma gq_runnable_inv:
  assumes "gq_inv s" and "tcbs s t = Some p" and "wakeable (tcb_state p)"
  shows "\<exists>s'. gq_pth_thread_runnable t s = Some s' \<and> gq_inv s' \<and>
           ready_queue s' = ready_queue s @ [t] \<and> active_queue s' = active_queue s \<and>
           tcbs s' = (tcbs s)(t \<mapsto> p\<lparr>tcb_state := UPTH_RUNNABLE\<rparr>) \<and> u_data s' = u_data s"
proof -
  have "t \<notin> gq_links s" using assms by (rule gq_inv_unlinked)
  from gq_runnable_eq [OF assms(2,3) this] \<open>t \<notin> gq_links s\<close> show ?thesis
    using assms(1) by (auto simp: gq_inv_def gq_links_def state_of_def)
qed

section \<open>Stopping a thread\<close>

lemma gq_stop_inv:
  assumes "gq_inv s" and "t \<in> set (active_queue s)" and "\<not> schedulable st"
  shows "\<exists>p s1 s2. tcbs s t = Some p \<and> schedulable (tcb_state p) \<and>
           gq_generic_yield t s = Some s1 \<and> set_state t st s1 = Some s2 \<and> gq_inv s2 \<and>
           ready_queue s2 = ready_queue s \<and> active_queue s2 = remove1 t (active_queue s) \<and>
           tcbs s2 = (tcbs s)(t \<mapsto> p\<lparr>tcb_state := st\<rparr>) \<and> u_data s2 = u_data s"
proof -
  from assms(1,2) obtain p where p: "tcbs s t = Some p" "schedulable (tcb_state p)"
    using gq_inv_links_iff [OF assms(1), of t] by (auto simp: gq_links_def)
  moreover have "int (length (remove1 t (active_queue s))) = int (length (active_queue s)) - 1"
    using assms(2) by (rule length_remove1_int)
  ultimately show ?thesis using assms
    by (auto simp: gq_generic_yield_def gq_inv_def gq_links_def state_of_def)
qed

lemma gq_stop_stateE:
  assumes "gq_inv s" and "t \<in> set (active_queue s)" and "\<not> schedulable st"
  obtains p s1 s2 where "tcbs s t = Some p" and "schedulable (tcb_state p)"
    and "gq_generic_yield t s = Some s1" and "set_state t st s1 = Some s2" and "gq_inv s2"
    and "ready_queue s2 = ready_queue s" and "active_queue s2 = remove1 t (active_queue s)"
    and "tcbs s2 = (tcbs s)(t \<mapsto> p\<lparr>tcb_state := st\<rparr>)" and "u_data s2 = u_data s"
  using gq_stop_inv [OF assms] by blast

text \<open>A callback that stops the thread in some wakeable state and makes it runnable at once.\<close>

lemma gq_stop_and_go:
  assumes "gq_inv s" and "t \<in> set (active_queue s)" and "wakeable st"
  shows "\<exists>p s'. tcbs s t = Some p \<and> schedulable (tcb_state p) \<and>
           Option.bind (gq_generic_yield t s)
             (\<lambda>s. Option.bind (set_state t st s) (gq_pth_thread_runnable t)) = Some s' \<and>
           gq_inv s' \<and> ready_queue s' = ready_queue s @ [t] \<and>
           active_queue s' = remove1 t (active_queue s) \<and>
           tcbs s' = (tcbs s)(t \<mapsto> p\<lparr>tcb_state := UPTH_RUNNABLE\<rparr>) \<and> u_data s' = u_data s"
proof -
  have "\<not> schedulable st" using assms(3) schedulable_not_wakeable by blast
  from gq_stop_stateE [OF assms(1,2) this] obtain p s1 s2 where st:
    "tcbs s t = Some p" "schedulable (tcb_state p)" "gq_generic_yield t s = Some s1"
    "set_state t st s1 = Some s2" "gq_inv s2" "ready_queue s2 = ready_queue s"
    "active_queue s2 = remove1 t (active_queue s)"
    "tcbs s2 = (tcbs s)(t \<mapsto> p\<lparr>tcb_state := st\<rparr>)" "u_data s2 = u_data s" .
  then have "tcbs s2 t = Some (p\<lparr>tcb_state := st\<rparr>)" "wakeable (tcb_state (p\<lparr>tcb_state := st\<rparr>))"
    using assms(3) by simp_all
  from gq_runnable_inv [OF st(5) this] st show ?thesis by fastforce
qed

lemma gq_paused_inv:
  assumes "gq_inv s" and "t \<in> set (active_queue s)"
  shows "\<exists>p s'. tcbs s t = Some p \<and> schedulable (tcb_state p) \<and>
           gq_pth_thread_paused gq_pth_thread_runnable t s = Some s' \<and> gq_inv s' \<and>
           ready_queue s' = ready_queue s @ [t] \<and> active_queue s' = remove1 t (active_queue s) \<and>
           tcbs s' = (tcbs s)(t \<mapsto> p\<lparr>tcb_state := UPTH_RUNNABLE\<rparr>) \<and> u_data s' = u_data s"
  unfolding gq_pth_thread_paused_def by (rule gq_stop_and_go [OF assms]) simp

lemma gq_yield_inv:
  assumes "gq_inv s" and "t \<in> set (active_queue s)"
  shows "\<exists>p s'. tcbs s t = Some p \<and> schedulable (tcb_state p) \<and>
           gq_pth_yield_cb gq_pth_thread_runnable t s = Some s' \<and> gq_inv s' \<and>
           ready_queue s' = ready_queue s @ [t] \<and> active_queue s' = remove1 t (active_queue s) \<and>
           tcbs s' = (tcbs s)(t \<mapsto> p\<lparr>tcb_state := UPTH_RUNNABLE\<rparr>) \<and> u_data s' = u_data s"
  unfolding gq_pth_yield_cb_def by (rule gq_stop_and_go [OF assms]) simp

lemma gq_has_blocked_inv:
  assumes "gq_inv s" and "t \<in> set (active_queue s)"
  shows "\<exists>p s'. tcbs s t = Some p \<and> schedulable (tcb_state p) \<and>
           gq_pth_thread_has_blocked t f s = Some s' \<and> gq_inv s' \<and>
           ready_queue s' = ready_queue s \<and> active_queue s' = remove1 t (active_queue s) \<and>
           tcbs s' = (tcbs s)(t \<mapsto> p\<lparr>tcb_state := UPTH_BLK_MUTEX\<rparr>) \<and> u_data s' = u_data s"
proof -
  have "\<not> schedulable UPTH_BLK_MUTEX" by simp
  from gq_stop_stateE [OF assms this] obtain p s1 s2 where st:
    "tcbs s t = Some p" "schedulable (tcb_state p)" "gq_generic_yield t s = Some s1"
    "set_state t UPTH_BLK_MUTEX s1 = Some s2" "gq_inv s2" "ready_queue s2 = ready_queue s"
    "active_queue s2 = remove1 t (active_queue s)"
    "tcbs s2 = (tcbs s)(t \<mapsto> p\<lparr>tcb_state := UPTH_BLK_MUTEX\<rparr>)" "u_data s2 = u_data s" .
  moreover have "gq_inv (ext c s2)" for c
    using st(5) gq_inv_cong [of "ext c s2" s2] by simp
  ultimately show ?thesis by (simp add: gq_pth_thread_has_blocked_def)
qed

lemma gq_blockon_syscall_inv:
  assumes "gq_inv s" and "t \<in> set (active_queue s)"
  shows "\<exists>p s'. tcbs s t = Some p \<and> schedulable (tcb_state p) \<and>
           gq_pth_blockon_syscall t sysc s = Some s' \<and> gq_inv s' \<and>
           ready_queue s' = ready_queue s \<and> active_queue s' = remove1 t (active_queue s) \<and>
           tcbs s' = (tcbs s)(t \<mapsto> p\<lparr>tcb_state := UPTH_BLK_SYSC\<rparr>) \<and>
           u_data s' = (u_data s)(sysc := Some t)"
proof -
  have "\<not> schedulable UPTH_BLK_SYSC" by simp
  from gq_stop_stateE [OF assms this] obtain p s1 s2 where st:
    "tcbs s t = Some p" "schedulable (tcb_state p)" "gq_generic_yield t s = Some s1"
    "set_state t UPTH_BLK_SYSC s1 = Some s2" "gq_inv s2" .
  then have "gq_pth_blockon_syscall t sysc s = Some (s2\<lparr>u_data := (u_data s)(sysc := Some t)\<rparr>)"
    using assms(2) by (auto simp: gq_pth_blockon_syscall_def gq_generic_yield_def)
  moreover have "gq_inv (s2\<lparr>u_data := (u_data s)(sysc := Some t)\<rparr>)"
    using st(5) gq_inv_cong [of "s2\<lparr>u_data := (u_data s)(sysc := Some t)\<rparr>" s2]
    by (simp add: state_of_def)
  ultimately show ?thesis using st assms(2) by (auto simp: gq_generic_yield_def)
qed

section \<open>Dispatching\<close>

lemma gq_take_ready_Some:
  "gq_take_ready s = (Some t, s') \<longleftrightarrow>
     (\<exists>q. ready_queue s = t # q \<and>
          s' = s\<lparr>ready_queue := q, active_queue := active_queue s @ [t],
                 threads_active := threads_active s + 1, threads_ready := threads_ready s - 1\<rparr>)"
  by (cases "ready_queue s") (auto simp: gq_take_ready.simps)

lemma gq_take_ready_None: "gq_take_ready s = (None, s') \<longleftrightarrow> ready_queue s = [] \<and> s' = s"
  by (cases "ready_queue s") (auto simp: gq_take_ready.simps)

lemma gq_take_ready_inv:
  assumes "gq_inv s" and "gq_take_ready s = (Some t, s')"
  shows "gq_inv s'" and "ready_queue s = t # ready_queue s'"
    and "active_queue s' = active_queue s @ [t]" and "tcbs s' = tcbs s" and "u_data s' = u_data s"
proof -
  from assms(2) obtain q where q: "ready_queue s = t # q"
    and s': "s' = s\<lparr>ready_queue := q, active_queue := active_queue s @ [t],
              threads_active := threads_active s + 1, threads_ready := threads_ready s - 1\<rparr>"
    by (auto simp: gq_take_ready_Some)
  then have "gq_links s' = gq_links s" "state_of s' = state_of s"
    by (auto simp: gq_links_def state_of_def fun_eq_iff)
  with assms(1) q s' show "gq_inv s'" by (auto simp: gq_inv_def)
  show "ready_queue s = t # ready_queue s'" "active_queue s' = active_queue s @ [t]"
    "tcbs s' = tcbs s" "u_data s' = u_data s"
    using q s' by simp_all
qed

section \<open>System calls\<close>

lemma gq_handle_syscall_inv:
  assumes "gq_inv s" and "u_data s sysc = Some t" and "tcbs s t = Some p"
    and "tcb_state p = UPTH_BLK_SYSC"
  shows "\<exists>s'. gq_pth_handle_syscall (Some sysc) s = Some s' \<and> gq_inv s' \<and>
           ready_queue s' = ready_queue s @ [t] \<and> active_queue s' = active_queue s \<and>
           tcbs s' = (tcbs s)(t \<mapsto> p\<lparr>uth_sysc := None, tcb_state := UPTH_RUNNABLE\<rparr>) \<and>
           u_data s' = u_data s"
proof -
  let ?s = "s\<lparr>tcbs := (tcbs s)(t \<mapsto> p\<lparr>uth_sysc := None\<rparr>)\<rparr>"
  have "gq_inv ?s"
    using assms(1,3) gq_inv_cong [of ?s s] by (simp add: state_of_def)
  moreover have "tcbs ?s t = Some (p\<lparr>uth_sysc := None\<rparr>)"
      "wakeable (tcb_state (p\<lparr>uth_sysc := None\<rparr>))"
    using assms(4) by simp_all
  ultimately show ?thesis using assms(2,3) gq_runnable_inv [of ?s t "p\<lparr>uth_sysc := None\<rparr>"]
    by (auto simp: gq_pth_handle_syscall_def gq_restart_thread_def)
qed

section \<open>Creation\<close>

lemma gq_inv_new:
  assumes "gq_inv s" and "tcbs s t = None" and "\<not> schedulable (tcb_state p)"
    and "tcbs s' = (tcbs s)(t \<mapsto> p)" and "ready_queue s' = ready_queue s"
    and "active_queue s' = active_queue s" and "threads_ready s' = threads_ready s"
    and "threads_active s' = threads_active s"
  shows "gq_inv s'"
  using assms gq_inv_links_iff [OF assms(1), of t]
  by (auto simp: gq_inv_def gq_links_def state_of_upd [OF assms(4)] state_of_def)

lemma gq_create_tcb_simps [simp]:
  "tcb_state (snd (gq_create_tcb mmap pgsize pid attr)) = UPTH_CREATED"
  "tcb_joiner (snd (gq_create_tcb mmap pgsize pid attr)) = None"
  "tcb_id (snd (gq_create_tcb mmap pgsize pid attr)) = pid"
  by (auto simp: gq_create_tcb_def gq_allocate_stack_def Let_def tcb_zero_def split: option.splits)

lemma gq_create_inv:
  assumes "gq_inv s" and "tcbs s t = None"
  shows "\<exists>s'. gq_upthread_create gq_pth_thread_runnable mmap pgsize t attr start arg s =
             Some (0, t, s') \<and> gq_inv s' \<and>
           ready_queue s' = ready_queue s @ [t] \<and> active_queue s' = active_queue s \<and>
           tcbs s' = (tcbs s)(t \<mapsto> (snd (gq_create_tcb mmap pgsize (next_pid s) attr))
                     \<lparr>tcb_start_routine := start, tcb_arg := arg, tcb_state := UPTH_RUNNABLE\<rparr>) \<and>
           u_data s' = u_data s"
proof -
  obtain ret p where p: "gq_create_tcb mmap pgsize (next_pid s) attr = (ret, p)" by force
  let ?p = "p\<lparr>tcb_start_routine := start, tcb_arg := arg\<rparr>"
  let ?s0 = "s\<lparr>next_pid := next_pid s + 1\<rparr>"
  let ?s1 = "if ret \<noteq> 0 then ext (PrintfMsg ''We're fucked'') ?s0 else ?s0"
  let ?s2 = "ext (InitUthreadTf t (tcb_stacktop p - ucast (tcb_stacksize p)) (tcb_stacksize p)) ?s1"
  let ?s3 = "ext (UthreadInit t) (?s2\<lparr>tcbs := (tcbs ?s2)(t \<mapsto> ?p)\<rparr>)"
  have st: "tcb_state ?p = UPTH_CREATED" using gq_create_tcb_simps(1) [of mmap pgsize "next_pid s" attr]
    by (simp add: p)
  have eq: "tcbs ?s3 = (tcbs s)(t \<mapsto> ?p)" "ready_queue ?s3 = ready_queue s"
      "active_queue ?s3 = active_queue s" "threads_ready ?s3 = threads_ready s"
      "threads_active ?s3 = threads_active s" "u_data ?s3 = u_data s"
    by (simp_all add: ext_def)
  have "gq_inv ?s3" by (rule gq_inv_new [OF assms _ eq(1-5)]) (simp add: st [simplified])
  moreover have "tcbs ?s3 t = Some ?p" by (simp add: ext_def)
  moreover have "wakeable (tcb_state ?p)" by (simp only: st wakeable.simps)
  ultimately obtain s' where s': "gq_pth_thread_runnable t ?s3 = Some s'" "gq_inv s'"
      "ready_queue s' = ready_queue ?s3 @ [t]" "active_queue s' = active_queue ?s3"
      "tcbs s' = (tcbs ?s3)(t \<mapsto> ?p\<lparr>tcb_state := UPTH_RUNNABLE\<rparr>)" "u_data s' = u_data ?s3"
    using gq_runnable_inv by blast
  have "gq_upthread_create gq_pth_thread_runnable mmap pgsize t attr start arg s = Some (0, t, s')"
    using s'(1) by (simp add: gq_upthread_create_def get_next_pid_def p Let_def)
  with s' eq show ?thesis by (simp add: p)
qed

section \<open>Join\<close>

lemma gq_join_cb_block_inv:
  assumes "gq_inv s" and "t \<in> set (active_queue s)" and "tcbs s x = Some q" and "x \<noteq> t"
    and "tcb_joiner q = None"
  shows "\<exists>p s'. tcbs s t = Some p \<and> schedulable (tcb_state p) \<and>
           gq_pth_join_cb ur t x s = Some s' \<and> gq_inv s' \<and>
           ready_queue s' = ready_queue s \<and> active_queue s' = remove1 t (active_queue s) \<and>
           tcbs s' = (tcbs s)(t \<mapsto> p\<lparr>tcb_state := UPTH_BLK_JOINING\<rparr>, x \<mapsto> q\<lparr>tcb_joiner := Some t\<rparr>) \<and>
           u_data s' = u_data s"
proof -
  have "\<not> schedulable UPTH_BLK_JOINING" by simp
  from gq_stop_stateE [OF assms(1,2) this] obtain p s1 s2 where st:
    "tcbs s t = Some p" "schedulable (tcb_state p)" "gq_generic_yield t s = Some s1"
    "set_state t UPTH_BLK_JOINING s1 = Some s2" "gq_inv s2" "ready_queue s2 = ready_queue s"
    "active_queue s2 = remove1 t (active_queue s)"
    "tcbs s2 = (tcbs s)(t \<mapsto> p\<lparr>tcb_state := UPTH_BLK_JOINING\<rparr>)" "u_data s2 = u_data s" .
  let ?s3 = "s2\<lparr>tcbs := (tcbs s2)(x \<mapsto> q\<lparr>tcb_joiner := Some t\<rparr>)\<rparr>"
  have "tcbs s2 x = Some q" using st(8) assms(3,4) by simp
  then have "gq_pth_join_cb ur t x s = Some ?s3" "gq_inv ?s3"
    using st(3,4,5) assms(5) gq_inv_cong [of ?s3 s2]
    by (simp_all add: gq_pth_join_cb_def state_of_def)
  with st show ?thesis by simp
qed

lemma gq_join_cb_late_inv:
  assumes "gq_inv s" and "t \<in> set (active_queue s)" and "tcbs s x = Some q" and "x \<noteq> t"
    and "tcb_joiner q = Some w"
  shows "\<exists>p s'. tcbs s t = Some p \<and> schedulable (tcb_state p) \<and>
           gq_pth_join_cb gq_pth_thread_runnable t x s = Some s' \<and> gq_inv s' \<and>
           ready_queue s' = ready_queue s @ [t] \<and> active_queue s' = remove1 t (active_queue s) \<and>
           tcbs s' = (tcbs s)(t \<mapsto> p\<lparr>tcb_state := UPTH_RUNNABLE\<rparr>, x \<mapsto> q\<lparr>tcb_joiner := Some t\<rparr>) \<and>
           u_data s' = u_data s"
proof -
  have "\<not> schedulable UPTH_BLK_JOINING" by simp
  from gq_stop_stateE [OF assms(1,2) this] obtain p s1 s2 where st:
    "tcbs s t = Some p" "schedulable (tcb_state p)" "gq_generic_yield t s = Some s1"
    "set_state t UPTH_BLK_JOINING s1 = Some s2" "gq_inv s2" "ready_queue s2 = ready_queue s"
    "active_queue s2 = remove1 t (active_queue s)"
    "tcbs s2 = (tcbs s)(t \<mapsto> p\<lparr>tcb_state := UPTH_BLK_JOINING\<rparr>)" "u_data s2 = u_data s" .
  let ?s3 = "s2\<lparr>tcbs := (tcbs s2)(x \<mapsto> q\<lparr>tcb_joiner := Some t\<rparr>)\<rparr>"
  have x: "tcbs s2 x = Some q" using st(8) assms(3,4) by simp
  then have "gq_inv ?s3" using st(5) gq_inv_cong [of ?s3 s2] by (simp add: state_of_def)
  moreover have "tcbs ?s3 t = Some (p\<lparr>tcb_state := UPTH_BLK_JOINING\<rparr>)"
      "wakeable (tcb_state (p\<lparr>tcb_state := UPTH_BLK_JOINING\<rparr>))"
    using st(8) assms(4) by simp_all
  ultimately obtain s' where s': "gq_pth_thread_runnable t ?s3 = Some s'" "gq_inv s'"
      "ready_queue s' = ready_queue ?s3 @ [t]" "active_queue s' = active_queue ?s3"
      "tcbs s' = (tcbs ?s3)(t \<mapsto> p\<lparr>tcb_state := UPTH_BLK_JOINING, tcb_state := UPTH_RUNNABLE\<rparr>)"
      "u_data s' = u_data ?s3"
    using gq_runnable_inv [of ?s3 t] by blast
  have "gq_pth_join_cb gq_pth_thread_runnable t x s = Some s'"
    using st(3,4) x s'(1) assms(5) by (simp add: gq_pth_join_cb_def)
  with s' st assms(4) show ?thesis by (auto simp: fun_upd_twist)
qed

end
