(* ===== verification/Gq_Exit.thy ===== *)
theory Gq_Exit
  imports Gq_Inv
begin

text \<open>
  The end of a thread under the global-queue scheduler (\<^verbatim>\<open>__pth_exit_cb\<close>), and the steps
  that the scheduler can take (\<open>gq_moves\<close>), with the invariant they keep.
\<close>

section \<open>Exit\<close>

text \<open>The invariant of the scheduler together with that of the joiner slots.\<close>

definition gq_ok :: "gq \<Rightarrow> bool" where
  "gq_ok s \<longleftrightarrow> gq_inv s \<and> join_ok s"

lemma gq_upthread_exit_ok:
  assumes "gq_ok s" and "t \<in> set (active_queue s)"
  shows "\<exists>p s1. tcbs s t = Some p \<and> schedulable (tcb_state p) \<and>
           gq_upthread_exit ret t s = Some s1 \<and> gq_ok s1 \<and>
           tcbs s1 = (tcbs s)(t \<mapsto> p\<lparr>tcb_retval := ret\<rparr>) \<and>
           ready_queue s1 = ready_queue s \<and> active_queue s1 = active_queue s"
proof -
  have inv: "gq_inv s" and jok: "join_ok s" using assms(1) by (simp_all add: gq_ok_def)
  obtain p where p: "tcbs s t = Some p" "schedulable (tcb_state p)"
    using gq_inv_links_iff [OF inv, of t] assms(2) by (auto simp: gq_links_def)
  let ?p1 = "p\<lparr>tcb_retval := ret\<rparr>"
  let ?s1 = "ext DestroyDtls (s\<lparr>tcbs := (tcbs s)(t \<mapsto> ?p1)\<rparr>)"
  have "gq_inv ?s1" using gq_inv_cong [of ?s1 s] inv p(1)
    by (auto simp: state_of_def ext_def)
  moreover have "join_ok ?s1"
    by (rule join_ok_neutral_upd [OF jok p(1), of _ ?p1])
      (use p(2) schedulable_neutral in simp_all)
  ultimately show ?thesis using p by (simp add: gq_upthread_exit_def gq_ok_def)
qed

lemma gq_exit_state:
  assumes "gq_inv s" and "t \<in> set (active_queue s)"
  shows "\<exists>p s1 s2. tcbs s t = Some p \<and> schedulable (tcb_state p) \<and>
           gq_generic_yield t s = Some s1 \<and> set_state t UPTH_EXITING s1 = Some s2 \<and>
           (let s3 = gq_free_stack (p\<lparr>tcb_state := UPTH_EXITING\<rparr>) (ext (UthreadCleanup t) s2) in
            gq_inv s3 \<and> ready_queue s3 = ready_queue s \<and>
            active_queue s3 = remove1 t (active_queue s) \<and>
            tcbs s3 = (tcbs s)(t \<mapsto> p\<lparr>tcb_state := UPTH_EXITING\<rparr>) \<and> u_data s3 = u_data s)"
proof -
  have "\<not> schedulable UPTH_EXITING" by simp
  from gq_stop_stateE [OF assms this] obtain p s1 s2 where st:
    "tcbs s t = Some p" "schedulable (tcb_state p)" "gq_generic_yield t s = Some s1"
    "set_state t UPTH_EXITING s1 = Some s2" "gq_inv s2" "ready_queue s2 = ready_queue s"
    "active_queue s2 = remove1 t (active_queue s)"
    "tcbs s2 = (tcbs s)(t \<mapsto> p\<lparr>tcb_state := UPTH_EXITING\<rparr>)" "u_data s2 = u_data s" .
  let ?s3 = "gq_free_stack (p\<lparr>tcb_state := UPTH_EXITING\<rparr>) (ext (UthreadCleanup t) s2)"
  have "gq_inv ?s3" using st(5) gq_inv_cong [of ?s3 s2] by (simp add: gq_free_stack_def)
  with st show ?thesis by (simp add: gq_free_stack_def Let_def)
qed

lemma gq_exit_cb_detached:
  assumes "gq_ok s" and "t \<in> set (active_queue s)" and "tcbs s t = Some p" and "tcb_detached p"
  shows "\<exists>s'. gq_pth_exit_cb ur t s = Some s' \<and> gq_ok s' \<and> ready_queue s' = ready_queue s \<and>
           active_queue s' = remove1 t (active_queue s) \<and> tcbs s' = (tcbs s)(t := None)"
proof -
  from assms(1) have inv: "gq_inv s" and jok: "join_ok s" by (simp_all add: gq_ok_def)
  from gq_exit_state [OF inv assms(2)] assms(3) obtain s1 s2 where st:
    "schedulable (tcb_state p)" "gq_generic_yield t s = Some s1"
    "set_state t UPTH_EXITING s1 = Some s2" by (auto simp: Let_def)
  define s3 where "s3 = gq_free_stack (p\<lparr>tcb_state := UPTH_EXITING\<rparr>) (ext (UthreadCleanup t) s2)"
  from gq_exit_state [OF inv assms(2)] assms(3) st have s3: "gq_inv s3"
    "ready_queue s3 = ready_queue s" "active_queue s3 = remove1 t (active_queue s)"
    "tcbs s3 = (tcbs s)(t \<mapsto> p\<lparr>tcb_state := UPTH_EXITING\<rparr>)"
    by (auto simp: Let_def s3_def)
  let ?s' = "s3\<lparr>tcbs := (tcbs s3)(t := None)\<rparr>"
  have t2: "tcbs (ext (UthreadCleanup t) s2) t = Some (p\<lparr>tcb_state := UPTH_EXITING\<rparr>)"
    using s3(4) by (simp add: s3_def gq_free_stack_def)
  have run: "gq_pth_exit_cb ur t s = Some ?s'"
    using st assms(4) t2 by (simp add: gq_pth_exit_cb_def s3_def Let_def)
  have "t \<notin> gq_links s3"
    using gq_inv_links_iff [OF s3(1), of t] s3(4) by simp
  then have "gq_inv ?s'" using s3(1) by (auto simp: gq_inv_def gq_links_def state_of_def)
  moreover have "join_ok ?s'"
  proof (rule join_ok_free [OF jok, of _ t])
    show "tcbs ?s' = (tcbs s)(t := None)" using s3(4) by simp
    show "state_of s t \<noteq> Some UPTH_BLK_JOINING" using assms(3) st(1) by (auto simp: state_of_def)
    have "t \<in> detached_threads s" using assms(3,4) by (simp add: detached_threads_def)
    then show "joiner_of s t = None \<or> state_of s t = Some UPTH_EXITING"
      using join_ok_detached [OF jok] by (cases "joiner_of s t") auto
  qed
  ultimately show ?thesis using run s3 by (simp add: gq_ok_def)
qed

text \<open>A joinable thread exits: its slot now holds its own address, and the joiner it found
  there, if any, is at the end of the ready queue.\<close>

lemma gq_exit_cb_joinable:
  assumes "gq_ok s" and "t \<in> set (active_queue s)" and "tcbs s t = Some p" and "\<not> tcb_detached p"
  shows "\<exists>s'. gq_pth_exit_cb gq_pth_thread_runnable t s = Some s' \<and> gq_ok s' \<and>
           ready_queue s' = ready_queue s @ (case tcb_joiner p of None \<Rightarrow> [] | Some w \<Rightarrow> [w]) \<and>
           active_queue s' = remove1 t (active_queue s) \<and>
           tcbs s' t = Some (p\<lparr>tcb_state := UPTH_EXITING, tcb_joiner := Some t\<rparr>) \<and>
           state_of s' t = Some UPTH_EXITING \<and> joiner_of s' t = Some t \<and>
           (\<forall>y. y \<noteq> t \<longrightarrow> tcb_joiner p \<noteq> Some y \<longrightarrow> tcbs s' y = tcbs s y)"
proof -
  from assms(1) have inv: "gq_inv s" and jok: "join_ok s" by (simp_all add: gq_ok_def)
  from gq_exit_state [OF inv assms(2)] assms(3) obtain s1 s2 where st:
    "schedulable (tcb_state p)" "gq_generic_yield t s = Some s1"
    "set_state t UPTH_EXITING s1 = Some s2" by (auto simp: Let_def)
  let ?px = "p\<lparr>tcb_state := UPTH_EXITING\<rparr>"
  define s3 where "s3 = gq_free_stack ?px (ext (UthreadCleanup t) s2)"
  from gq_exit_state [OF inv assms(2)] assms(3) st have s3: "gq_inv s3"
    "ready_queue s3 = ready_queue s" "active_queue s3 = remove1 t (active_queue s)"
    "tcbs s3 = (tcbs s)(t \<mapsto> ?px)"
    by (auto simp: Let_def s3_def)
  let ?s4 = "s3\<lparr>tcbs := (tcbs s3)(t \<mapsto> ?px\<lparr>tcb_joiner := Some t\<rparr>)\<rparr>"
  have t2: "tcbs (ext (UthreadCleanup t) s2) t = Some ?px" and t3: "tcbs s3 t = Some ?px"
    using s3(4) by (simp_all add: s3_def gq_free_stack_def)
  have inv4: "gq_inv ?s4" using s3(1,4) gq_inv_cong [of ?s4 s3] by (simp add: state_of_def)
  have slot: "joiner_of s t = tcb_joiner p" using assms(3) by (simp add: joiner_of_def)
  have neutral: "join_neutral (tcb_state p)" using st(1) by (cases "tcb_state p") simp_all
  have t_live: "state_of s t \<noteq> Some UPTH_EXITING"
    using assms(3) join_neutral_neq [OF neutral] by (simp add: state_of_def)
  show ?thesis
  proof (cases "tcb_joiner p")
    case None
    have "gq_pth_exit_cb gq_pth_thread_runnable t s = Some ?s4"
      using st assms(4) t2 t3 None by (simp add: gq_pth_exit_cb_def s3_def [symmetric] Let_def)
    moreover have "join_ok ?s4"
      by (rule join_ok_exit [OF jok assms(3) neutral assms(4)])
        (use s3(4) None slot assms(3,4) in
          \<open>auto simp: state_of_def joiner_of_def detached_threads_def fun_eq_iff\<close>)
    ultimately show ?thesis using inv4 s3 None by (auto simp: gq_ok_def state_of_def joiner_of_def)
  next
    case (Some w)
    then have "state_of s w = Some UPTH_BLK_JOINING"
      using join_ok_live [OF jok _ t_live] slot by simp
    then obtain q where q: "tcbs s w = Some q" "tcb_state q = UPTH_BLK_JOINING"
      by (auto simp: state_of_def)
    with assms(3) neutral have "w \<noteq> t" by auto
    then have w4: "tcbs ?s4 w = Some q" using q s3(4) by simp
    from gq_runnable_inv [OF inv4 w4] q(2) obtain s' where s':
      "gq_pth_thread_runnable w ?s4 = Some s'" "gq_inv s'"
      "ready_queue s' = ready_queue ?s4 @ [w]" "active_queue s' = active_queue ?s4"
      "tcbs s' = (tcbs ?s4)(w \<mapsto> q\<lparr>tcb_state := UPTH_RUNNABLE\<rparr>)" by auto
    have "gq_pth_exit_cb gq_pth_thread_runnable t s = Some s'"
      using st assms(4) t2 t3 Some s'(1) by (simp add: gq_pth_exit_cb_def s3_def [symmetric] Let_def)
    moreover have "join_ok s'"
      by (rule join_ok_exit [OF jok assms(3) neutral assms(4)])
        (use s'(5) s3(4) Some slot assms(3,4) q \<open>w \<noteq> t\<close> in
          \<open>auto simp: state_of_def joiner_of_def detached_threads_def fun_eq_iff\<close>)
    ultimately show ?thesis using s' s3 Some \<open>w \<noteq> t\<close>
      by (auto simp: gq_ok_def state_of_def joiner_of_def)
  qed
qed

end
