(* ===== verification/Monitor_Spec.thy ===== *)
theory Monitor_Spec
  imports Monitor
begin

text \<open>
  What a mutex with its condition variable promises, as a specification of its own: a monitor in the
  sense of Mesa. Its state is who has the mutex and how often, the waiters in the order they came, and
  the threads that are inside a call that returns only with the mutex. Every critical section of
  the implementation is one step of it or invisible to it.
\<close>

section \<open>The abstract monitor\<close>

record absmon =
  am_held :: "upthread_t \<Rightarrow> nat"
  am_waiters :: "upthread_t list"
  am_inside :: "upthread_t set"

text \<open>The mutex goes to a thread that is not waiting when nobody has it, or to the one that has
  it already if it is recursive. Somebody else has it when a lock call goes to sleep. To wait is to give the
  mutex up and to join the waiters, at once; a signal lets go the one that has waited the longest.\<close>

inductive abs_mon :: "bool \<Rightarrow> absmon \<Rightarrow> absmon \<Rightarrow> bool" for recursive :: bool where
  am_acquire: "(\<forall>u. am_held A u = 0) \<or> recursive \<and> 0 < am_held A t \<Longrightarrow> t \<notin> set (am_waiters A) \<Longrightarrow>
    abs_mon recursive A (A\<lparr>am_held := (am_held A)(t := Suc (am_held A t)), am_inside := am_inside A - {t}\<rparr>)"
| am_sleep: "t \<notin> am_inside A \<Longrightarrow> 0 < am_held A u \<Longrightarrow> u \<noteq> t \<or> \<not> recursive \<Longrightarrow>
    abs_mon recursive A (A\<lparr>am_inside := insert t (am_inside A)\<rparr>)"
| am_release: "t \<notin> am_inside A \<Longrightarrow> 0 < am_held A t \<Longrightarrow>
    abs_mon recursive A (A\<lparr>am_held := (am_held A)(t := am_held A t - 1)\<rparr>)"
| am_wait: "t \<notin> am_inside A \<Longrightarrow> 0 < am_held A t \<Longrightarrow>
    abs_mon recursive A (A\<lparr>am_held := (am_held A)(t := am_held A t - 1),
      am_waiters := am_waiters A @ [t], am_inside := insert t (am_inside A)\<rparr>)"
| am_signal: "am_waiters A = w # ws \<Longrightarrow> abs_mon recursive A (A\<lparr>am_waiters := ws\<rparr>)"

definition absmon_start :: "absmon \<Rightarrow> bool" where
  "absmon_start A \<longleftrightarrow> am_held A = (\<lambda>_. 0) \<and> am_waiters A = [] \<and> am_inside A = {}"

text \<open>The specification by itself excludes a second holder and keeps the waiters inside.\<close>

definition absmon_ok :: "bool \<Rightarrow> absmon \<Rightarrow> bool" where
  "absmon_ok recursive A \<longleftrightarrow>
     (\<forall>t u. 0 < am_held A t \<longrightarrow> 0 < am_held A u \<longrightarrow> t = u) \<and> (\<not> recursive \<longrightarrow> (\<forall>t. am_held A t \<le> 1)) \<and>
     distinct (am_waiters A) \<and> set (am_waiters A) \<subseteq> am_inside A"

lemma absmon_step_ok: "abs_mon recursive A A' \<Longrightarrow> absmon_ok recursive A \<Longrightarrow> absmon_ok recursive A'"
proof (induction rule: abs_mon.induct)
  case (am_acquire A t)
  then show ?case by (auto simp: absmon_ok_def split: if_splits)
next
  case (am_release t A)
  then show ?case by (auto simp: absmon_ok_def split: if_splits intro: le_trans [OF diff_le_self])
next
  case (am_wait t A)
  then show ?case by (auto simp: absmon_ok_def split: if_splits intro: le_trans [OF diff_le_self])
qed (auto simp: absmon_ok_def)

lemma absmon_reachable_ok: "reachable absmon_start (abs_mon recursive) A \<Longrightarrow> absmon_ok recursive A"
proof (induction rule: reachable.induct)
  case (reach_step A A')
  then show ?case by (blast intro: absmon_step_ok)
qed (simp add: absmon_start_def absmon_ok_def)

section \<open>The implementation refines it\<close>

definition absmon_of :: "'s monitor \<Rightarrow> absmon" where
  "absmon_of M = \<lparr>am_held = mon_held M, am_waiters = cond_queue (mon_cond M),
                  am_inside = {t. mon_pc M t \<noteq> Client \<and> mon_pc M t \<noteq> Broadcasting}\<rparr>"

lemma absmon_of_simps [simp]:
  "am_held (absmon_of M) = mon_held M" "am_waiters (absmon_of M) = cond_queue (mon_cond M)"
  "t \<in> am_inside (absmon_of M) \<longleftrightarrow> mon_pc M t \<noteq> Client \<and> mon_pc M t \<noteq> Broadcasting"
  by (simp_all add: absmon_of_def)

definition mon_recursive :: "'s monitor \<Rightarrow> bool" where
  "mon_recursive M \<longleftrightarrow> mattr_type (mutex_attr (mon_mutex M)) = UPTHREAD_MUTEX_RECURSIVE"

lemma absmon_of_start: "mon_init sinv M \<Longrightarrow> absmon_start (absmon_of M)"
  by (auto simp: mon_init_def absmon_start_def absmon_of_def upthread_cond_init_def
      dest: arg_cong [of _ _ cond_queue])

text \<open>A lock call that gets the mutex found it free, or is the owner's.\<close>

lemma lock_loop_free:
  assumes "mutex_lock_loop t m = Some (r, m')"
  shows "if r = Lock_sleep then m' = m \<and> mutex_locked m \<noteq> 0 else mutex_locked m = 0"
  using assms by (auto simp: mutex_lock_loop_def bind_Some_conv split: if_splits)

lemma lock_free_or_own:
  assumes "upthread_mutex_lock t (Some m) = Some (r, Some m')"
  shows "if r = Lock_sleep then m' = m \<and> mutex_locked m \<noteq> 0 \<and> \<not> mutex_recursive_owner t m
         else mutex_locked m = 0 \<or> mutex_recursive_owner t m"
  using assms lock_loop_free [of t m]
  by (auto simp: upthread_mutex_lock_def bind_Some_conv split: if_splits)

lemma mutex_attr_kept:
  "mutex_lock_loop t m = Some (r, m1) \<Longrightarrow> mutex_attr m1 = mutex_attr m"
  "upthread_mutex_lock t (Some m) = Some (r, Some m2) \<Longrightarrow> mutex_attr m2 = mutex_attr m"
  "upthread_mutex_trylock t (Some m) = Some (q, Some m3) \<Longrightarrow> mutex_attr m3 = mutex_attr m"
  "mutex_unlock_cs m = Some (u, m4) \<Longrightarrow> mutex_attr m4 = mutex_attr m"
  "mutex_block rt t m s = Some (m5, s') \<Longrightarrow> mutex_attr m5 = mutex_attr m"
  by (auto simp: mutex_lock_loop_def upthread_mutex_lock_def upthread_mutex_trylock_def mutex_unlock_cs_def
      mutex_block_def bind_Some_conv Let_def split: if_splits prod.splits)

lemma mon_step_recursive:
  assumes "mon_step rt running moves M M'"
  shows "mon_recursive M' = mon_recursive M"
  using assms by (cases rule: mon_step.cases) (auto simp: mon_recursive_def mutex_attr_kept)

lemma mutex_holds_free: "mutex_wf m \<Longrightarrow> mutex_locked m = 0 \<longleftrightarrow> (\<forall>u. mutex_holds m u = 0)"
  by (cases "mutex_owner m") (auto simp: mutex_wf_def mutex_holds_def)

text \<open>What \<open>mon_inv\<close> says of the abstract state.\<close>

lemma mon_invD:
  assumes "mon_inv sinv blocked M"
  shows "mutex_wf (mon_mutex M)" and "set (cond_queue (mon_cond M)) = {t. mon_pc M t = Cond_waiting}"
    and "set (mutex_queue (mon_mutex M)) = {t. mon_pc M t = Lock_waiting}"
    and "mutex_locked (mon_mutex M) = 0 \<longleftrightarrow> (\<forall>u. mon_held M u = 0)"
    and "mutex_recursive_owner t (mon_mutex M) \<longleftrightarrow> mon_recursive M \<and> 0 < mon_held M t"
proof -
  from assms have wf: "mutex_wf (mon_mutex M)" and h: "mon_held M = mutex_holds (mon_mutex M)"
    by (simp_all add: mon_inv_def mon_lock_ok_def)
  show "mutex_wf (mon_mutex M)" by (rule wf)
  show "mutex_locked (mon_mutex M) = 0 \<longleftrightarrow> (\<forall>u. mon_held M u = 0)"
    unfolding h by (rule mutex_holds_free [OF wf])
  show "mutex_recursive_owner t (mon_mutex M) \<longleftrightarrow> mon_recursive M \<and> 0 < mon_held M t"
    using wf unfolding h by (auto simp: mutex_recursive_owner_def mon_recursive_def mutex_holds_def mutex_wf_def)
qed (use assms in \<open>simp_all add: mon_inv_def mon_queues_ok_def\<close>)

lemma refines_acquire:
  assumes "mon_inv sinv blocked M"
    and "mutex_locked (mon_mutex M) = 0 \<or> mutex_recursive_owner t (mon_mutex M)"
    and "mon_pc M t \<noteq> Cond_waiting" and "mon_held M' = (mon_held M)(t := Suc (mon_held M t))"
    and "mon_cond M' = mon_cond M" and "mon_pc M' = (mon_pc M)(t := Client)"
  shows "abs_mon (mon_recursive M) (absmon_of M) (absmon_of M')"
proof -
  have "absmon_of M' = (absmon_of M)\<lparr>am_held := (am_held (absmon_of M))(t := Suc (am_held (absmon_of M) t)),
      am_inside := am_inside (absmon_of M) - {t}\<rparr>"
    using assms(4-6) by (auto simp: absmon_of_def)
  moreover have "(\<forall>u. am_held (absmon_of M) u = 0) \<or> mon_recursive M \<and> 0 < am_held (absmon_of M) t"
    using assms(2) by (simp add: mon_invD(4,5) [OF assms(1)])
  moreover have "t \<notin> set (am_waiters (absmon_of M))" using assms(3) by (simp add: mon_invD(2) [OF assms(1)])
  ultimately show ?thesis using am_acquire by metis
qed

text \<open>The thread that an unlock takes off the queue stays inside its call.\<close>

lemma unlock_inside:
  assumes "mon_inv sinv blocked M" and "mutex_unlock_cs (mon_mutex M) = Some (u, m)"
  shows "{v. pc_opt u Lock_retry (mon_pc M) v \<noteq> Client \<and> pc_opt u Lock_retry (mon_pc M) v \<noteq> Broadcasting} =
         {v. mon_pc M v \<noteq> Client \<and> mon_pc M v \<noteq> Broadcasting}"
proof (cases u)
  case (Some w)
  with assms(2) have "w \<in> set (mutex_queue (mon_mutex M))"
    by (cases "mutex_queue (mon_mutex M)")
      (auto simp: mutex_unlock_cs_def bind_Some_conv Let_def split: if_splits)
  with mon_invD(3) [OF assms(1)] have "mon_pc M w = Lock_waiting" by simp
  with Some show ?thesis by auto
qed simp

lemma refines_pop:
  assumes "mon_inv sinv blocked M" and "cond_pop (mon_cond M) = (u, c)"
    and "mon_cond M' = c" and "mon_held M' = mon_held M"
    and "am_inside (absmon_of M') =
      {v. pc_opt u Relock (mon_pc M) v \<noteq> Client \<and> pc_opt u Relock (mon_pc M) v \<noteq> Broadcasting}"
  shows "abs_mon (mon_recursive M) (absmon_of M) (absmon_of M') \<or> absmon_of M' = absmon_of M"
  using assms(2)
proof (cases rule: cond_popE)
  case 1
  with assms(3-5) show ?thesis by (simp add: absmon_of_def)
next
  case (2 w)
  with mon_invD(2) [OF assms(1)] have "mon_pc M w = Cond_waiting" by auto
  with 2 assms(3-5) have "absmon_of M' = (absmon_of M)\<lparr>am_waiters := cond_queue c\<rparr>"
    by (auto simp: absmon_of_def)
  with am_signal [of "absmon_of M" w "cond_queue c"] 2 show ?thesis by simp
qed

text \<open>A lock call goes to sleep.\<close>

lemma refines_sleep:
  assumes inv: "mon_inv sinv blocked M" and "mon_pc M t = Client \<or> mon_pc M t = Relock"
    and "upthread_mutex_lock t (Some (mon_mutex M)) = Some (Lock_sleep, Some m)"
    and M': "mon_held M' = mon_held M" "mon_cond M' = mon_cond M" "mon_pc M' = (mon_pc M)(t := Lock_waiting)"
  shows "abs_mon (mon_recursive M) (absmon_of M) (absmon_of M') \<or> absmon_of M' = absmon_of M"
proof -
  note m = lock_free_or_own [OF assms(3), simplified]
  from m mon_invD(4) [OF inv] obtain u where u: "0 < mon_held M u" by auto
  with m mon_invD(5) [OF inv] have "u \<noteq> t \<or> \<not> mon_recursive M" by auto
  note sl = am_sleep [of t "absmon_of M" u "mon_recursive M", OF _ _ this]
  from assms(2) show ?thesis
  proof
    assume pc: "mon_pc M t = Client"
    have "absmon_of M' = (absmon_of M)\<lparr>am_inside := insert t (am_inside (absmon_of M))\<rparr>"
      using M' by (auto simp: absmon_of_def)
    with sl pc u show ?thesis by simp
  next
    assume "mon_pc M t = Relock"
    then have "absmon_of M' = absmon_of M" using M' by (auto simp: absmon_of_def)
    then show ?thesis ..
  qed
qed

context two_level_scheduler
begin

lemma mon_step_refines:
  assumes "mon_step rt running moves M M'" and inv: "mon_inv sinv blocked M"
  shows "abs_mon (mon_recursive M) (absmon_of M) (absmon_of M') \<or> absmon_of M' = absmon_of M"
proof -
  from assms(1) show ?thesis
  proof (cases rule: mon_step.cases)
    case (m_lock t m)
    show ?thesis
      using lock_free_or_own [OF m_lock(4)] m_lock(1-3) by - (rule disjI1, rule refines_acquire [OF inv, of t], auto)
  next
    case (m_lock_sleep t m m' s')
    show ?thesis by (rule refines_sleep [OF inv m_lock_sleep(3,4)]) (simp_all add: m_lock_sleep(1))
  next
    case (m_retry t m)
    show ?thesis
      using lock_loop_free [OF m_retry(4)] m_retry(1-3) by - (rule disjI1, rule refines_acquire [OF inv, of t], auto)
  next
    case (m_retry_sleep t m m' s')
    then have "absmon_of M' = absmon_of M" by (auto simp: absmon_of_def)
    then show ?thesis ..
  next
    case (m_trylock t r m)
    from mon_invD(1) [OF inv] m_trylock(4) show ?thesis
    proof (cases rule: mutex_trylock_cases)
      case 1
      then have "absmon_of M' = absmon_of M" using m_trylock(1) by (simp add: absmon_of_def)
      then show ?thesis ..
    next
      case (2 m1)
      have "(mon_pc M)(t := Client) = mon_pc M" using m_trylock(3) by auto
      moreover have "mutex_locked (mon_mutex M) = 0 \<or> mutex_recursive_owner t (mon_mutex M)"
        using m_trylock(4) 2(1) by (auto simp: upthread_mutex_trylock_def split: if_splits)
      ultimately show ?thesis using m_trylock(1,3) 2(1)
        by - (rule disjI1, rule refines_acquire [OF inv, of t], simp_all)
    qed
  next
    case (m_unlock t u m)
    have "absmon_of M' = (absmon_of M)\<lparr>am_held := (am_held (absmon_of M))(t := am_held (absmon_of M) t - 1)\<rparr>"
      using m_unlock(1) unlock_inside [OF inv m_unlock(5)] by (simp add: absmon_of_def)
    with am_release [of t "absmon_of M"] m_unlock(3,4) show ?thesis by simp
  next
    case (m_wake w s')
    then have "absmon_of M' = absmon_of M" by (simp add: absmon_of_def)
    then show ?thesis ..
  next
    case (m_wait t a c c' s' u m)
    have "sinv (mon_sched M)" using inv by (simp add: mon_inv_def)
    moreover have "cond_queue c = cond_queue (mon_cond M)" using m_wait(5) by (auto simp: upthread_cond_wait_def)
    ultimately have c': "cond_queue c' = cond_queue (mon_cond M) @ [t]"
      using cond_enqueueE [OF m_wait(6) _ m_wait(2)] by metis
    have "absmon_of M' = (absmon_of M)\<lparr>am_held := (am_held (absmon_of M))(t := am_held (absmon_of M) t - 1),
        am_waiters := am_waiters (absmon_of M) @ [t], am_inside := insert t (am_inside (absmon_of M))\<rparr>"
      using m_wait(1) unlock_inside [OF inv m_wait(7)] c' by (auto simp: absmon_of_def)
    with am_wait [of t "absmon_of M"] m_wait(3,4) show ?thesis by simp
  next
    case (m_signal t u c)
    show ?thesis by (rule refines_pop [OF inv m_signal(4)]) (use m_signal(1) in auto)
  next
    case (m_broadcast t u c)
    have "t \<notin> set (cond_queue (mon_cond M))" using m_broadcast(3) mon_invD(2) [OF inv] by auto
    then have "u \<noteq> Some t" using m_broadcast(4) by (auto elim!: cond_popE)
    then show ?thesis by (intro refines_pop [OF inv m_broadcast(4)])
      (use m_broadcast(1,3) in \<open>auto split: option.splits if_splits\<close>)
  qed (simp_all add: absmon_of_def)
qed

text \<open>Executions of the implementation are executions of the specification.\<close>

lemma mon_refines:
  assumes "reachable (mon_init sinv) (mon_step rt running moves) M"
  shows "reachable absmon_start (abs_mon (mon_recursive M)) (absmon_of M)"
  using assms
proof (induction rule: reachable.induct)
  case (reach_init M)
  then show ?case by (intro reachable.reach_init absmon_of_start)
next
  case (reach_step M M')
  note rec = mon_step_recursive [OF reach_step(2)]
  from mon_step_refines [OF reach_step(2) mon_reachable_inv [OF reach_step(1)]] reach_step(3) show ?case
    unfolding rec by (metis reachable.reach_step)
qed

end

end
