(* ===== verification/Futex.thy ===== *)
theory Futex
  imports Runtime
begin

text \<open>
  Futexes, \<^verbatim>\<open>src/common/futex.c\<close>: one list of sleepers for each address that was ever used.
  User memory is a map from addresses to \<open>int\<close>s. The registry of lists is parlib's wait-free
  list, of which the model has the addresses that \<open>wfl_foreach_unsafe\<close> visits, in that order;
  \<open>wfl_insert\<close> is a parameter.
\<close>

section \<open>Data\<close>

text \<open>An element lives on the stack of the waiting thread, so its link is always free when it is
  queued.\<close>

record futex_element =
  fe_upthread :: "upthread_t option"
  fe_list :: addr
  fe_val :: int

record futex_list =
  fl_tailq :: "futex_element list"
  fl_uaddr :: addr

text \<open>\<open>fx_lists\<close> is \<open>futex_lists\<close>; \<open>fx_heap\<close> the memory of the lists.\<close>

record futexes =
  fx_lists :: "addr list"
  fx_heap :: "addr \<Rightarrow> futex_list option"

type_synonym memory = "addr \<Rightarrow> int option"

definition futexes_init :: futexes where
  "futexes_init = \<lparr>fx_lists = [], fx_heap = Map.empty\<rparr>"

section \<open>The list of an address\<close>

text \<open>The scan; a list pointer in the registry that is not allocated would be dereferenced.\<close>

fun futex_scan :: "(addr \<Rightarrow> futex_list option) \<Rightarrow> addr \<Rightarrow> addr list \<Rightarrow> addr option option" where
  "futex_scan heap uaddr [] = Some None"
| "futex_scan heap uaddr (p # ps) =
     (case heap p of
        None \<Rightarrow> None
      | Some l \<Rightarrow> if fl_uaddr l = uaddr then Some (Some p) else futex_scan heap uaddr ps)"

text \<open>The part under \<open>futex_lists_lock\<close>. \<open>malloc\<close> is the address returned, \<open>None\<close> when it
  fails and the process aborts.\<close>

definition futex_list_create ::
  "(addr list \<Rightarrow> addr \<Rightarrow> addr list) \<Rightarrow> addr option \<Rightarrow> addr \<Rightarrow> futexes \<Rightarrow>
   (addr \<times> futexes) option" where
  "futex_list_create wfl_insert malloc uaddr fx = do {
     found \<leftarrow> futex_scan (fx_heap fx) uaddr (fx_lists fx);
     (case found of
        Some p \<Rightarrow> Some (p, fx)
      | None \<Rightarrow> do {
          p \<leftarrow> malloc;
          Some (p, fx\<lparr>fx_heap := (fx_heap fx)(p \<mapsto> \<lparr>fl_tailq = [], fl_uaddr = uaddr\<rparr>),
                      fx_lists := wfl_insert (fx_lists fx) p\<rparr>)
        })
   }"

definition get_futex_list ::
  "(addr list \<Rightarrow> addr \<Rightarrow> addr list) \<Rightarrow> addr option \<Rightarrow> addr \<Rightarrow> futexes \<Rightarrow>
   (addr \<times> futexes) option" where
  "get_futex_list wfl_insert malloc uaddr fx = do {
     found \<leftarrow> futex_scan (fx_heap fx) uaddr (fx_lists fx);
     (case found of
        Some p \<Rightarrow> Some (p, fx)
      | None \<Rightarrow> futex_list_create wfl_insert malloc uaddr fx)
   }"

definition set_tailq :: "addr \<Rightarrow> futex_element list \<Rightarrow> futexes \<Rightarrow> futexes option" where
  "set_tailq p q fx = do {
     l \<leftarrow> fx_heap fx p;
     Some (fx\<lparr>fx_heap := (fx_heap fx)(p \<mapsto> l\<lparr>fl_tailq := q\<rparr>)\<rparr>)
   }"

section \<open>Waiting\<close>

text \<open>The callback: the test of the value and the queueing are one critical section.\<close>

definition futex_block ::
  "'s runtime \<Rightarrow> upthread_t \<Rightarrow> futex_element \<Rightarrow> memory \<Rightarrow> futexes \<times> 's \<Rightarrow> (futexes \<times> 's) option" where
  "futex_block rt t e mem = (\<lambda>(fx, s). do {
     l \<leftarrow> fx_heap fx (fe_list e);
     v \<leftarrow> mem (fl_uaddr l);
     if v = fe_val e then do {
       s \<leftarrow> uthread_has_blocked rt t UTH_EXT_BLK_MUTEX s;
       fx \<leftarrow> set_tailq (fe_list e) (fl_tailq l @ [e\<lparr>fe_upthread := Some t\<rparr>]) fx;
       Some (fx, s)
     }
     else do {
       s \<leftarrow> uthread_paused rt t s;
       Some (fx, s)
     }
   })"

text \<open>The call: it returns 0 at once, or yields to \<open>futex_block\<close> with the element and returns 0
  when the thread runs again.\<close>

definition futex_wait ::
  "(addr list \<Rightarrow> addr \<Rightarrow> addr list) \<Rightarrow> addr option \<Rightarrow> addr \<Rightarrow> int \<Rightarrow> memory \<Rightarrow> futexes \<Rightarrow>
   ((int + futex_element) \<times> futexes) option" where
  "futex_wait wfl_insert malloc uaddr val mem fx = do {
     v \<leftarrow> mem uaddr;
     if v = val then do {
       (p, fx) \<leftarrow> get_futex_list wfl_insert malloc uaddr fx;
       Some (Inr \<lparr>fe_upthread = None, fe_list = p, fe_val = val\<rparr>, fx)
     }
     else Some (Inl 0, fx)
   }"

section \<open>Waking\<close>

text \<open>\<open>unblock_futex_queue\<close>: the elements are woken in order; the result is their number.\<close>

fun unblock_futex_queue :: "'s runtime \<Rightarrow> futex_element list \<Rightarrow> 's \<Rightarrow> (int \<times> 's) option" where
  "unblock_futex_queue rt [] s = Some (0, s)"
| "unblock_futex_queue rt (e # q) s = do {
     t \<leftarrow> fe_upthread e;
     s \<leftarrow> uthread_runnable rt t s;
     (num, s) \<leftarrow> unblock_futex_queue rt q s;
     Some (num + 1, s)
   }"

definition futex_wake_one ::
  "'s runtime \<Rightarrow> (addr list \<Rightarrow> addr \<Rightarrow> addr list) \<Rightarrow> addr option \<Rightarrow> addr \<Rightarrow> futexes \<times> 's \<Rightarrow>
   (int \<times> futexes \<times> 's) option" where
  "futex_wake_one rt wfl_insert malloc uaddr = (\<lambda>(fx, s). do {
     (p, fx) \<leftarrow> get_futex_list wfl_insert malloc uaddr fx;
     l \<leftarrow> fx_heap fx p;
     (case stailq_pop (fl_tailq l) of
        (None, _) \<Rightarrow> Some (0, fx, s)
      | (Some e, q) \<Rightarrow> do {
          fx \<leftarrow> set_tailq p q fx;
          t \<leftarrow> fe_upthread e;
          s \<leftarrow> uthread_runnable rt t s;
          Some (1, fx, s)
        })
   })"

definition futex_wake_all ::
  "'s runtime \<Rightarrow> (addr list \<Rightarrow> addr \<Rightarrow> addr list) \<Rightarrow> addr option \<Rightarrow> addr \<Rightarrow> futexes \<times> 's \<Rightarrow>
   (int \<times> futexes \<times> 's) option" where
  "futex_wake_all rt wfl_insert malloc uaddr = (\<lambda>(fx, s). do {
     (p, fx) \<leftarrow> get_futex_list wfl_insert malloc uaddr fx;
     l \<leftarrow> fx_heap fx p;
     fx \<leftarrow> set_tailq p [] fx;
     (num, s) \<leftarrow> unblock_futex_queue rt (fl_tailq l) s;
     Some (num, fx, s)
   })"

text \<open>The while loop of \<open>futex_wake_some\<close>: \<open>q\<close> is the local queue, and \<open>count-- > 0\<close> is tested
  before the list is looked at.\<close>

fun take_count :: "int \<Rightarrow> futex_element list \<Rightarrow> futex_element list \<Rightarrow>
    futex_element list \<times> futex_element list" where
  "take_count cnt [] q = (q, [])"
| "take_count cnt (e # tailq) q =
     (if cnt > 0 then take_count (cnt - 1) tailq (q @ [e]) else (q, e # tailq))"

text \<open>The critical section of \<open>futex_wake_some\<close>, then the whole function.\<close>

definition futex_take ::
  "(addr list \<Rightarrow> addr \<Rightarrow> addr list) \<Rightarrow> addr option \<Rightarrow> addr \<Rightarrow> int \<Rightarrow> futexes \<Rightarrow>
   (futex_element list \<times> futexes) option" where
  "futex_take wfl_insert malloc uaddr cnt fx = do {
     (p, fx) \<leftarrow> get_futex_list wfl_insert malloc uaddr fx;
     l \<leftarrow> fx_heap fx p;
     (case take_count cnt (fl_tailq l) [] of
        (q, tailq) \<Rightarrow> do {
          fx \<leftarrow> set_tailq p tailq fx;
          Some (q, fx)
        })
   }"

definition futex_wake_some ::
  "'s runtime \<Rightarrow> (addr list \<Rightarrow> addr \<Rightarrow> addr list) \<Rightarrow> addr option \<Rightarrow> addr \<Rightarrow> int \<Rightarrow> futexes \<times> 's \<Rightarrow>
   (int \<times> futexes \<times> 's) option" where
  "futex_wake_some rt wfl_insert malloc uaddr cnt = (\<lambda>(fx, s). do {
     (q, fx) \<leftarrow> futex_take wfl_insert malloc uaddr cnt fx;
     (num, s) \<leftarrow> unblock_futex_queue rt q s;
     Some (num, fx, s)
   })"

text \<open>The macro \<open>futex_wake\<close>: \<open>constant_p\<close> is the compiler's \<open>__builtin_constant_p (count)\<close>.\<close>

definition futex_wake ::
  "'s runtime \<Rightarrow> (addr list \<Rightarrow> addr \<Rightarrow> addr list) \<Rightarrow> addr option \<Rightarrow> bool \<Rightarrow> addr \<Rightarrow> int \<Rightarrow> futexes \<times> 's \<Rightarrow>
   (int \<times> futexes \<times> 's) option" where
  "futex_wake rt wfl_insert malloc constant_p uaddr cnt =
     (if constant_p \<and> cnt = 1 then futex_wake_one rt wfl_insert malloc uaddr
      else if constant_p \<and> cnt = INT_MAX then futex_wake_all rt wfl_insert malloc uaddr
      else futex_wake_some rt wfl_insert malloc uaddr cnt)"

section \<open>The system call\<close>

text \<open>\<open>futex\<close>: the result is a wait that goes on (\<open>Inr\<close>), or a return value with the new
  \<open>errno\<close>, if it sets one.\<close>

definition futex ::
  "'s runtime \<Rightarrow> (addr list \<Rightarrow> addr \<Rightarrow> addr list) \<Rightarrow> addr option \<Rightarrow> addr \<Rightarrow> int \<Rightarrow> int \<Rightarrow> memory \<Rightarrow>
   futexes \<times> 's \<Rightarrow> (((int \<times> int option) + futex_element) \<times> futexes \<times> 's) option" where
  "futex rt wfl_insert malloc uaddr op val mem = (\<lambda>(fx, s).
     if op = 0 then do {
       (r, fx) \<leftarrow> futex_wait wfl_insert malloc uaddr val mem fx;
       Some (case r of Inl r \<Rightarrow> Inl (r, None) | Inr e \<Rightarrow> Inr e, fx, s)
     }
     else if op = 1 then do {
       (r, fx, s) \<leftarrow> futex_wake_some rt wfl_insert malloc uaddr val (fx, s);
       Some (Inl (r, None), fx, s)
     }
     else Some (Inl (-1, Some ENOSYS), fx, s))"

section \<open>One list for each address\<close>

text \<open>The invariant of the registry: every list in it is allocated, and no two are of the same
  address.\<close>

definition fx_ok :: "futexes \<Rightarrow> bool" where
  "fx_ok fx \<longleftrightarrow>
     distinct (fx_lists fx) \<and>
     (\<forall>p \<in> set (fx_lists fx). fx_heap fx p \<noteq> None) \<and>
     (\<forall>p \<in> set (fx_lists fx). \<forall>p' \<in> set (fx_lists fx). \<forall>l l'.
        fx_heap fx p = Some l \<longrightarrow> fx_heap fx p' = Some l' \<longrightarrow> fl_uaddr l = fl_uaddr l' \<longrightarrow> p = p')"

text \<open>What \<open>wfl_insert\<close> is documented to do: the list then visits one more element.\<close>

definition wfl_adds :: "(addr list \<Rightarrow> addr \<Rightarrow> addr list) \<Rightarrow> bool" where
  "wfl_adds wfl_insert \<longleftrightarrow> (\<forall>ps p. mset (wfl_insert ps p) = add_mset p (mset ps))"

lemma wfl_adds_set: "wfl_adds ins \<Longrightarrow> set (ins ps p) = insert p (set ps)"
  by (metis set_mset_add_mset_insert set_mset_mset wfl_adds_def)

lemma wfl_adds_distinct: "wfl_adds ins \<Longrightarrow> p \<notin> set ps \<Longrightarrow> distinct ps \<Longrightarrow> distinct (ins ps p)"
  by (metis distinct.simps(2) mset.simps(2) mset_eq_imp_distinct_iff wfl_adds_def)

lemma futex_scan_None:
  assumes "\<forall>p \<in> set ps. heap p \<noteq> None"
  shows "futex_scan heap uaddr ps = Some None \<longleftrightarrow> (\<forall>p \<in> set ps. \<forall>l. heap p = Some l \<longrightarrow> fl_uaddr l \<noteq> uaddr)"
  using assms by (induction ps) (auto split: if_splits)

lemma futex_scan_Some:
  "futex_scan heap uaddr ps = Some (Some p) \<Longrightarrow>
   p \<in> set ps \<and> (\<exists>l. heap p = Some l \<and> fl_uaddr l = uaddr)"
  by (induction ps) (auto split: option.splits if_splits)

lemma futex_scan_defined:
  "\<forall>p \<in> set ps. heap p \<noteq> None \<Longrightarrow> futex_scan heap uaddr ps \<noteq> None"
  by (induction ps) auto

text \<open>The list of an address, and the queue of sleepers on it.\<close>

definition fx_list_of :: "addr \<Rightarrow> futexes \<Rightarrow> addr option" where
  "fx_list_of uaddr fx = Option.bind (futex_scan (fx_heap fx) uaddr (fx_lists fx)) id"

definition fx_queue :: "addr \<Rightarrow> futexes \<Rightarrow> futex_element list" where
  "fx_queue uaddr fx =
     (case fx_list_of uaddr fx of
        None \<Rightarrow> []
      | Some p \<Rightarrow> (case fx_heap fx p of None \<Rightarrow> [] | Some l \<Rightarrow> fl_tailq l))"

lemma fx_list_of_Some:
  assumes "fx_ok fx"
  shows "fx_list_of uaddr fx = Some p \<longleftrightarrow>
         p \<in> set (fx_lists fx) \<and> (\<exists>l. fx_heap fx p = Some l \<and> fl_uaddr l = uaddr)"
proof
  assume "fx_list_of uaddr fx = Some p"
  then show "p \<in> set (fx_lists fx) \<and> (\<exists>l. fx_heap fx p = Some l \<and> fl_uaddr l = uaddr)"
    by (auto simp: fx_list_of_def bind_Some_conv dest: futex_scan_Some)
next
  assume p: "p \<in> set (fx_lists fx) \<and> (\<exists>l. fx_heap fx p = Some l \<and> fl_uaddr l = uaddr)"
  have al: "\<forall>p \<in> set (fx_lists fx). fx_heap fx p \<noteq> None" using assms by (simp add: fx_ok_def)
  with p futex_scan_None [OF al, of uaddr] futex_scan_defined [OF al, of uaddr] obtain p' where
    p': "futex_scan (fx_heap fx) uaddr (fx_lists fx) = Some (Some p')" by fastforce
  from futex_scan_Some [OF p'] p assms have "p' = p" unfolding fx_ok_def by metis
  with p' show "fx_list_of uaddr fx = Some p" by (simp add: fx_list_of_def)
qed

lemma fx_list_of_None:
  assumes "fx_ok fx"
  shows "fx_list_of uaddr fx = None \<longleftrightarrow> futex_scan (fx_heap fx) uaddr (fx_lists fx) = Some None"
  using futex_scan_defined [of "fx_lists fx" "fx_heap fx" uaddr] assms
  by (cases "futex_scan (fx_heap fx) uaddr (fx_lists fx)") (auto simp: fx_list_of_def fx_ok_def)

lemma get_futex_list_cases:
  assumes "get_futex_list ins malloc uaddr fx = Some (p, fx')"
  shows "(fx' = fx \<and> fx_list_of uaddr fx = Some p) \<or>
         (malloc = Some p \<and> fx_list_of uaddr fx = None \<and>
          fx' = fx\<lparr>fx_heap := (fx_heap fx)(p \<mapsto> \<lparr>fl_tailq = [], fl_uaddr = uaddr\<rparr>),
                    fx_lists := ins (fx_lists fx) p\<rparr>)"
proof -
  from assms obtain found where found: "futex_scan (fx_heap fx) uaddr (fx_lists fx) = Some found"
    by (auto simp: get_futex_list_def bind_Some_conv)
  show ?thesis
  proof (cases found)
    case None
    with assms found show ?thesis
      by (cases malloc) (simp_all add: get_futex_list_def futex_list_create_def fx_list_of_def)
  next
    case (Some q)
    with assms found show ?thesis by (simp add: get_futex_list_def fx_list_of_def)
  qed
qed

text \<open>A call of \<open>get_futex_list\<close> keeps the registry well-formed and returns the list of the
  address; a list that exists is found again, and no queue changes.\<close>

lemma get_futex_list_spec:
  assumes ok: "fx_ok fx" and ins: "wfl_adds ins"
    and fresh: "\<And>p. malloc = Some p \<Longrightarrow> fx_heap fx p = None"
    and get: "get_futex_list ins malloc uaddr fx = Some (p, fx')"
  shows "fx_ok fx'" and "fx_list_of uaddr fx' = Some p" and "\<And>a. fx_queue a fx' = fx_queue a fx"
    and "\<And>a p. fx_list_of a fx = Some p \<Longrightarrow> fx_list_of a fx' = Some p"
    and "\<And>q l. fx_heap fx q = Some l \<Longrightarrow> fx_heap fx' q = Some l"
proof -
  consider (old) "fx' = fx" "fx_list_of uaddr fx = Some p"
    | (new) "malloc = Some p" "fx_list_of uaddr fx = None"
      "fx' = fx\<lparr>fx_heap := (fx_heap fx)(p \<mapsto> \<lparr>fl_tailq = [], fl_uaddr = uaddr\<rparr>),
                fx_lists := ins (fx_lists fx) p\<rparr>"
    using get_futex_list_cases [OF get] by metis
  then have "fx_ok fx' \<and> fx_list_of uaddr fx' = Some p \<and> (\<forall>a. fx_queue a fx' = fx_queue a fx) \<and>
    (\<forall>a p. fx_list_of a fx = Some p \<longrightarrow> fx_list_of a fx' = Some p) \<and>
    (\<forall>q l. fx_heap fx q = Some l \<longrightarrow> fx_heap fx' q = Some l)"
  proof cases
    case old
    with ok show ?thesis by simp
  next
    case new
    have fr: "fx_heap fx p = None" using fresh new(1) by simp
    have np: "p \<notin> set (fx_lists fx)" using ok fr by (auto simp: fx_ok_def)
    have none: "\<forall>q \<in> set (fx_lists fx). \<forall>l. fx_heap fx q = Some l \<longrightarrow> fl_uaddr l \<noteq> uaddr"
      using new(2) ok futex_scan_None [of "fx_lists fx" "fx_heap fx" uaddr]
      by (simp add: fx_list_of_None fx_ok_def)
    have hp: "fx_heap fx' = (fx_heap fx)(p \<mapsto> \<lparr>fl_tailq = [], fl_uaddr = uaddr\<rparr>)"
      and ls': "fx_lists fx' = ins (fx_lists fx) p" using new(3) by simp_all
    then have ls: "set (fx_lists fx') = insert p (set (fx_lists fx))" by (simp add: wfl_adds_set [OF ins])
    have ok': "fx_ok fx'" unfolding fx_ok_def
    proof (intro conjI ballI allI impI)
      show "distinct (fx_lists fx')"
        using ok wfl_adds_distinct [OF ins np] by (simp add: hp ls' fx_ok_def)
    next
      fix q assume "q \<in> set (fx_lists fx')"
      then show "fx_heap fx' q \<noteq> None" using ok by (auto simp: hp ls fx_ok_def)
    next
      fix q q' l l'
      assume q: "q \<in> set (fx_lists fx')" "q' \<in> set (fx_lists fx')" "fx_heap fx' q = Some l"
        "fx_heap fx' q' = Some l'" "fl_uaddr l = fl_uaddr l'"
      show "q = q'"
      proof (cases "q = p \<or> q' = p")
        case True
        with q none show ?thesis by (fastforce simp: hp ls split: if_splits)
      next
        case False
        with q have "q \<in> set (fx_lists fx)" "q' \<in> set (fx_lists fx)" "fx_heap fx q = Some l"
          "fx_heap fx q' = Some l'" by (auto simp: hp ls)
        with ok q(5) show ?thesis unfolding fx_ok_def by blast
      qed
    qed
    moreover have lst: "fx_list_of uaddr fx' = Some p"
      unfolding fx_list_of_Some [OF ok'] by (simp add: hp ls)
    moreover have keep: "\<forall>q l. fx_heap fx q = Some l \<longrightarrow> fx_heap fx' q = Some l"
      using fr by (auto simp: hp ls)
    moreover have old: "\<forall>a q. fx_list_of a fx = Some q \<longrightarrow> fx_list_of a fx' = Some q"
      using np by (auto simp: fx_list_of_Some [OF ok'] fx_list_of_Some [OF ok] hp ls)
    moreover have "fx_queue a fx' = fx_queue a fx" for a
    proof (cases "fx_list_of a fx")
      case None
      have "fx_list_of a fx' = None" if "a \<noteq> uaddr"
      proof (rule ccontr)
        assume "fx_list_of a fx' \<noteq> None"
        then obtain q where "fx_list_of a fx' = Some q" by blast
        with that have "fx_list_of a fx = Some q"
          unfolding fx_list_of_Some [OF ok'] fx_list_of_Some [OF ok] by (auto simp: hp ls split: if_splits)
        with None show False by simp
      qed
      with None lst show ?thesis by (cases "a = uaddr") (simp_all add: fx_queue_def hp)
    next
      case (Some q)
      with old have "fx_list_of a fx' = Some q" by blast
      moreover obtain l where "fx_heap fx q = Some l" using Some fx_list_of_Some [OF ok] by blast
      ultimately show ?thesis using keep Some by (simp add: fx_queue_def)
    qed
    ultimately show ?thesis by blast
  qed
  then show "fx_ok fx'" and "fx_list_of uaddr fx' = Some p" and "\<And>a. fx_queue a fx' = fx_queue a fx"
    and "\<And>a p. fx_list_of a fx = Some p \<Longrightarrow> fx_list_of a fx' = Some p"
    and "\<And>q l. fx_heap fx q = Some l \<Longrightarrow> fx_heap fx' q = Some l" by blast+
qed

text \<open>Replacing the queue of an address leaves the registry and all other queues alone.\<close>

lemma set_tailq_spec:
  assumes ok: "fx_ok fx" and p: "fx_list_of uaddr fx = Some p"
  shows "\<exists>fx'. set_tailq p q fx = Some fx' \<and> fx_ok fx' \<and> fx_queue uaddr fx' = q \<and>
           (\<forall>a. a \<noteq> uaddr \<longrightarrow> fx_queue a fx' = fx_queue a fx) \<and>
           (\<forall>a. fx_list_of a fx' = fx_list_of a fx)"
proof -
  from p fx_list_of_Some [OF ok] obtain l where l: "fx_heap fx p = Some l" "fl_uaddr l = uaddr"
    "p \<in> set (fx_lists fx)" by blast
  let ?fx = "fx\<lparr>fx_heap := (fx_heap fx)(p \<mapsto> l\<lparr>fl_tailq := q\<rparr>)\<rparr>"
  have ok': "fx_ok ?fx" using ok l unfolding fx_ok_def by (auto split: if_splits)
  have same: "fx_list_of a ?fx = Some r \<longleftrightarrow> fx_list_of a fx = Some r" for a r
    using l by (auto simp: fx_list_of_Some [OF ok'] fx_list_of_Some [OF ok] split: if_splits)
  then have lst: "fx_list_of a ?fx = fx_list_of a fx" for a
    by (metis not_Some_eq)
  have "fx_queue a ?fx = fx_queue a fx" if "a \<noteq> uaddr" for a
    using that lst [of a] fx_list_of_Some [OF ok, of a p] l
    by (auto simp: fx_queue_def split: option.splits)
  moreover have "fx_queue uaddr ?fx = q" using p lst by (simp add: fx_queue_def)
  ultimately show ?thesis using ok' lst l by (simp add: set_tailq_def)
qed

lemma take_count_eq: "take_count cnt tailq q = (q @ take (nat cnt) tailq, drop (nat cnt) tailq)"
proof (induction cnt tailq q rule: take_count.induct)
  case (2 cnt e tailq q)
  then show ?case by (cases "cnt > 0") (auto simp: Suc_nat_eq_nat_zadd1 take_Cons' drop_Cons' nat_diff_distrib)
qed simp

section \<open>The three calls that wake\<close>

text \<open>Storing the queue that is already there.\<close>

lemma set_tailq_same: "fx_heap fx p = Some l \<Longrightarrow> set_tailq p (fl_tailq l) fx = Some fx"
  by (cases fx) (auto simp: set_tailq_def fun_upd_idem)

lemma futex_wake_one_some:
  "futex_wake_one rt ins malloc a (fx, s) = futex_wake_some rt ins malloc a 1 (fx, s)"
proof (cases "get_futex_list ins malloc a fx")
  case (Some r)
  then obtain p fx1 where g: "get_futex_list ins malloc a fx = Some (p, fx1)" by (cases r) auto
  show ?thesis
  proof (cases "fx_heap fx1 p")
    case (Some l)
    have "set_tailq p [] fx1 = Some fx1" if "fl_tailq l = []" using set_tailq_same [OF Some] that by simp
    with g Some show ?thesis
      by (cases "fl_tailq l")
        (auto simp: futex_wake_one_def futex_wake_some_def futex_take_def take_count_eq
          split: Option.bind_splits)
  qed (simp add: futex_wake_one_def futex_wake_some_def futex_take_def g)
qed (simp add: futex_wake_one_def futex_wake_some_def futex_take_def)

lemma futex_wake_all_some:
  assumes "\<And>p fx1 l. get_futex_list ins malloc a fx = Some (p, fx1) \<Longrightarrow> fx_heap fx1 p = Some l \<Longrightarrow>
             length (fl_tailq l) \<le> nat cnt"
  shows "futex_wake_all rt ins malloc a (fx, s) = futex_wake_some rt ins malloc a cnt (fx, s)"
  using assms
  by (auto simp: futex_wake_all_def futex_wake_some_def futex_take_def take_count_eq split: Option.bind_splits)

text \<open>The three calls that the macro chooses from do the same.\<close>

lemma futex_wake_eq:
  assumes "fx_ok fx" and "wfl_adds ins" and "\<And>p. malloc = Some p \<Longrightarrow> fx_heap fx p = None"
    and "int (length (fx_queue a fx)) \<le> INT_MAX"
  shows "futex_wake rt ins malloc constant_p a cnt (fx, s) = futex_wake_some rt ins malloc a cnt (fx, s)"
proof -
  have "length (fl_tailq l) \<le> nat INT_MAX"
    if g: "get_futex_list ins malloc a fx = Some (p, fx1)" "fx_heap fx1 p = Some l" for p fx1 l
  proof -
    note gs = get_futex_list_spec [OF assms(1-3) g(1)]
    have "fx_queue a fx1 = fl_tailq l" using gs(2) g(2) by (simp add: fx_queue_def)
    with gs(3) [of a] assms(4) show ?thesis by simp
  qed
  then have "futex_wake_all rt ins malloc a (fx, s) = futex_wake_some rt ins malloc a INT_MAX (fx, s)"
    by (rule futex_wake_all_some)
  then show ?thesis by (simp add: futex_wake_def futex_wake_one_some)
qed

end
