(* ===== verification/Semaphore.thy ===== *)
theory Semaphore
  imports Futex
begin

text \<open>
  Semaphores, \<^verbatim>\<open>src/common/semaphore.c\<close>, on top of the futexes. A semaphore is two \<open>int\<close>
  cells of user memory: \<open>value\<close> at its address, which is also the address the waiters sleep on,
  and \<open>nwaiters\<close> four bytes further. A null pointer is \<open>None\<close>.
\<close>

section \<open>Layout\<close>

abbreviation (input) sem_nwaiters_at :: "addr \<Rightarrow> addr" where
  "sem_nwaiters_at sem \<equiv> sem + 4"

text \<open>The two cells as the struct.\<close>

definition sem_at :: "memory \<Rightarrow> addr \<Rightarrow> upthread_sem_t option" where
  "sem_at mem sem = do {
     v \<leftarrow> mem sem;
     n \<leftarrow> mem (sem_nwaiters_at sem);
     Some \<lparr>sem_value = v, sem_nwaiters = n\<rparr>
   }"

section \<open>Initialisation\<close>

definition upthread_sem_init :: "addr option \<Rightarrow> int \<Rightarrow> int \<Rightarrow> memory \<Rightarrow> int \<times> memory" where
  "upthread_sem_init sem pshared cnt mem =
     (case sem of
        None \<Rightarrow> (EINVAL, mem)
      | Some a \<Rightarrow>
          if cnt < 0 then (EINVAL, mem)
          else (0, mem(a \<mapsto> cnt, sem_nwaiters_at a \<mapsto> 0)))"

definition upthread_sem_destroy :: "addr option \<Rightarrow> int" where
  "upthread_sem_destroy sem = 0"

section \<open>The counter\<close>

text \<open>The rest of a pass of the loop once \<open>value\<close> has been read: \<open>Some v\<close> is a return, \<open>None\<close>
  goes round again.\<close>

definition adip_pass :: "addr \<Rightarrow> int \<Rightarrow> memory \<Rightarrow> (int option \<times> memory) option" where
  "adip_pass pvalue v mem =
     (if v > 0 then do {
        cur \<leftarrow> mem pvalue;
        Some (if cur = v then (Some v, mem(pvalue \<mapsto> v - 1)) else (None, mem))
      }
      else Some (Some v, mem))"

text \<open>The loop; \<open>env k\<close> is what other threads do to the memory between the read and the compare
  and swap of pass \<open>k\<close>.\<close>

fun atomic_decrement_if_positive ::
  "(nat \<Rightarrow> memory \<Rightarrow> memory) \<Rightarrow> nat \<Rightarrow> nat \<Rightarrow> addr \<Rightarrow> memory \<Rightarrow> (int \<times> memory) option" where
  "atomic_decrement_if_positive env 0 k pvalue mem = None"
| "atomic_decrement_if_positive env (Suc fuel) k pvalue mem = do {
     v \<leftarrow> mem pvalue;
     (r, mem) \<leftarrow> adip_pass pvalue v (env k mem);
     (case r of
        Some v \<Rightarrow> Some (v, mem)
      | None \<Rightarrow> atomic_decrement_if_positive env fuel (Suc k) pvalue mem)
   }"

abbreviation (input) undisturbed :: "nat \<Rightarrow> memory \<Rightarrow> memory" where
  "undisturbed \<equiv> \<lambda>k mem. mem"

text \<open>\<open>__sync_fetch_and_add\<close> of 1.\<close>

definition fetch_and_inc :: "addr \<Rightarrow> memory \<Rightarrow> memory option" where
  "fetch_and_inc a mem = do {
     v \<leftarrow> mem a;
     Some (mem(a \<mapsto> wrap32 (v + 1)))
   }"

section \<open>Waiting\<close>

text \<open>The do-while loop of \<open>upthread_sem_wait\<close>, undisturbed by other threads, up to the point
  where the thread sleeps (\<open>Inr\<close>) or returns (\<open>Inl\<close>). A thread that was asleep goes on at
  \<open>sem_wait_woken\<close>.\<close>

fun sem_wait_loop ::
  "'s runtime \<Rightarrow> (addr list \<Rightarrow> addr \<Rightarrow> addr list) \<Rightarrow> addr option \<Rightarrow> nat \<Rightarrow> addr \<Rightarrow> memory \<Rightarrow>
   futexes \<times> 's \<Rightarrow> ((int + futex_element) \<times> memory \<times> futexes \<times> 's) option" where
  "sem_wait_loop rt ins malloc 0 sem mem w = None"
| "sem_wait_loop rt ins malloc (Suc fuel) sem mem w = do {
     (r, fx, s) \<leftarrow> futex rt ins malloc sem 0 0 mem w;
     (case r of
        Inr e \<Rightarrow> Some (Inr e, mem, fx, s)
      | Inl (ret, _) \<Rightarrow>
          if ret \<noteq> 0 then Some (Inl (-1), mem, fx, s)
          else do {
            (v, mem) \<leftarrow> atomic_decrement_if_positive undisturbed 1 0 sem mem;
            if v \<le> 0 then sem_wait_loop rt ins malloc fuel sem mem (fx, s)
            else Some (Inl 0, mem, fx, s)
          })
   }"

definition sem_wait_woken ::
  "'s runtime \<Rightarrow> (addr list \<Rightarrow> addr \<Rightarrow> addr list) \<Rightarrow> addr option \<Rightarrow> nat \<Rightarrow> addr \<Rightarrow> memory \<Rightarrow>
   futexes \<times> 's \<Rightarrow> ((int + futex_element) \<times> memory \<times> futexes \<times> 's) option" where
  "sem_wait_woken rt ins malloc fuel sem mem w = do {
     (v, mem) \<leftarrow> atomic_decrement_if_positive undisturbed 1 0 sem mem;
     if v \<le> 0 then sem_wait_loop rt ins malloc fuel sem mem w
     else Some (Inl 0, mem, fst w, snd w)
   }"

definition upthread_sem_wait ::
  "'s runtime \<Rightarrow> (addr list \<Rightarrow> addr \<Rightarrow> addr list) \<Rightarrow> addr option \<Rightarrow> nat \<Rightarrow> addr option \<Rightarrow> memory \<Rightarrow>
   futexes \<times> 's \<Rightarrow> ((int + futex_element) \<times> memory \<times> futexes \<times> 's) option" where
  "upthread_sem_wait rt ins malloc fuel sem mem w =
     (case sem of
        None \<Rightarrow> Some (Inl EINVAL, mem, fst w, snd w)
      | Some a \<Rightarrow> do {
          (v, mem) \<leftarrow> atomic_decrement_if_positive undisturbed 1 0 a mem;
          if v > 0 then Some (Inl 0, mem, fst w, snd w)
          else do {
            mem \<leftarrow> fetch_and_inc (sem_nwaiters_at a) mem;
            sem_wait_loop rt ins malloc fuel a mem w
          }
        })"

section \<open>Posting\<close>

definition upthread_sem_post ::
  "'s runtime \<Rightarrow> (addr list \<Rightarrow> addr \<Rightarrow> addr list) \<Rightarrow> addr option \<Rightarrow> addr option \<Rightarrow> memory \<Rightarrow>
   futexes \<times> 's \<Rightarrow> (int \<times> memory \<times> futexes \<times> 's) option" where
  "upthread_sem_post rt ins malloc sem mem w =
     (case sem of
        None \<Rightarrow> Some (EINVAL, mem, fst w, snd w)
      | Some a \<Rightarrow> do {
          mem \<leftarrow> fetch_and_inc a mem;
          n \<leftarrow> mem (sem_nwaiters_at a);
          if n > 0 then do {
            (r, fx, s) \<leftarrow> futex rt ins malloc a 1 1 mem w;
            (case r of
               Inl (ret, _) \<Rightarrow> Some (ret, mem, fx, s)
             | Inr _ \<Rightarrow> None)
          }
          else Some (0, mem, fst w, snd w)
        })"

section \<open>Facts\<close>

lemma adip_undisturbed:
  "mem a = Some v \<Longrightarrow>
   atomic_decrement_if_positive undisturbed (Suc fuel) k a mem =
     Some (v, if v > 0 then mem(a \<mapsto> v - 1) else mem)"
  by (simp add: adip_pass_def)

lemma fetch_and_inc_Some [simp]:
  "mem a = Some v \<Longrightarrow> fetch_and_inc a mem = Some (mem(a \<mapsto> wrap32 (v + 1)))"
  by (simp add: fetch_and_inc_def)

lemma plus4_neq [simp]: "(a :: addr) + 4 \<noteq> a" "(a :: addr) \<noteq> a + 4"
  by simp_all

text \<open>The value read by a pass of the loop decides whether the loop returns: it does unless another
  thread changed a positive value in between.\<close>

lemma adip_pass_cases:
  assumes "adip_pass a v mem = Some (r, mem')"
  obtains "v \<le> 0" and "r = Some v" and "mem' = mem"
  | "0 < v" and "mem a = Some v" and "r = Some v" and "mem' = mem(a \<mapsto> v - 1)"
  | "0 < v" and "mem a \<noteq> Some v" and "r = None" and "mem' = mem"
  using assms by (auto simp: adip_pass_def bind_Some_conv split: if_splits)

end
