(* ===== verification/Semaphore_System.thy ===== *)
theory Semaphore_System
  imports Semaphore
begin

text \<open>
  Any number of threads that wait on and post to one semaphore, on any scheduler. A step is one
  access to shared memory or one critical section of \<^verbatim>\<open>src/common/semaphore.c\<close> and
  \<^verbatim>\<open>src/common/futex.c\<close>, so the races between the counter, \<open>nwaiters\<close> and the futex are all
  there.
\<close>

section \<open>State\<close>

datatype spc =
    SIdle                        \<comment> \<open>outside\<close>
  | SFirst                       \<comment> \<open>about to read the value again, in the first decrement\<close>
  | SFirst_cas int               \<comment> \<open>has read the value\<close>
  | SFutex_check                 \<comment> \<open>about to call \<open>futex_wait\<close>\<close>
  | SFutex_yield futex_element   \<comment> \<open>about to run \<open>__futex_block\<close>\<close>
  | SAsleep                      \<comment> \<open>on the queue of the futex\<close>
  | SRetry                       \<comment> \<open>about to read the value, in the loop\<close>
  | SRetry_cas int
  | SPost_check                  \<comment> \<open>has added 1, about to read \<open>nwaiters\<close>\<close>
  | SPost_wake                   \<comment> \<open>about to take a sleeper off the queue\<close>

text \<open>
  \<open>sy_waking\<close>: taken off the queue, the call of \<open>uthread_runnable\<close> still to come. The last three
  fields are ghosts: how many posts and successful waits there were, and how often
  \<open>nwaiters\<close> was incremented.
\<close>

record 's semsys =
  sy_mem :: memory
  sy_fx :: futexes
  sy_sched :: 's
  sy_pc :: "upthread_t \<Rightarrow> spc"
  sy_waking :: "upthread_t set"
  sy_posts :: nat
  sy_waits :: nat
  sy_slow :: nat

section \<open>Steps\<close>

inductive sem_step ::
  "'s runtime \<Rightarrow> ('s \<Rightarrow> upthread_t set) \<Rightarrow> ('s \<Rightarrow> 's \<Rightarrow> bool) \<Rightarrow>
   (addr list \<Rightarrow> addr \<Rightarrow> addr list) \<Rightarrow> addr \<Rightarrow> 's semsys \<Rightarrow> 's semsys \<Rightarrow> bool"
  for rt :: "'s runtime" and running :: "'s \<Rightarrow> upthread_t set" and moves :: "'s \<Rightarrow> 's \<Rightarrow> bool"
    and ins :: "addr list \<Rightarrow> addr \<Rightarrow> addr list" and sem :: addr where
  s_first_read: "t \<in> running (sy_sched M) \<Longrightarrow> sy_pc M t = SIdle \<or> sy_pc M t = SFirst \<Longrightarrow>
    sy_mem M sem = Some v \<Longrightarrow>
    sem_step rt running moves ins sem M (M\<lparr>sy_pc := (sy_pc M)(t := SFirst_cas v)\<rparr>)"
| s_first_again: "t \<in> running (sy_sched M) \<Longrightarrow> sy_pc M t = SFirst_cas v \<Longrightarrow>
    adip_pass sem v (sy_mem M) = Some (None, mem') \<Longrightarrow>
    sem_step rt running moves ins sem M (M\<lparr>sy_mem := mem', sy_pc := (sy_pc M)(t := SFirst)\<rparr>)"
| s_first_ok: "t \<in> running (sy_sched M) \<Longrightarrow> sy_pc M t = SFirst_cas v \<Longrightarrow>
    adip_pass sem v (sy_mem M) = Some (Some r, mem') \<Longrightarrow> r > 0 \<Longrightarrow>
    sem_step rt running moves ins sem M
      (M\<lparr>sy_mem := mem', sy_pc := (sy_pc M)(t := SIdle), sy_waits := Suc (sy_waits M)\<rparr>)"
| s_first_slow: "t \<in> running (sy_sched M) \<Longrightarrow> sy_pc M t = SFirst_cas v \<Longrightarrow>
    adip_pass sem v (sy_mem M) = Some (Some r, mem') \<Longrightarrow> r \<le> 0 \<Longrightarrow>
    fetch_and_inc (sem_nwaiters_at sem) mem' = Some mem'' \<Longrightarrow>
    sem_step rt running moves ins sem M
      (M\<lparr>sy_mem := mem'', sy_pc := (sy_pc M)(t := SFutex_check), sy_slow := Suc (sy_slow M)\<rparr>)"
| s_futex_no: "t \<in> running (sy_sched M) \<Longrightarrow> sy_pc M t = SFutex_check \<Longrightarrow>
    futex_wait ins malloc sem 0 (sy_mem M) (sy_fx M) = Some (Inl r, fx') \<Longrightarrow>
    sem_step rt running moves ins sem M (M\<lparr>sy_fx := fx', sy_pc := (sy_pc M)(t := SRetry)\<rparr>)"
| s_futex_yes: "t \<in> running (sy_sched M) \<Longrightarrow> sy_pc M t = SFutex_check \<Longrightarrow>
    (\<And>p. malloc = Some p \<Longrightarrow> fx_heap (sy_fx M) p = None) \<Longrightarrow>
    futex_wait ins malloc sem 0 (sy_mem M) (sy_fx M) = Some (Inr e, fx') \<Longrightarrow>
    sem_step rt running moves ins sem M (M\<lparr>sy_fx := fx', sy_pc := (sy_pc M)(t := SFutex_yield e)\<rparr>)"
| s_futex_block: "t \<in> running (sy_sched M) \<Longrightarrow> sy_pc M t = SFutex_yield e \<Longrightarrow>
    futex_block rt t e (sy_mem M) (sy_fx M, sy_sched M) = Some (fx', s') \<Longrightarrow>
    sem_step rt running moves ins sem M
      (M\<lparr>sy_fx := fx', sy_sched := s',
         sy_pc := (sy_pc M)(t := (if sy_mem M sem = Some (fe_val e) then SAsleep else SRetry))\<rparr>)"
| s_retry_read: "t \<in> running (sy_sched M) \<Longrightarrow> sy_pc M t = SRetry \<Longrightarrow> sy_mem M sem = Some v \<Longrightarrow>
    sem_step rt running moves ins sem M (M\<lparr>sy_pc := (sy_pc M)(t := (if v > 0 then SRetry_cas v else SFutex_check))\<rparr>)"
| s_retry_again: "t \<in> running (sy_sched M) \<Longrightarrow> sy_pc M t = SRetry_cas v \<Longrightarrow>
    adip_pass sem v (sy_mem M) = Some (None, mem') \<Longrightarrow>
    sem_step rt running moves ins sem M (M\<lparr>sy_mem := mem', sy_pc := (sy_pc M)(t := SRetry)\<rparr>)"
| s_retry_ok: "t \<in> running (sy_sched M) \<Longrightarrow> sy_pc M t = SRetry_cas v \<Longrightarrow>
    adip_pass sem v (sy_mem M) = Some (Some r, mem') \<Longrightarrow> r > 0 \<Longrightarrow>
    sem_step rt running moves ins sem M
      (M\<lparr>sy_mem := mem', sy_pc := (sy_pc M)(t := SIdle), sy_waits := Suc (sy_waits M)\<rparr>)"
| s_post: "t \<in> running (sy_sched M) \<Longrightarrow> sy_pc M t = SIdle \<Longrightarrow>
    fetch_and_inc sem (sy_mem M) = Some mem' \<Longrightarrow>
    sem_step rt running moves ins sem M
      (M\<lparr>sy_mem := mem', sy_pc := (sy_pc M)(t := SPost_check), sy_posts := Suc (sy_posts M)\<rparr>)"
| s_post_check: "t \<in> running (sy_sched M) \<Longrightarrow> sy_pc M t = SPost_check \<Longrightarrow>
    sy_mem M (sem_nwaiters_at sem) = Some n \<Longrightarrow>
    sem_step rt running moves ins sem M
      (M\<lparr>sy_pc := (sy_pc M)(t := (if n > 0 then SPost_wake else SIdle))\<rparr>)"
| s_post_take: "t \<in> running (sy_sched M) \<Longrightarrow> sy_pc M t = SPost_wake \<Longrightarrow>
    (\<And>p. malloc = Some p \<Longrightarrow> fx_heap (sy_fx M) p = None) \<Longrightarrow>
    futex_take ins malloc sem 1 (sy_fx M) = Some (q, fx') \<Longrightarrow>
    sem_step rt running moves ins sem M
      (M\<lparr>sy_fx := fx',
         sy_pc := (\<lambda>x. if x = t then SIdle else if Some x \<in> fe_upthread ` set q then SRetry
                       else sy_pc M x),
         sy_waking := sy_waking M \<union> {x. Some x \<in> fe_upthread ` set q}\<rparr>)"
| s_wake: "w \<in> sy_waking M \<Longrightarrow> uthread_runnable rt w (sy_sched M) = Some s' \<Longrightarrow>
    sem_step rt running moves ins sem M (M\<lparr>sy_sched := s', sy_waking := sy_waking M - {w}\<rparr>)"
| s_preempt: "t \<in> running (sy_sched M) \<Longrightarrow> uthread_paused rt t (sy_sched M) = Some s' \<Longrightarrow>
    sem_step rt running moves ins sem M (M\<lparr>sy_sched := s'\<rparr>)"
| s_sched: "moves (sy_sched M) s' \<Longrightarrow> sem_step rt running moves ins sem M (M\<lparr>sy_sched := s'\<rparr>)"

text \<open>A semaphore that was just initialised with \<open>n\<close>, and no thread in a call.\<close>

definition sem_start :: "('s \<Rightarrow> bool) \<Rightarrow> addr \<Rightarrow> int \<Rightarrow> 's semsys \<Rightarrow> bool" where
  "sem_start sinv sem n M \<longleftrightarrow>
     (\<exists>mem. upthread_sem_init (Some sem) 0 n mem = (0, sy_mem M)) \<and>
     sy_fx M = futexes_init \<and> sinv (sy_sched M) \<and> sy_pc M = (\<lambda>_. SIdle) \<and> sy_waking M = {} \<and>
     sy_posts M = 0 \<and> sy_waits M = 0 \<and> sy_slow M = 0"

section \<open>The invariant\<close>

text \<open>Neither counter has wrapped around.\<close>

definition sem_bounded :: "int \<Rightarrow> 's semsys \<Rightarrow> bool" where
  "sem_bounded n M \<longleftrightarrow> n + int (sy_posts M) \<le> INT_MAX \<and> int (sy_slow M) \<le> INT_MAX"

text \<open>The threads that will still look at the value or take a sleeper off the queue.\<close>

fun sem_active :: "spc \<Rightarrow> bool" where
  "sem_active SRetry = True"
| "sem_active (SRetry_cas v) = True"
| "sem_active SPost_check = True"
| "sem_active SPost_wake = True"
| "sem_active _ = False"

text \<open>Past the increment of \<open>nwaiters\<close>.\<close>

fun sem_slow :: "spc \<Rightarrow> bool" where
  "sem_slow SFutex_check = True"
| "sem_slow (SFutex_yield e) = True"
| "sem_slow SAsleep = True"
| "sem_slow SRetry = True"
| "sem_slow (SRetry_cas v) = True"
| "sem_slow _ = False"

definition count_pc :: "(spc \<Rightarrow> bool) \<Rightarrow> (upthread_t \<Rightarrow> spc) \<Rightarrow> nat" where
  "count_pc P f = card {t. P (f t)}"

text \<open>The queue holds exactly the sleeping threads; sleepers and threads still to be woken are
  blocked in the scheduler; an element a thread is about to queue belongs to the list of the
  semaphore.\<close>

definition sem_queue_ok :: "addr \<Rightarrow> 's semsys \<Rightarrow> bool" where
  "sem_queue_ok sem M \<longleftrightarrow>
     fx_ok (sy_fx M) \<and>
     (\<forall>e \<in> set (fx_queue sem (sy_fx M)). fe_upthread e \<noteq> None) \<and>
     distinct (map fe_upthread (fx_queue sem (sy_fx M))) \<and>
     fe_upthread ` set (fx_queue sem (sy_fx M)) = Some ` {t. sy_pc M t = SAsleep} \<and>
     (\<forall>w \<in> sy_waking M. sy_pc M w = SRetry) \<and>
     (\<forall>t e. sy_pc M t = SFutex_yield e \<longrightarrow>
        fx_list_of sem (sy_fx M) = Some (fe_list e) \<and> fe_val e = 0)"

text \<open>
  The counters are what the ghosts say; and while somebody sleeps, the value is at most the number
  of threads that are still going to act on it.
\<close>

definition sem_count_ok :: "addr \<Rightarrow> int \<Rightarrow> 's semsys \<Rightarrow> bool" where
  "sem_count_ok sem n M \<longleftrightarrow>
     (\<exists>v w. sy_mem M sem = Some v \<and> sy_mem M (sem_nwaiters_at sem) = Some w \<and>
        (sem_bounded n M \<longrightarrow>
           0 \<le> v \<and> v = n + int (sy_posts M) - int (sy_waits M) \<and> w = int (sy_slow M) \<and>
           ({t. sy_pc M t = SAsleep} \<noteq> {} \<longrightarrow> v \<le> int (count_pc sem_active (sy_pc M))))) \<and>
     ((\<exists>t. sem_slow (sy_pc M t)) \<longrightarrow> 0 < sy_slow M)"

definition sem_asleep :: "'s semsys \<Rightarrow> upthread_t set" where
  "sem_asleep M = {t. sy_pc M t = SAsleep} \<union> sy_waking M"

definition sem_inv ::
  "('s \<Rightarrow> bool) \<Rightarrow> ('s \<Rightarrow> upthread_t set) \<Rightarrow> addr \<Rightarrow> int \<Rightarrow> 's semsys \<Rightarrow> bool" where
  "sem_inv sinv blocked sem n M \<longleftrightarrow>
     sinv (sy_sched M) \<and> sem_asleep M \<subseteq> blocked (sy_sched M) \<and> sem_queue_ok sem M \<and>
     sem_count_ok sem n M"

lemma count_pc_upd:
  "count_pc P (f(t := p)) + (if P (f t) then 1 else 0) = count_pc P f + (if P p then 1 else 0)"
proof -
  define A where "A = {x. P (f x) \<and> x \<noteq> t}"
  have A: "t \<notin> A" "finite A" by (simp_all add: A_def)
  have split: "{x. P (g x)} = (if P (g t) then insert t A else A)" if "\<And>x. x \<noteq> t \<Longrightarrow> g x = f x" for g
    using that by (cases "P (g t)") (auto simp: A_def, metis)
  have "card {x. P (g x)} = card A + (if P (g t) then 1 else 0)" if "\<And>x. x \<noteq> t \<Longrightarrow> g x = f x" for g
    using A split [OF that] by simp
  from this [of f] this [of "f(t := p)"] show ?thesis by (simp add: count_pc_def)
qed

lemma count_pc_pos: "count_pc P f > 0 \<longleftrightarrow> (\<exists>t. P (f t))"
  by (auto simp: count_pc_def card_gt_0_iff)

lemma fx_init: "fx_ok futexes_init" "fx_queue a futexes_init = []" "fx_list_of a futexes_init = None"
  by (simp_all add: fx_ok_def futexes_init_def fx_queue_def fx_list_of_def)

lemma sem_start_inv:
  assumes "sem_start sinv sem n M"
  shows "sem_inv sinv blocked sem n M"
proof -
  from assms obtain mem where "upthread_sem_init (Some sem) 0 n mem = (0, sy_mem M)"
    by (auto simp: sem_start_def)
  then have "0 \<le> n" "sy_mem M = mem(sem \<mapsto> n, sem_nwaiters_at sem \<mapsto> 0)"
    by (simp_all add: upthread_sem_init_def split: if_splits)
  then have n: "0 \<le> n" "sy_mem M sem = Some n" "sy_mem M (sem_nwaiters_at sem) = Some 0"
    by simp_all
  with assms show ?thesis
    by (auto simp: sem_start_def sem_inv_def sem_asleep_def sem_queue_ok_def sem_count_ok_def fx_init)
qed

section \<open>Every step keeps the invariant\<close>

text \<open>A step of one thread that neither falls asleep nor wakes anybody.\<close>

lemma sem_count_upd:
  assumes cnt: "sem_count_ok sem n M"
    and cells: "sy_mem M sem = Some v" "sy_mem M (sem_nwaiters_at sem) = Some w"
      "sy_mem M' sem = Some v'" "sy_mem M' (sem_nwaiters_at sem) = Some w'"
    and pc: "sy_pc M' = (sy_pc M)(t := p)" "sy_pc M t \<noteq> SAsleep" "p \<noteq> SAsleep"
    and mono: "sy_posts M \<le> sy_posts M'" "sy_slow M \<le> sy_slow M'" "sem_slow p \<Longrightarrow> 0 < sy_slow M'"
    and ghost: "sem_bounded n M' \<Longrightarrow> 0 \<le> v \<Longrightarrow> v = n + int (sy_posts M) - int (sy_waits M) \<Longrightarrow>
      w = int (sy_slow M) \<Longrightarrow>
      0 \<le> v' \<and> v' = n + int (sy_posts M') - int (sy_waits M') \<and> w' = int (sy_slow M')"
    and active: "\<And>c. sem_bounded n M' \<Longrightarrow> {t. sy_pc M t = SAsleep} \<noteq> {} \<Longrightarrow> 0 < sy_slow M \<Longrightarrow>
      w = int (sy_slow M) \<Longrightarrow> 0 \<le> v \<Longrightarrow> v = n + int (sy_posts M) - int (sy_waits M) \<Longrightarrow> v \<le> int c \<Longrightarrow>
      v' \<le> 0 \<or> v' + (if sem_active (sy_pc M t) then 1 else 0) \<le> int c + (if sem_active p then 1 else 0)"
  shows "sem_count_ok sem n M'"
proof -
  have sleep: "{t. sy_pc M' t = SAsleep} = {t. sy_pc M t = SAsleep}" using pc by auto
  have slow: "(\<exists>t. sem_slow (sy_pc M' t)) \<longrightarrow> 0 < sy_slow M'"
    using cnt mono(2,3) pc(1) by (auto simp: sem_count_ok_def split: if_splits)
  have "0 \<le> v' \<and> v' = n + int (sy_posts M') - int (sy_waits M') \<and> w' = int (sy_slow M') \<and>
      ({t. sy_pc M' t = SAsleep} \<noteq> {} \<longrightarrow> v' \<le> int (count_pc sem_active (sy_pc M')))"
    if b: "sem_bounded n M'"
  proof -
    have "sem_bounded n M" using b mono(1,2) by (simp add: sem_bounded_def)
    with cnt cells have old: "0 \<le> v" "v = n + int (sy_posts M) - int (sy_waits M)" "w = int (sy_slow M)"
      "{t. sy_pc M t = SAsleep} \<noteq> {} \<longrightarrow> v \<le> int (count_pc sem_active (sy_pc M))"
      by (auto simp: sem_count_ok_def)
    have "v' \<le> int (count_pc sem_active (sy_pc M'))" if s: "{t. sy_pc M t = SAsleep} \<noteq> {}"
    proof -
      from s obtain u where "sy_pc M u = SAsleep" by blast
      then have "sem_slow (sy_pc M u)" by simp
      then have "0 < sy_slow M" using cnt by (auto simp: sem_count_ok_def)
      from active [OF b s this old(3,1,2) old(4) [rule_format, OF s]] show ?thesis
        using count_pc_upd [of sem_active "sy_pc M" t p] pc(1) by (auto split: if_splits)
    qed
    with ghost [OF b old(1-3)] sleep show ?thesis by simp
  qed
  with slow cells show ?thesis unfolding sem_count_ok_def by blast
qed

context two_level_scheduler
begin

lemma sem_running_awake:
  assumes "sem_inv sinv blocked sem n M" and "t \<in> running (sy_sched M)"
  shows "sy_pc M t \<noteq> SAsleep" and "t \<notin> sy_waking M"
proof -
  have "t \<notin> sem_asleep M" using assms blocked_not_running by (auto simp: sem_inv_def)
  then show "sy_pc M t \<noteq> SAsleep" "t \<notin> sy_waking M" by (auto simp: sem_asleep_def)
qed

lemma sem_local_inv:
  assumes inv: "sem_inv sinv blocked sem n M" and t: "t \<in> running (sy_sched M)"
    and M': "sy_fx M' = sy_fx M" "sinv (sy_sched M')" "blocked (sy_sched M') = blocked (sy_sched M)"
      "sy_waking M' = sy_waking M" "sy_pc M' = (sy_pc M)(t := p)"
    and p: "p \<noteq> SAsleep" "\<And>e. p \<noteq> SFutex_yield e" and cnt: "sem_count_ok sem n M'"
  shows "sem_inv sinv blocked sem n M'"
proof -
  note awake = sem_running_awake [OF inv t]
  have sleep: "{t. sy_pc M' t = SAsleep} = {t. sy_pc M t = SAsleep}" using M'(5) awake p by auto
  then have "sem_queue_ok sem M'" using inv awake p M'
    by (auto simp: sem_inv_def sem_queue_ok_def split: if_splits)
  with inv cnt sleep M' show ?thesis by (simp add: sem_inv_def sem_asleep_def)
qed

lemma sem_cells:
  assumes "sem_inv sinv blocked sem n M"
  obtains v w where "sy_mem M sem = Some v" and "sy_mem M (sem_nwaiters_at sem) = Some w"
    and "sem_count_ok sem n M" and "sinv (sy_sched M)"
  using assms by (auto simp: sem_inv_def sem_count_ok_def)

lemma sem_slow_pos:
  "sem_count_ok sem n M \<Longrightarrow> sem_slow (sy_pc M t) \<Longrightarrow> 0 < sy_slow M"
  unfolding sem_count_ok_def by blast

text \<open>A successful decrement.\<close>

lemma sem_dec_inv:
  assumes inv: "sem_inv sinv blocked sem n M" and t: "t \<in> running (sy_sched M)"
    and dec: "adip_pass sem v0 (sy_mem M) = Some (Some r, mem')" "r > 0"
    and pc: "sy_pc M t = SFirst_cas v0 \<or> sy_pc M t = SRetry_cas v0"
  shows "sem_inv sinv blocked sem n
           (M\<lparr>sy_mem := mem', sy_pc := (sy_pc M)(t := SIdle), sy_waits := Suc (sy_waits M)\<rparr>)"
proof -
  from dec have mem: "0 < v0" "sy_mem M sem = Some v0" "mem' = (sy_mem M)(sem \<mapsto> v0 - 1)"
    by (auto elim: adip_pass_cases)
  from sem_cells [OF inv] obtain w where w: "sy_mem M (sem_nwaiters_at sem) = Some w"
    "sem_count_ok sem n M" "sinv (sy_sched M)" by blast
  show ?thesis
    by (rule sem_local_inv [OF inv t _ _ _ _ _ _ _ sem_count_upd [OF w(2) mem(2) w(1),
            where p = SIdle and t = t and v' = "v0 - 1" and w' = w]])
      (use mem w pc in \<open>auto simp: sem_bounded_def\<close>)
qed

text \<open>A thread moves on without changing the counters.\<close>

lemma sem_move_inv:
  assumes inv: "sem_inv sinv blocked sem n M" and t: "t \<in> running (sy_sched M)"
    and p: "p \<noteq> SAsleep" "\<And>e. p \<noteq> SFutex_yield e" "sem_slow p \<Longrightarrow> sem_slow (sy_pc M t)"
    and act: "sem_active (sy_pc M t) \<Longrightarrow> \<not> sem_active p \<Longrightarrow> sy_mem M sem = Some v \<and> v \<le> 0"
  shows "sem_inv sinv blocked sem n (M\<lparr>sy_pc := (sy_pc M)(t := p)\<rparr>)"
proof -
  from sem_cells [OF inv] obtain v0 w where w: "sy_mem M sem = Some v0"
    "sy_mem M (sem_nwaiters_at sem) = Some w" "sem_count_ok sem n M" "sinv (sy_sched M)" .
  have "sem_slow p \<Longrightarrow> 0 < sy_slow M" using p(3) w(3) by (auto simp: sem_count_ok_def)
  then show ?thesis
    by (intro sem_local_inv [OF inv t _ _ _ _ _ _ _ sem_count_upd [OF w(3,1,2),
            where p = p and t = t and v' = v0 and w' = w]])
      (use p w act sem_running_awake [OF inv t] in \<open>auto simp: sem_bounded_def\<close>)
qed

lemma sem_post_inv:
  assumes inv: "sem_inv sinv blocked sem n M" and t: "t \<in> running (sy_sched M)"
    and pc: "sy_pc M t = SIdle" and add: "fetch_and_inc sem (sy_mem M) = Some mem'"
  shows "sem_inv sinv blocked sem n
           (M\<lparr>sy_mem := mem', sy_pc := (sy_pc M)(t := SPost_check), sy_posts := Suc (sy_posts M)\<rparr>)"
proof -
  from sem_cells [OF inv] obtain v w where w: "sy_mem M sem = Some v"
    "sy_mem M (sem_nwaiters_at sem) = Some w" "sem_count_ok sem n M" "sinv (sy_sched M)" .
  have mem': "mem' = (sy_mem M)(sem \<mapsto> wrap32 (v + 1))" using add w(1) by simp
  have wrap: "wrap32 (v + 1) = v + 1" if "n + (1 + int (sy_posts M)) \<le> INT_MAX" "0 \<le> v"
    "v = n + int (sy_posts M) - int (sy_waits M)"
    using that by (intro wrap32_id) simp_all
  show ?thesis
    by (rule sem_local_inv [OF inv t _ _ _ _ _ _ _ sem_count_upd [OF w(3,1,2),
            where p = SPost_check and t = t and v' = "wrap32 (v + 1)" and w' = w]])
      (use w pc mem' wrap in \<open>auto simp: sem_bounded_def\<close>)
qed

lemma sem_slow_inv:
  assumes inv: "sem_inv sinv blocked sem n M" and t: "t \<in> running (sy_sched M)"
    and pc: "sy_pc M t = SFirst_cas v0" and rd: "adip_pass sem v0 (sy_mem M) = Some (Some r, mem')" "r \<le> 0"
    and add: "fetch_and_inc (sem_nwaiters_at sem) mem' = Some mem''"
  shows "sem_inv sinv blocked sem n
           (M\<lparr>sy_mem := mem'', sy_pc := (sy_pc M)(t := SFutex_check), sy_slow := Suc (sy_slow M)\<rparr>)"
proof -
  from sem_cells [OF inv] obtain v w where w: "sy_mem M sem = Some v"
    "sy_mem M (sem_nwaiters_at sem) = Some w" "sem_count_ok sem n M" "sinv (sy_sched M)" .
  have "mem' = sy_mem M" using rd by (auto elim: adip_pass_cases)
  then have mem'': "mem'' = (sy_mem M)(sem_nwaiters_at sem \<mapsto> wrap32 (w + 1))" using add w(2) by simp
  have wrap: "wrap32 (int k + 1) = 1 + int k" if "1 + int k \<le> INT_MAX" for k
    using that by (simp add: wrap32_id)
  show ?thesis
    by (rule sem_local_inv [OF inv t _ _ _ _ _ _ _ sem_count_upd [OF w(3,1,2),
            where p = SFutex_check and t = t and v' = v and w' = "wrap32 (w + 1)"]])
      (use w pc mem'' wrap in \<open>auto simp: sem_bounded_def\<close>)
qed

lemma sem_check_inv:
  assumes inv: "sem_inv sinv blocked sem n M" and t: "t \<in> running (sy_sched M)"
    and pc: "sy_pc M t = SPost_check" and nw: "sy_mem M (sem_nwaiters_at sem) = Some k"
  shows "sem_inv sinv blocked sem n
           (M\<lparr>sy_pc := (sy_pc M)(t := (if k > 0 then SPost_wake else SIdle))\<rparr>)"
proof -
  from sem_cells [OF inv] obtain v w where w: "sy_mem M sem = Some v"
    "sy_mem M (sem_nwaiters_at sem) = Some k" "sem_count_ok sem n M" "sinv (sy_sched M)"
    using nw by blast
  show ?thesis
    by (rule sem_local_inv [OF inv t _ _ _ _ _ _ _ sem_count_upd [OF w(3,1,2),
            where p = "if k > 0 then SPost_wake else SIdle" and t = t and v' = v and w' = k]])
      (use w pc in \<open>auto simp: sem_bounded_def split: if_splits\<close>)
qed

lemma sem_yield_inv:
  assumes inv: "sem_inv sinv blocked sem n M" and t: "t \<in> running (sy_sched M)"
    and pc: "sy_pc M t = SFutex_check" and ins: "wfl_adds ins"
    and fresh: "\<And>p. malloc = Some p \<Longrightarrow> fx_heap (sy_fx M) p = None"
    and fw: "futex_wait ins malloc sem 0 (sy_mem M) (sy_fx M) = Some (Inr e, fx')"
  shows "sem_inv sinv blocked sem n (M\<lparr>sy_fx := fx', sy_pc := (sy_pc M)(t := SFutex_yield e)\<rparr>)"
    (is "sem_inv _ _ _ _ ?M")
proof -
  from sem_cells [OF inv] obtain v w where w: "sy_mem M sem = Some v"
    "sy_mem M (sem_nwaiters_at sem) = Some w" "sem_count_ok sem n M" "sinv (sy_sched M)" .
  from fw obtain p where get: "get_futex_list ins malloc sem (sy_fx M) = Some (p, fx')"
    and e: "fe_list e = p" "fe_val e = 0"
    by (auto simp: futex_wait_def bind_Some_conv split: if_splits)
  have fx: "fx_ok (sy_fx M)" using inv by (simp add: sem_inv_def sem_queue_ok_def)
  note new = get_futex_list_spec [OF fx ins fresh get]
  note awake = sem_running_awake [OF inv t]
  have sleep: "{u. sy_pc ?M u = SAsleep} = {u. sy_pc M u = SAsleep}" using awake by auto
  have "sem_queue_ok sem ?M" unfolding sem_queue_ok_def
  proof (intro conjI)
    show "\<forall>u e. sy_pc ?M u = SFutex_yield e \<longrightarrow> fx_list_of sem (sy_fx ?M) = Some (fe_list e) \<and> fe_val e = 0"
      using inv new(2,4) e by (auto simp: sem_inv_def sem_queue_ok_def)
    show "fe_upthread ` set (fx_queue sem (sy_fx ?M)) = Some ` {t. sy_pc ?M t = SAsleep}"
      using inv sleep new(3) by (simp add: sem_inv_def sem_queue_ok_def)
  qed (use inv new awake in \<open>auto simp: sem_inv_def sem_queue_ok_def\<close>)
  moreover have "sem_count_ok sem n ?M"
    by (rule sem_count_upd [OF w(3,1,2), where p = "SFutex_yield e" and t = t and v' = v and w' = w])
      (use w pc awake sem_slow_pos [OF w(3), of t] in \<open>auto simp: sem_bounded_def\<close>)
  ultimately show ?thesis using inv sleep by (simp add: sem_inv_def sem_asleep_def)
qed

lemma sem_yield_elem:
  assumes inv: "sem_inv sinv blocked sem n M" and pc: "sy_pc M t = SFutex_yield e"
  obtains l where "fx_list_of sem (sy_fx M) = Some (fe_list e)" and "fe_val e = 0"
    and "fx_heap (sy_fx M) (fe_list e) = Some l" and "fl_uaddr l = sem"
    and "fx_queue sem (sy_fx M) = fl_tailq l" and "fx_ok (sy_fx M)"
proof -
  from inv pc have e: "fx_list_of sem (sy_fx M) = Some (fe_list e)" "fe_val e = 0" "fx_ok (sy_fx M)"
    by (auto simp: sem_inv_def sem_queue_ok_def)
  with that fx_list_of_Some [OF e(3)] show thesis by (auto simp: fx_queue_def)
qed

lemma sem_block_inv:
  assumes inv: "sem_inv sinv blocked sem n M" and t: "t \<in> running (sy_sched M)"
    and pc: "sy_pc M t = SFutex_yield e"
    and blk: "futex_block rt t e (sy_mem M) (sy_fx M, sy_sched M) = Some (fx', s')"
  shows "sem_inv sinv blocked sem n
           (M\<lparr>sy_fx := fx', sy_sched := s',
              sy_pc := (sy_pc M)(t := (if sy_mem M sem = Some (fe_val e) then SAsleep else SRetry))\<rparr>)"
    (is "sem_inv _ _ _ _ ?M")
proof -
  from sem_cells [OF inv] obtain v w where w: "sy_mem M sem = Some v"
    "sy_mem M (sem_nwaiters_at sem) = Some w" "sem_count_ok sem n M" "sinv (sy_sched M)" .
  from sem_yield_elem [OF inv pc] obtain l where l: "fx_list_of sem (sy_fx M) = Some (fe_list e)"
    "fe_val e = 0" "fx_heap (sy_fx M) (fe_list e) = Some l" "fl_uaddr l = sem"
    "fx_queue sem (sy_fx M) = fl_tailq l" "fx_ok (sy_fx M)" .
  note awake = sem_running_awake [OF inv t]
  show ?thesis
  proof (cases "v = 0")
    case True
    from set_tailq_spec [OF l(6,1)] obtain fx1 where
      fx1: "set_tailq (fe_list e) (fl_tailq l @ [e\<lparr>fe_upthread := Some t\<rparr>]) (sy_fx M) = Some fx1"
        "fx_ok fx1" "fx_queue sem fx1 = fl_tailq l @ [e\<lparr>fe_upthread := Some t\<rparr>]"
        "\<And>a. fx_list_of a fx1 = fx_list_of a (sy_fx M)" by blast
    with blk l w True have hb: "uthread_has_blocked rt t UTH_EXT_BLK_MUTEX (sy_sched M) = Some s'"
      and fx': "fx' = fx1" by (auto simp: futex_block_def bind_Some_conv)
    from has_blockedE [OF hb w(4) t] have s': "sinv s'" "blocked s' = insert t (blocked (sy_sched M))"
      by blast+
    have M: "sy_pc ?M = (sy_pc M)(t := SAsleep)" using True w(1) l(2) by simp
    have q: "fe_upthread ` set (fl_tailq l) = Some ` {t. sy_pc M t = SAsleep}"
      using inv l(5) by (simp add: sem_inv_def sem_queue_ok_def)
    have "Some t \<notin> fe_upthread ` set (fl_tailq l)" using q awake(1) by auto
    moreover have "{u. ((sy_pc M)(t := SAsleep)) u = SAsleep} = insert t {u. sy_pc M u = SAsleep}" by auto
    ultimately have "sem_queue_ok sem ?M" using inv awake fx1 fx' q l(5) unfolding sem_queue_ok_def M
      by (auto simp: sem_inv_def sem_queue_ok_def)
    moreover have "sem_count_ok sem n ?M"
      using w True sem_slow_pos [OF w(3), of t] pc unfolding sem_count_ok_def M
      by (auto simp: sem_bounded_def)
    ultimately show ?thesis using inv s' M by (auto simp: sem_inv_def sem_asleep_def)
  next
    case False
    with blk l w have ps: "uthread_paused rt t (sy_sched M) = Some s'" "fx' = sy_fx M"
      by (auto simp: futex_block_def bind_Some_conv)
    from pausedE [OF ps(1) w(4) t] have s': "sinv s'" "blocked s' = blocked (sy_sched M)" by blast+
    show ?thesis
      by (rule sem_local_inv [OF inv t _ _ _ _ _ _ _ sem_count_upd [OF w(3,1,2),
              where p = SRetry and t = t and v' = v and w' = w]])
        (use w pc ps s' l(2) False sem_slow_pos [OF w(3), of t] in \<open>auto simp: sem_bounded_def\<close>)
  qed
qed

lemma futex_take_spec:
  assumes ok: "fx_ok fx" and ins: "wfl_adds ins"
    and fresh: "\<And>p. malloc = Some p \<Longrightarrow> fx_heap fx p = None"
    and tk: "futex_take ins malloc a cnt fx = Some (q, fx')"
  shows "fx_ok fx'" and "q = take (nat cnt) (fx_queue a fx)"
    and "fx_queue a fx' = drop (nat cnt) (fx_queue a fx)"
    and "\<And>b. b \<noteq> a \<Longrightarrow> fx_queue b fx' = fx_queue b fx"
    and "\<And>b p. fx_list_of b fx = Some p \<Longrightarrow> fx_list_of b fx' = Some p"
proof -
  from tk obtain p fx1 l where get: "get_futex_list ins malloc a fx = Some (p, fx1)"
    and l: "fx_heap fx1 p = Some l" and q: "q = take (nat cnt) (fl_tailq l)"
    and st: "set_tailq p (drop (nat cnt) (fl_tailq l)) fx1 = Some fx'"
    by (auto simp: futex_take_def bind_Some_conv take_count_eq)
  note g = get_futex_list_spec [OF ok ins fresh get]
  have "fx_queue a fx1 = fl_tailq l" using g(2) l by (simp add: fx_queue_def)
  then have ql: "fx_queue a fx = fl_tailq l" by (simp add: g(3))
  from set_tailq_spec [OF g(1,2)] st have
    "fx_ok fx'" "fx_queue a fx' = drop (nat cnt) (fl_tailq l)"
    "\<And>b. b \<noteq> a \<Longrightarrow> fx_queue b fx' = fx_queue b fx1" "\<And>b. fx_list_of b fx' = fx_list_of b fx1"
    by (metis option.inject)+
  with g q ql show "fx_ok fx'" and "q = take (nat cnt) (fx_queue a fx)"
    and "fx_queue a fx' = drop (nat cnt) (fx_queue a fx)"
    and "\<And>b. b \<noteq> a \<Longrightarrow> fx_queue b fx' = fx_queue b fx"
    and "\<And>b p. fx_list_of b fx = Some p \<Longrightarrow> fx_list_of b fx' = Some p"
    by simp_all
qed

lemma sem_take_inv:
  assumes inv: "sem_inv sinv blocked sem n M" and t: "t \<in> running (sy_sched M)"
    and pc: "sy_pc M t = SPost_wake" and ins: "wfl_adds ins"
    and fresh: "\<And>p. malloc = Some p \<Longrightarrow> fx_heap (sy_fx M) p = None"
    and tk: "futex_take ins malloc sem 1 (sy_fx M) = Some (q, fx')"
  shows "sem_inv sinv blocked sem n
           (M\<lparr>sy_fx := fx',
              sy_pc := (\<lambda>x. if x = t then SIdle else if Some x \<in> fe_upthread ` set q then SRetry
                            else sy_pc M x),
              sy_waking := sy_waking M \<union> {x. Some x \<in> fe_upthread ` set q}\<rparr>)"
    (is "sem_inv _ _ _ _ ?M")
proof -
  from sem_cells [OF inv] obtain v w where w: "sy_mem M sem = Some v"
    "sy_mem M (sem_nwaiters_at sem) = Some w" "sem_count_ok sem n M" "sinv (sy_sched M)" .
  have qok: "sem_queue_ok sem M" and fx: "fx_ok (sy_fx M)"
    using inv by (simp_all add: sem_inv_def sem_queue_ok_def)
  note new = futex_take_spec [OF fx ins fresh tk]
  note awake = sem_running_awake [OF inv t]
  have Q: "fe_upthread ` set (fx_queue sem (sy_fx M)) = Some ` {u. sy_pc M u = SAsleep}"
    using qok by (simp add: sem_queue_ok_def)
  show ?thesis
  proof (cases "fx_queue sem (sy_fx M)")
    case Nil
    with new have q: "q = []" and Q': "fx_queue sem fx' = []" by simp_all
    have none: "{u. sy_pc M u = SAsleep} = {}" using Q Nil by auto
    have M: "sy_pc ?M = (sy_pc M)(t := SIdle)" using q by auto
    have "sem_queue_ok sem ?M" using qok new(1,5) none Q' q awake unfolding sem_queue_ok_def M
      by (auto split: if_splits)
    moreover have "sem_count_ok sem n ?M"
      by (rule sem_count_upd [OF w(3,1,2), where p = SIdle and t = t and v' = v and w' = w])
        (use w pc none M in \<open>auto simp: sem_bounded_def\<close>)
    ultimately show ?thesis using inv q unfolding sem_inv_def sem_asleep_def M by auto
  next
    case (Cons e es)
    with new have q: "q = [e]" and Q': "fx_queue sem fx' = es" by simp_all
    from Q Cons obtain u where u: "fe_upthread e = Some u" "sy_pc M u = SAsleep" by auto
    with awake have ut: "u \<noteq> t" by auto
    have M: "sy_pc ?M = (sy_pc M)(t := SIdle, u := SRetry)" using q u ut by auto
    have wk: "sy_waking ?M = insert u (sy_waking M)" using q u by auto
    have slp: "{x. ((sy_pc M)(t := SIdle, u := SRetry)) x = SAsleep} = {x. sy_pc M x = SAsleep} - {u}"
      using awake ut by auto
    have "Some u \<notin> fe_upthread ` set es" using qok Cons u by (simp add: sem_queue_ok_def)
    then have "fe_upthread ` set es = insert (Some u) (fe_upthread ` set es) - {Some u}" by blast
    moreover have "insert (Some u) (fe_upthread ` set es) = Some ` {x. sy_pc M x = SAsleep}"
      using Q Cons u(1) by simp
    ultimately have es: "fe_upthread ` set es = Some ` ({x. sy_pc M x = SAsleep} - {u})"
      by (simp add: image_set_diff [OF inj_Some])
    have "sem_queue_ok sem ?M" unfolding sem_queue_ok_def M wk
    proof (intro conjI)
      show "fe_upthread ` set (fx_queue sem (sy_fx ?M)) =
          Some ` {x. ((sy_pc M)(t := SIdle, u := SRetry)) x = SAsleep}"
        unfolding slp using es Q' by simp
    qed (use qok Cons new(1,5) Q' awake ut u in \<open>auto simp: sem_queue_ok_def split: if_splits\<close>)
    moreover have "sem_count_ok sem n ?M"
    proof -
      have "count_pc sem_active ((sy_pc M)(t := SIdle, u := SRetry)) = count_pc sem_active (sy_pc M)"
        using count_pc_upd [of sem_active "sy_pc M" t SIdle] u ut pc
          count_pc_upd [of sem_active "(sy_pc M)(t := SIdle)" u SRetry] by simp
      then show ?thesis using w sem_slow_pos [OF w(3), of u] u unfolding sem_count_ok_def M
        by (auto simp: sem_bounded_def)
    qed
    moreover have "u \<in> blocked (sy_sched M)" using inv u(2) by (auto simp: sem_inv_def sem_asleep_def)
    ultimately show ?thesis using inv unfolding sem_inv_def sem_asleep_def M wk slp by auto
  qed
qed

lemma sem_wake_inv:
  assumes inv: "sem_inv sinv blocked sem n M" and x: "x \<in> sy_waking M"
    and run: "uthread_runnable rt x (sy_sched M) = Some s'"
  shows "sem_inv sinv blocked sem n (M\<lparr>sy_sched := s', sy_waking := sy_waking M - {x}\<rparr>)"
proof -
  from inv x have "sinv (sy_sched M)" "x \<in> blocked (sy_sched M)"
    by (auto simp: sem_inv_def sem_asleep_def)
  from runnableE [OF run this] have "sinv s'" "blocked s' = blocked (sy_sched M) - {x}" by blast+
  moreover from inv x have "sy_pc M x = SRetry" by (simp add: sem_inv_def sem_queue_ok_def)
  ultimately show ?thesis using inv
    by (auto simp: sem_inv_def sem_queue_ok_def sem_count_ok_def sem_bounded_def sem_asleep_def)
qed

lemma sem_sched_inv:
  assumes "sem_inv sinv blocked sem n M" and "sinv s'" and "blocked s' = blocked (sy_sched M)"
  shows "sem_inv sinv blocked sem n (M\<lparr>sy_sched := s'\<rparr>)"
  using assms
  by (simp add: sem_inv_def sem_queue_ok_def sem_count_ok_def sem_bounded_def sem_asleep_def)

lemma sem_step_inv:
  assumes "sem_step rt running moves ins sem M M'" and "sem_inv sinv blocked sem n M" and "wfl_adds ins"
  shows "sem_inv sinv blocked sem n M'"
  using assms
proof (induction rule: sem_step.induct)
  case (s_first_read t M v)
  then show ?case by (intro sem_move_inv) auto
next
  case (s_first_again t M v mem')
  then have "mem' = sy_mem M" by (auto elim: adip_pass_cases)
  with s_first_again show ?case using sem_move_inv [of sem n M t SFirst] by auto
next
  case (s_first_ok t M v r mem')
  then show ?case by (intro sem_dec_inv) auto
next
  case (s_first_slow t M v r mem' mem'')
  then show ?case by (intro sem_slow_inv)
next
  case (s_futex_no t M malloc r fx')
  then have "fx' = sy_fx M" by (auto simp: futex_wait_def bind_Some_conv split: if_splits)
  with s_futex_no show ?case using sem_move_inv [of sem n M t SRetry] by auto
next
  case (s_futex_yes t M malloc e fx')
  then show ?case by (intro sem_yield_inv)
next
  case (s_futex_block t M e fx' s')
  then show ?case by (intro sem_block_inv)
next
  case (s_retry_read t M v)
  then show ?case by (intro sem_move_inv) (auto split: if_splits)
next
  case (s_retry_again t M v mem')
  then have "mem' = sy_mem M" by (auto elim: adip_pass_cases)
  with s_retry_again show ?case using sem_move_inv [of sem n M t SRetry] by auto
next
  case (s_retry_ok t M v r mem')
  then show ?case by (intro sem_dec_inv) auto
next
  case (s_post t M mem')
  then show ?case by (intro sem_post_inv)
next
  case (s_post_check t M k)
  then show ?case by (intro sem_check_inv)
next
  case (s_post_take t M malloc q fx')
  then show ?case by (intro sem_take_inv)
next
  case (s_wake w M s')
  then show ?case by (intro sem_wake_inv)
next
  case (s_preempt t M s')
  then have "sinv (sy_sched M)" by (simp add: sem_inv_def)
  from pausedE [OF s_preempt(2) this s_preempt(1)] s_preempt(3) show ?case
    by (blast intro: sem_sched_inv)
next
  case (s_sched M s')
  then have "sinv (sy_sched M)" by (simp add: sem_inv_def)
  from moves_spec [OF s_sched(1) this] s_sched(2) show ?case by (blast intro: sem_sched_inv)
qed

lemma sem_reachable_inv:
  assumes "reachable (sem_start sinv sem n) (sem_step rt running moves ins sem) M" and "wfl_adds ins"
  shows "sem_inv sinv blocked sem n M"
  using assms(1) by (rule reachable_invariant) (auto intro: sem_start_inv sem_step_inv [OF _ _ assms(2)])

section \<open>What follows from the invariant\<close>

lemma sem_conservation:
  assumes "reachable (sem_start sinv sem n) (sem_step rt running moves ins sem) M" and "wfl_adds ins"
    and "sem_bounded n M"
  shows "sy_mem M sem = Some (n + int (sy_posts M) - int (sy_waits M)) \<and>
         int (sy_waits M) \<le> n + int (sy_posts M)"
  using sem_reachable_inv [OF assms(1,2)] assms(3) by (auto simp: sem_inv_def sem_count_ok_def)

lemma sem_no_lost_wakeup:
  assumes "reachable (sem_start sinv sem n) (sem_step rt running moves ins sem) M" and "wfl_adds ins"
    and "sem_bounded n M" and "sy_pc M t = SAsleep" and "sy_mem M sem = Some v"
  shows "v \<le> int (card {u. sem_active (sy_pc M u)})"
proof -
  have "{t. sy_pc M t = SAsleep} \<noteq> {}" using assms(4) by blast
  with sem_reachable_inv [OF assms(1,2)] assms(3,5) show ?thesis
    by (auto simp: sem_inv_def sem_count_ok_def count_pc_def)
qed

end

end
