(* ===== verification/Barrier.thy ===== *)
theory Barrier
  imports Runtime
begin

text \<open>
  Barriers, \<^verbatim>\<open>src/common/barrier.c\<close>. Threads that arrive spin on a flag of their own and then go
  to sleep on one of two queues; the last one to arrive opens the barrier, and the two
  values of \<open>wait\<close> tell one use from the next. A call of \<open>upthread_barrier_wait\<close> is modelled as
  the sequence of its accesses to shared memory (\<open>bar_step\<close>).
\<close>

section \<open>Attributes, creation, destruction\<close>

definition upthread_barrierattr_init :: int where
  "upthread_barrierattr_init = 0"

definition upthread_barrierattr_destroy :: int where
  "upthread_barrierattr_destroy = 0"

text \<open>\<open>cells0\<close> and \<open>cells1\<close> are the contents of the two arrays that \<open>malloc\<close> returned; neither
  allocation is checked by the code.\<close>

definition upthread_barrier_init ::
  "upthread_t list \<Rightarrow> upthread_t list \<Rightarrow> int \<Rightarrow> int \<times> upthread_barrier_t" where
  "upthread_barrier_init cells0 cells1 n =
     (0, \<lparr>bar_N = n, bar_arrived = 0, bar_wait = False, bar_signals = replicate (nat n) False,
          bar_blocked = [\<lparr>cq_queue = cells0, cq_len = 0, cq_maxlen = n\<rparr>,
                         \<lparr>cq_queue = cells1, cq_len = 0, cq_maxlen = n\<rparr>]\<rparr>)"

text \<open>The freed arrays have no cells left.\<close>

definition upthread_barrier_destroy :: "upthread_barrier_t \<Rightarrow> int \<times> upthread_barrier_t" where
  "upthread_barrier_destroy b =
     (0, b\<lparr>bar_signals := [], bar_blocked := map (\<lambda>q. q\<lparr>cq_queue := []\<rparr>) (bar_blocked b)\<rparr>)"

section \<open>Accesses to the barrier\<close>

text \<open>\<open>barrier->blocked[wait]\<close>\<close>

definition blocked_at :: "bool \<Rightarrow> upthread_barrier_t \<Rightarrow> contextq_t" where
  "blocked_at w b = bar_blocked b ! (if w then 1 else 0)"

definition set_blocked_at :: "bool \<Rightarrow> contextq_t \<Rightarrow> upthread_barrier_t \<Rightarrow> upthread_barrier_t" where
  "set_blocked_at w q b = b\<lparr>bar_blocked := (bar_blocked b)[(if w then 1 else 0) := q]\<rparr>"

definition signal_at :: "int \<Rightarrow> upthread_barrier_t \<Rightarrow> bool option" where
  "signal_at i b =
     (if 0 \<le> i \<and> i < int (length (bar_signals b)) then Some (bar_signals b ! nat i) else None)"

definition set_signal_at :: "int \<Rightarrow> bool \<Rightarrow> upthread_barrier_t \<Rightarrow> upthread_barrier_t option" where
  "set_signal_at i v b =
     (if 0 \<le> i \<and> i < int (length (bar_signals b))
      then Some (b\<lparr>bar_signals := (bar_signals b)[nat i := v]\<rparr>) else None)"

definition cell_at :: "int \<Rightarrow> contextq_t \<Rightarrow> upthread_t option" where
  "cell_at i q = (if 0 \<le> i \<and> i < int (length (cq_queue q)) then Some (cq_queue q ! nat i) else None)"

text \<open>The atomic increment of \<open>arrived\<close>: the identifier drawn is the old value.\<close>

definition barrier_arrive :: "upthread_barrier_t \<Rightarrow> int \<times> upthread_barrier_t" where
  "barrier_arrive b = (bar_arrived b, b\<lparr>bar_arrived := wrap32 (bar_arrived b + 1)\<rparr>)"

text \<open>The callback of a thread that goes to sleep; the assertion on \<open>maxlen\<close> checks nothing.\<close>

definition barrier_block ::
  "'s runtime \<Rightarrow> upthread_t \<Rightarrow> contextq_t \<Rightarrow> 's \<Rightarrow> (contextq_t \<times> 's) option" where
  "barrier_block rt t q s = do {
     s \<leftarrow> uthread_has_blocked rt t UTH_EXT_BLK_MUTEX s;
     _ \<leftarrow> cell_at (cq_len q) q;
     len \<leftarrow> int_inc (cq_len q);
     Some (q\<lparr>cq_queue := (cq_queue q)[nat (cq_len q) := t], cq_len := len\<rparr>, s)
   }"

section \<open>A call of \<open>upthread_barrier_wait\<close>\<close>

text \<open>Where a thread is in the call; \<open>w\<close> is the local \<open>wait\<close>, \<open>k\<close> its identifier, \<open>n\<close> the number of
  stalls.\<close>

datatype bpc =
    BIdle                      \<comment> \<open>outside\<close>
  | BRead bool                 \<comment> \<open>has read \<open>wait\<close>\<close>
  | BSpin bool int int         \<comment> \<open>about to test its flag\<close>
  | BStall bool int int        \<comment> \<open>has stalled often enough, about to lock the queue\<close>
  | BHeld bool int int         \<comment> \<open>has the lock, has seen its flag unset, about to sleep\<close>
  | BAsleep bool int int       \<comment> \<open>on the queue\<close>
  | BReset bool                \<comment> \<open>arrived last, about to reset \<open>arrived\<close>\<close>
  | BFlip bool                 \<comment> \<open>about to flip \<open>wait\<close>\<close>
  | BSignal bool int           \<comment> \<open>in the loop that sets the flags\<close>
  | BRelease bool              \<comment> \<open>about to lock the queue\<close>
  | BWaking bool int           \<comment> \<open>has the lock, in the loop that wakes the sleepers\<close>

abbreviation (input) MAXSTALLS :: int where "MAXSTALLS \<equiv> 1000"

text \<open>A sleeper that is woken goes back to its loop.\<close>

fun woken :: "bpc \<Rightarrow> bpc" where
  "woken (BAsleep w k n) = BSpin w k n"
| "woken pc = pc"

text \<open>
  The state of a barrier in use: the scheduler below, the two locks, and ghosts: the thread that is
  opening the barrier, how often \<open>wait\<close> was flipped, and how often each thread has arrived and
  returned.
\<close>

record 's barsys =
  br_bar :: upthread_barrier_t
  br_sched :: 's
  br_pc :: "upthread_t \<Rightarrow> bpc"
  br_lock :: "bool \<Rightarrow> upthread_t option"
  br_lead :: "upthread_t option"
  br_gen :: nat
  br_arr :: "upthread_t \<Rightarrow> nat"
  br_ret :: "upthread_t \<Rightarrow> nat"

text \<open>
  One rule for each access to shared memory, for the threads in \<open>P\<close>. Taking the lock of a queue and
  the access that follows are one step; the sleeper keeps the lock until its callback has queued
  it, as the code does.
\<close>

inductive bar_step ::
  "'s runtime \<Rightarrow> ('s \<Rightarrow> upthread_t set) \<Rightarrow> ('s \<Rightarrow> 's \<Rightarrow> bool) \<Rightarrow> upthread_t set \<Rightarrow>
   's barsys \<Rightarrow> 's barsys \<Rightarrow> bool"
  for rt :: "'s runtime" and running :: "'s \<Rightarrow> upthread_t set" and moves :: "'s \<Rightarrow> 's \<Rightarrow> bool"
    and P :: "upthread_t set" where
  b_enter: "t \<in> P \<Longrightarrow> t \<in> running (br_sched B) \<Longrightarrow> br_pc B t = BIdle \<Longrightarrow>
    bar_step rt running moves P B (B\<lparr>br_pc := (br_pc B)(t := BRead (bar_wait (br_bar B)))\<rparr>)"
| b_arrive: "t \<in> running (br_sched B) \<Longrightarrow> br_pc B t = BRead w \<Longrightarrow>
    barrier_arrive (br_bar B) = (k, b) \<Longrightarrow> k \<noteq> bar_N b - 1 \<Longrightarrow>
    bar_step rt running moves P B (B\<lparr>br_bar := b, br_pc := (br_pc B)(t := BSpin w k 0),
      br_arr := (br_arr B)(t := Suc (br_arr B t))\<rparr>)"
| b_last: "t \<in> running (br_sched B) \<Longrightarrow> br_pc B t = BRead w \<Longrightarrow>
    barrier_arrive (br_bar B) = (k, b) \<Longrightarrow> k = bar_N b - 1 \<Longrightarrow>
    bar_step rt running moves P B (B\<lparr>br_bar := b, br_pc := (br_pc B)(t := BReset w), br_lead := Some t,
      br_arr := (br_arr B)(t := Suc (br_arr B t))\<rparr>)"
| b_leave: "t \<in> running (br_sched B) \<Longrightarrow> br_pc B t = BSpin w k n \<Longrightarrow>
    signal_at k (br_bar B) = Some v \<Longrightarrow> v \<noteq> w \<Longrightarrow>
    bar_step rt running moves P B (B\<lparr>br_pc := (br_pc B)(t := BIdle),
      br_ret := (br_ret B)(t := Suc (br_ret B t))\<rparr>)"
| b_stall: "t \<in> running (br_sched B) \<Longrightarrow> br_pc B t = BSpin w k n \<Longrightarrow>
    signal_at k (br_bar B) = Some w \<Longrightarrow> int_inc n = Some n' \<Longrightarrow>
    bar_step rt running moves P B (B\<lparr>br_pc := (br_pc B)(t :=
      (if n' \<ge> MAXSTALLS then BStall w k n' else BSpin w k n'))\<rparr>)"
| b_lock: "t \<in> running (br_sched B) \<Longrightarrow> br_pc B t = BStall w k n \<Longrightarrow> br_lock B w = None \<Longrightarrow>
    signal_at k (br_bar B) = Some w \<Longrightarrow>
    bar_step rt running moves P B (B\<lparr>br_pc := (br_pc B)(t := BHeld w k n),
      br_lock := (br_lock B)(w := Some t)\<rparr>)"
| b_lock_late: "t \<in> running (br_sched B) \<Longrightarrow> br_pc B t = BStall w k n \<Longrightarrow> br_lock B w = None \<Longrightarrow>
    signal_at k (br_bar B) = Some v \<Longrightarrow> v \<noteq> w \<Longrightarrow>
    bar_step rt running moves P B (B\<lparr>br_pc := (br_pc B)(t := BSpin w k n)\<rparr>)"
| b_block: "t \<in> running (br_sched B) \<Longrightarrow> br_pc B t = BHeld w k n \<Longrightarrow>
    barrier_block rt t (blocked_at w (br_bar B)) (br_sched B) = Some (q, s') \<Longrightarrow>
    bar_step rt running moves P B (B\<lparr>br_bar := set_blocked_at w q (br_bar B), br_sched := s',
      br_pc := (br_pc B)(t := BAsleep w k n), br_lock := (br_lock B)(w := None)\<rparr>)"
| b_reset: "t \<in> running (br_sched B) \<Longrightarrow> br_pc B t = BReset w \<Longrightarrow>
    bar_step rt running moves P B (B\<lparr>br_bar := (br_bar B)\<lparr>bar_arrived := 0\<rparr>,
      br_pc := (br_pc B)(t := BFlip w)\<rparr>)"
| b_flip: "t \<in> running (br_sched B) \<Longrightarrow> br_pc B t = BFlip w \<Longrightarrow>
    bar_step rt running moves P B (B\<lparr>br_bar := (br_bar B)\<lparr>bar_wait := \<not> bar_wait (br_bar B)\<rparr>,
      br_pc := (br_pc B)(t := BSignal w 0), br_gen := Suc (br_gen B)\<rparr>)"
| b_signal: "t \<in> running (br_sched B) \<Longrightarrow> br_pc B t = BSignal w i \<Longrightarrow> i < bar_N (br_bar B) \<Longrightarrow>
    set_signal_at i (\<not> w) (br_bar B) = Some b \<Longrightarrow>
    bar_step rt running moves P B (B\<lparr>br_bar := b, br_pc := (br_pc B)(t := BSignal w (i + 1))\<rparr>)"
| b_signalled: "t \<in> running (br_sched B) \<Longrightarrow> br_pc B t = BSignal w i \<Longrightarrow> \<not> i < bar_N (br_bar B) \<Longrightarrow>
    bar_step rt running moves P B (B\<lparr>br_pc := (br_pc B)(t := BRelease w)\<rparr>)"
| b_release: "t \<in> running (br_sched B) \<Longrightarrow> br_pc B t = BRelease w \<Longrightarrow> br_lock B w = None \<Longrightarrow>
    bar_step rt running moves P B (B\<lparr>br_pc := (br_pc B)(t := BWaking w 0),
      br_lock := (br_lock B)(w := Some t)\<rparr>)"
| b_wake: "t \<in> running (br_sched B) \<Longrightarrow> br_pc B t = BWaking w i \<Longrightarrow>
    i < cq_len (blocked_at w (br_bar B)) \<Longrightarrow> cell_at i (blocked_at w (br_bar B)) = Some u \<Longrightarrow>
    uthread_runnable rt u (br_sched B) = Some s' \<Longrightarrow>
    bar_step rt running moves P B (B\<lparr>br_sched := s',
      br_pc := (br_pc B)(u := woken (br_pc B u), t := BWaking w (i + 1))\<rparr>)"
| b_done: "t \<in> running (br_sched B) \<Longrightarrow> br_pc B t = BWaking w i \<Longrightarrow>
    \<not> i < cq_len (blocked_at w (br_bar B)) \<Longrightarrow>
    bar_step rt running moves P B (B\<lparr>
      br_bar := set_blocked_at w ((blocked_at w (br_bar B))\<lparr>cq_len := 0\<rparr>) (br_bar B),
      br_pc := (br_pc B)(t := BIdle), br_lock := (br_lock B)(w := None), br_lead := None,
      br_ret := (br_ret B)(t := Suc (br_ret B t))\<rparr>)"
| b_preempt: "t \<in> running (br_sched B) \<Longrightarrow> uthread_paused rt t (br_sched B) = Some s' \<Longrightarrow>
    bar_step rt running moves P B (B\<lparr>br_sched := s'\<rparr>)"
| b_sched: "moves (br_sched B) s' \<Longrightarrow> bar_step rt running moves P B (B\<lparr>br_sched := s'\<rparr>)"

text \<open>A barrier just initialised for the number of threads in \<open>P\<close>.\<close>

definition bar_start :: "('s \<Rightarrow> bool) \<Rightarrow> upthread_t set \<Rightarrow> 's barsys \<Rightarrow> bool" where
  "bar_start sinv P B \<longleftrightarrow>
     finite P \<and> P \<noteq> {} \<and> int (card P) \<le> INT_MAX \<and>
     (\<exists>c0 c1. length c0 = card P \<and> length c1 = card P \<and>
        upthread_barrier_init c0 c1 (int (card P)) = (0, br_bar B)) \<and>
     sinv (br_sched B) \<and> br_pc B = (\<lambda>_. BIdle) \<and> br_lock B = (\<lambda>_. None) \<and> br_lead B = None \<and>
     br_gen B = 0 \<and> br_arr B = (\<lambda>_. 0) \<and> br_ret B = (\<lambda>_. 0)"

end
