(* ===== verification/Barrier_Round.thy ===== *)
theory Barrier_Round
  imports Barrier
begin

text \<open>
  The rounds of a barrier: which thread has drawn which identifier, which flags are set, and that
  no thread can run ahead. This part of the invariant does not mention the queues or the
  scheduler.
\<close>

section \<open>The invariant\<close>

text \<open>The local \<open>wait\<close> and the identifier of a thread that waits.\<close>

fun bwait :: "bpc \<Rightarrow> (bool \<times> int) option" where
  "bwait (BSpin w k n) = Some (w, k)"
| "bwait (BStall w k n) = Some (w, k)"
| "bwait (BHeld w k n) = Some (w, k)"
| "bwait (BAsleep w k n) = Some (w, k)"
| "bwait _ = None"

fun is_opening :: "bpc \<Rightarrow> bool" where
  "is_opening (BReset w) = True"
| "is_opening (BFlip w) = True"
| "is_opening (BSignal w i) = True"
| "is_opening (BRelease w) = True"
| "is_opening (BWaking w i) = True"
| "is_opening _ = False"

text \<open>The threads that wait in the current round, and those that were released by the last flip of
  \<open>wait\<close> and have not left yet.\<close>

definition current :: "'s barsys \<Rightarrow> upthread_t set" where
  "current B = {t. \<exists>k. bwait (br_pc B t) = Some (odd (br_gen B), k)}"

definition released :: "'s barsys \<Rightarrow> upthread_t set" where
  "released B = {t. \<exists>k. bwait (br_pc B t) = Some (even (br_gen B), k)}"

definition bid :: "'s barsys \<Rightarrow> upthread_t \<Rightarrow> int" where
  "bid B t = snd (the (bwait (br_pc B t)))"

definition lead_pc :: "'s barsys \<Rightarrow> bpc" where
  "lead_pc B = (case br_lead B of None \<Rightarrow> BIdle | Some l \<Rightarrow> br_pc B l)"

text \<open>How many identifiers of the current round are with a waiting thread.\<close>

fun gathered :: "bpc \<Rightarrow> upthread_barrier_t \<Rightarrow> int" where
  "gathered (BReset w) b = bar_N b - 1"
| "gathered (BFlip w) b = bar_N b - 1"
| "gathered _ b = bar_arrived b"

fun flags :: "bpc \<Rightarrow> nat \<Rightarrow> int \<Rightarrow> bool list" where
  "flags (BSignal w i) g n = replicate (nat i) (odd g) @ replicate (nat (n - i)) (even g)"
| "flags _ g n = replicate (nat n) (odd g)"

text \<open>What a thread has counted, in each place, after \<open>g\<close> flips.\<close>

fun pc_ok :: "nat \<Rightarrow> int \<Rightarrow> bpc \<Rightarrow> nat \<Rightarrow> nat \<Rightarrow> bool" where
  "pc_ok g m BIdle a r = (a = g \<and> r = g)"
| "pc_ok g m (BRead w) a r = (a = g \<and> r = g \<and> w = odd g)"
| "pc_ok g m (BReset w) a r = (w = odd g \<and> a = Suc g \<and> r = g)"
| "pc_ok g m (BFlip w) a r = (w = odd g \<and> a = Suc g \<and> r = g)"
| "pc_ok g m (BSignal w i) a r = (w = even g \<and> a = g \<and> g = Suc r \<and> 0 \<le> i \<and> i \<le> m)"
| "pc_ok g m (BRelease w) a r = (w = even g \<and> a = g \<and> g = Suc r)"
| "pc_ok g m (BWaking w i) a r = (w = even g \<and> a = g \<and> g = Suc r)"
| "pc_ok g m (BSpin w k n) a r = (if w = odd g then a = Suc g \<and> r = g else a = g \<and> g = Suc r)"
| "pc_ok g m (BStall w k n) a r = (if w = odd g then a = Suc g \<and> r = g else a = g \<and> g = Suc r)"
| "pc_ok g m (BHeld w k n) a r = (if w = odd g then a = Suc g \<and> r = g else a = g \<and> g = Suc r)"
| "pc_ok g m (BAsleep w k n) a r = (if w = odd g then a = Suc g \<and> r = g else a = g \<and> g = Suc r)"

definition round_shape :: "upthread_t set \<Rightarrow> 's barsys \<Rightarrow> bool" where
  "round_shape P B \<longleftrightarrow>
     finite P \<and> bar_N (br_bar B) = int (card P) \<and> P \<noteq> {} \<and> int (card P) \<le> INT_MAX \<and>
     bar_wait (br_bar B) = odd (br_gen B) \<and>
     bar_signals (br_bar B) = flags (lead_pc B) (br_gen B) (int (card P)) \<and>
     (\<forall>t. t \<notin> P \<longrightarrow> br_pc B t = BIdle) \<and> (\<forall>t. is_opening (br_pc B t) \<longleftrightarrow> br_lead B = Some t) \<and>
     (\<forall>t \<in> P. pc_ok (br_gen B) (int (card P)) (br_pc B t) (br_arr B t) (br_ret B t))"

definition round_ids :: "upthread_t set \<Rightarrow> 's barsys \<Rightarrow> bool" where
  "round_ids P B \<longleftrightarrow>
     inj_on (bid B) (current B) \<and> bid B ` current B = {0..<gathered (lead_pc B) (br_bar B)} \<and>
     0 \<le> gathered (lead_pc B) (br_bar B) \<and> gathered (lead_pc B) (br_bar B) < int (card P) \<and>
     inj_on (bid B) (released B) \<and> bid B ` released B \<subseteq> {0..<int (card P) - 1} \<and>
     (\<forall>w i. lead_pc B = BSignal w i \<longrightarrow> {i..<int (card P) - 1} \<subseteq> bid B ` released B) \<and>
     (\<forall>w. lead_pc B = BFlip w \<longrightarrow> bar_arrived (br_bar B) = 0)"

definition round_ok :: "upthread_t set \<Rightarrow> 's barsys \<Rightarrow> bool" where
  "round_ok P B \<longleftrightarrow> round_shape P B \<and> round_ids P B"

section \<open>Consequences\<close>

lemma round_sets:
  assumes "round_shape P B"
  shows "current B \<subseteq> P" and "released B \<subseteq> P" and "current B \<inter> released B = {}"
    and "br_lead B = Some l \<Longrightarrow> l \<in> P \<and> l \<notin> current B \<and> l \<notin> released B"
proof -
  have out: "\<And>t. t \<notin> P \<Longrightarrow> br_pc B t = BIdle" and op: "\<And>t. is_opening (br_pc B t) \<longleftrightarrow> br_lead B = Some t"
    using assms by (simp_all add: round_shape_def)
  show "current B \<subseteq> P" "released B \<subseteq> P" using out by (fastforce simp: current_def released_def)+
  show "current B \<inter> released B = {}" by (auto simp: current_def released_def)
  assume "br_lead B = Some l"
  then have o: "is_opening (br_pc B l)" using op by simp
  then have "l \<in> P" using out by fastforce
  moreover have "bwait (br_pc B l) = None" using o by (cases "br_pc B l") simp_all
  ultimately show "l \<in> P \<and> l \<notin> current B \<and> l \<notin> released B" by (simp add: current_def released_def)
qed

lemma round_card:
  assumes "round_ok P B"
  shows "int (card (current B)) = gathered (lead_pc B) (br_bar B)"
proof -
  from assms have i: "inj_on (bid B) (current B)" "bid B ` current B = {0..<gathered (lead_pc B) (br_bar B)}"
    "0 \<le> gathered (lead_pc B) (br_bar B)" by (simp_all add: round_ok_def round_ids_def)
  from card_image [OF i(1)] i(2,3) show ?thesis by simp
qed

text \<open>When all but one thread wait in the current round, the others are accounted for.\<close>

lemma round_full:
  assumes ok: "round_ok P B" and full: "gathered (lead_pc B) (br_bar B) = int (card P) - 1"
    and t: "t \<in> P" "t \<notin> current B"
  shows "P = insert t (current B)"
proof -
  have sh: "round_shape P B" and fin: "finite P" using ok by (simp_all add: round_ok_def round_shape_def)
  have sub: "insert t (current B) \<subseteq> P" using round_sets(1) [OF sh] t by simp
  have "finite (current B)" using round_sets(1) [OF sh] fin finite_subset by blast
  then have "int (card (insert t (current B))) = int (card P)"
    using round_card [OF ok] full t(2) by simp
  then have "card (insert t (current B)) = card P" by simp
  with sub fin show ?thesis by (metis card_subset_eq)
qed

text \<open>While the flags are being set, every current identifier is below the loop index.\<close>

lemma round_behind:
  assumes ok: "round_ok P B" and lead: "br_lead B = Some l" "br_pc B l = BSignal w i" and i: "0 \<le> i"
  shows "gathered (lead_pc B) (br_bar B) \<le> i"
proof -
  have sh: "round_shape P B" and fin: "finite P" using ok by (simp_all add: round_ok_def round_shape_def)
  note s = round_sets [OF sh]
  have fins: "finite (current B)" "finite (released B)" using s(1,2) fin finite_subset by blast+
  have lp: "lead_pc B = BSignal w i" using lead by (simp add: lead_pc_def)
  have sub: "{i..<int (card P) - 1} \<subseteq> bid B ` released B" and inj: "inj_on (bid B) (released B)"
    using ok lp by (simp_all add: round_ok_def round_ids_def)
  have "card {i..<int (card P) - 1} \<le> card (bid B ` released B)" by (rule card_mono [OF finite_imageI [OF fins(2)] sub])
  also have "\<dots> = card (released B)" by (rule card_image [OF inj])
  finally have rel: "int (card P) - 1 - i \<le> int (card (released B))" by simp
  have "insert l (current B \<union> released B) \<subseteq> P" using s(1,2) s(4) [OF lead(1)] by simp
  then have "card (insert l (current B \<union> released B)) \<le> card P" by (rule card_mono [OF fin])
  moreover have "card (insert l (current B \<union> released B)) = Suc (card (current B) + card (released B))"
    using s(3) s(4) [OF lead(1)] fins by (simp add: card_Un_disjoint)
  ultimately have "int (card (current B)) + int (card (released B)) + 1 \<le> int (card P)" by simp
  with rel round_card [OF ok] show ?thesis by simp
qed

section \<open>Steps that do not touch the round\<close>

definition late :: "bool \<Rightarrow> bpc \<Rightarrow> bool" where
  "late w p \<longleftrightarrow> p = BRelease w \<or> (\<exists>i. p = BWaking w i)"

definition rsim :: "bpc \<Rightarrow> bpc \<Rightarrow> bool" where
  "rsim p q \<longleftrightarrow> p = q \<or> (bwait p \<noteq> None \<and> bwait q = bwait p) \<or> (\<exists>w. late w p \<and> late w q)"

lemma rsim_refl [simp]: "rsim p p"
  by (simp add: rsim_def)

lemma bwait_cases:
  assumes "bwait p = Some (w, k)"
  obtains n where "p = BSpin w k n" | n where "p = BStall w k n" | n where "p = BHeld w k n"
    | n where "p = BAsleep w k n"
  using assms by (cases p) auto

lemma rsim_same:
  assumes "rsim p q"
  shows "bwait q = bwait p" and "is_opening q = is_opening p" and "pc_ok g m q a r = pc_ok g m p a r"
    and "gathered q b = gathered p b" and "flags q g m = flags p g m"
    and "q = BSignal w i \<longleftrightarrow> p = BSignal w i" and "q = BFlip w \<longleftrightarrow> p = BFlip w" and "q = BIdle \<longleftrightarrow> p = BIdle"
proof -
  have "p = q \<or> (\<exists>w k. bwait p = Some (w, k) \<and> bwait q = Some (w, k)) \<or> (\<exists>w. late w p \<and> late w q)"
    using assms by (auto simp: rsim_def)
  then show "bwait q = bwait p" "is_opening q = is_opening p" "pc_ok g m q a r = pc_ok g m p a r"
    "gathered q b = gathered p b" "flags q g m = flags p g m"
    "q = BSignal w i \<longleftrightarrow> p = BSignal w i" "q = BFlip w \<longleftrightarrow> p = BFlip w" "q = BIdle \<longleftrightarrow> p = BIdle"
    by (auto simp: late_def elim!: bwait_cases)
qed

lemma round_stutter:
  assumes ok: "round_ok P B" and sim: "\<And>t. rsim (br_pc B t) (br_pc B' t)"
    and b: "bar_N (br_bar B') = bar_N (br_bar B)" "bar_arrived (br_bar B') = bar_arrived (br_bar B)"
      "bar_wait (br_bar B') = bar_wait (br_bar B)" "bar_signals (br_bar B') = bar_signals (br_bar B)"
    and g: "br_gen B' = br_gen B" "br_lead B' = br_lead B" "br_arr B' = br_arr B" "br_ret B' = br_ret B"
  shows "round_ok P B'"
proof -
  note same = rsim_same [OF sim]
  have l: "rsim (lead_pc B) (lead_pc B')" using sim by (simp add: lead_pc_def g split: option.splits)
  note ls = rsim_same [OF l]
  have sets: "current B' = current B" "released B' = released B" "bid B' = bid B"
    by (simp_all add: current_def released_def bid_def same g fun_eq_iff)
  have gath: "gathered (lead_pc B) (br_bar B') = gathered (lead_pc B) (br_bar B)"
    by (cases "lead_pc B") (simp_all add: b)
  have "round_shape P B'" using ok by (simp add: round_ok_def round_shape_def b g same ls)
  moreover have "round_ids P B'" using ok by (simp add: round_ok_def round_ids_def sets gath b ls)
  ultimately show ?thesis by (simp add: round_ok_def)
qed

section \<open>Steps of the round\<close>

text \<open>What the invariant says of one thread and of the leader.\<close>

lemma round_facts:
  assumes "round_ok P B"
  shows "finite P" "bar_N (br_bar B) = int (card P)" "int (card P) \<le> INT_MAX" "0 < int (card P)"
    "bar_wait (br_bar B) = odd (br_gen B)"
    "bar_signals (br_bar B) = flags (lead_pc B) (br_gen B) (int (card P))"
    "t \<notin> P \<Longrightarrow> br_pc B t = BIdle" "is_opening (br_pc B t) \<longleftrightarrow> br_lead B = Some t"
    "t \<in> P \<Longrightarrow> pc_ok (br_gen B) (int (card P)) (br_pc B t) (br_arr B t) (br_ret B t)"
  using assms by (auto simp: round_ok_def round_shape_def card_gt_0_iff)

lemma round_member:
  assumes "round_ok P B" and "br_pc B t \<noteq> BIdle"
  shows "t \<in> P"
  using round_facts(7) [OF assms(1)] assms(2) by blast

lemma lead_pc_other:
  assumes "round_ok P B" and "\<not> is_opening (br_pc B t)" and "br_lead B' = br_lead B"
    and "\<And>u. u \<noteq> t \<Longrightarrow> br_pc B' u = br_pc B u"
  shows "lead_pc B' = lead_pc B"
  using assms round_facts(8) [OF assms(1), of t] by (auto simp: lead_pc_def split: option.splits)

lemma lead_pc_lead:
  assumes "round_ok P B" and "is_opening (br_pc B t)"
  shows "br_lead B = Some t" and "lead_pc B = br_pc B t"
  using assms round_facts(8) [OF assms(1), of t] by (simp_all add: lead_pc_def)

text \<open>While a thread that has not arrived is about, nobody is between its last arrival and the
  flip.\<close>

lemma round_arriving:
  assumes ok: "round_ok P B" and t: "br_pc B t = BRead w"
  shows "gathered (lead_pc B) (br_bar B) = bar_arrived (br_bar B)"
    and "bar_arrived (br_bar B) = bar_N (br_bar B) - 1 \<Longrightarrow> br_lead B = None"
proof -
  have sh: "round_shape P B" using ok by (simp add: round_ok_def)
  have tP: "t \<in> P" "t \<notin> current B" "br_lead B \<noteq> Some t"
    using round_member [OF ok] round_facts(8) [OF ok, of t] t by (simp_all add: current_def)
  have full: "br_lead B = None" if "gathered (lead_pc B) (br_bar B) = int (card P) - 1"
    using round_full [OF ok that tP(1,2)] round_sets(4) [OF sh] tP(3)
    by (cases "br_lead B") auto
  show g: "gathered (lead_pc B) (br_bar B) = bar_arrived (br_bar B)"
    using full round_facts(2) [OF ok] by (cases "lead_pc B") (auto simp: lead_pc_def)
  show "br_lead B = None" if "bar_arrived (br_bar B) = bar_N (br_bar B) - 1"
    using full g that round_facts(2) [OF ok] by simp
qed

lemma round_enter:
  assumes ok: "round_ok P B" and t: "t \<in> P" "br_pc B t = BIdle"
  shows "round_ok P (B\<lparr>br_pc := (br_pc B)(t := BRead (bar_wait (br_bar B)))\<rparr>)" (is "round_ok P ?B")
proof -
  define B' where "B' = ?B"
  have f: "br_bar B' = br_bar B" "br_lead B' = br_lead B" "br_gen B' = br_gen B" "br_arr B' = br_arr B"
    "br_ret B' = br_ret B" "br_pc B' = (br_pc B)(t := BRead (bar_wait (br_bar B)))"
    by (simp_all add: B'_def)
  have l: "lead_pc B' = lead_pc B" by (rule lead_pc_other [OF ok, of t]) (simp_all add: f t)
  have sets: "current B' = current B" "released B' = released B"
    using t by (auto simp: f current_def released_def)
  have b: "\<And>u. u \<in> current B \<or> u \<in> released B \<Longrightarrow> bid B' u = bid B u"
    using t by (auto simp: f bid_def current_def released_def)
  have "round_shape P B'" using ok t round_facts(8) [OF ok, of t] round_facts(9) [OF ok, of t]
    by (auto simp: f round_ok_def round_shape_def l)
  moreover have "round_ids P B'" using ok b
    by (simp add: f round_ok_def round_ids_def sets l inj_on_def cong: image_cong)
  ultimately show ?thesis by (simp add: round_ok_def B'_def)
qed

lemma round_arrive:
  assumes ok: "round_ok P B" and t: "br_pc B t = BRead w"
    and a: "barrier_arrive (br_bar B) = (k, b)" "k \<noteq> bar_N b - 1"
  shows "round_ok P (B\<lparr>br_bar := b, br_pc := (br_pc B)(t := BSpin w k 0),
           br_arr := (br_arr B)(t := Suc (br_arr B t))\<rparr>)" (is "round_ok P ?B")
proof -
  define B' where "B' = ?B"
  have f: "br_bar B' = b" "br_lead B' = br_lead B" "br_gen B' = br_gen B" "br_ret B' = br_ret B"
    "br_arr B' = (br_arr B)(t := Suc (br_arr B t))" "br_pc B' = (br_pc B)(t := BSpin w k 0)"
    by (simp_all add: B'_def)
  have g: "gathered (lead_pc B) (br_bar B) = bar_arrived (br_bar B)"
    by (rule round_arriving(1) [OF ok t])
  have tP: "t \<in> P" using round_member [OF ok] t by simp
  have l: "lead_pc B' = lead_pc B" by (rule lead_pc_other [OF ok, of t]) (simp_all add: f t)
  have w: "w = odd (br_gen B)" using round_facts(9) [OF ok tP] t by simp
  have k: "k = bar_arrived (br_bar B)" "0 \<le> k" "k < int (card P) - 1"
    using ok g a round_facts(2) [OF ok] by (auto simp: round_ok_def round_ids_def barrier_arrive_def)
  have b: "bar_arrived b = k + 1" "bar_N b = bar_N (br_bar B)" "bar_wait b = bar_wait (br_bar B)"
    "bar_signals b = bar_signals (br_bar B)"
    using a(1) k(2,3) round_facts(3) [OF ok] by (auto simp: barrier_arrive_def wrap32_id)
  have g': "gathered (lead_pc B) b = k + 1"
    using g k(1,3) b(1,2) round_facts(2) [OF ok] by (cases "lead_pc B") simp_all
  have new: "t \<notin> current B" "t \<notin> released B" using t by (simp_all add: current_def released_def)
  have sets: "current B' = insert t (current B)" "released B' = released B"
    using t w by (auto simp: f current_def released_def)
  have bd: "bid B' t = k" "\<And>u. u \<in> current B \<or> u \<in> released B \<Longrightarrow> bid B' u = bid B u"
    using new by (auto simp: f bid_def)
  have im: "bid B ` current B = {0..<k}" using ok g k(1) by (simp add: round_ok_def round_ids_def)
  have inj: "inj_on (bid B') (current B')"
  proof -
    have "inj_on (bid B') (current B)" using ok bd(2) by (simp add: round_ok_def round_ids_def inj_on_def)
    moreover have "bid B' ` current B = {0..<k}" using im bd(2) by (simp cong: image_cong)
    ultimately show ?thesis using bd(1) new(1) by (simp add: sets)
  qed
  have im': "bid B' ` current B' = {0..<k + 1}"
    using im bd k(2) by (auto simp: sets cong: image_cong)
  have nf: "lead_pc B \<noteq> BFlip v" for v using g k round_facts(2) [OF ok] by (cases "lead_pc B") auto
  have "round_shape P B'"
    using ok t w b round_facts(8) [OF ok, of t] round_facts(9) [OF ok tP] tP
    by (auto simp: f round_ok_def round_shape_def l)
  moreover have "round_ids P B'" using ok bd(2) inj im' k g'
    by (simp add: f round_ok_def round_ids_def sets(2) l nf inj_on_def cong: image_cong)
  ultimately show ?thesis by (simp add: round_ok_def B'_def)
qed

lemma round_last:
  assumes ok: "round_ok P B" and t: "br_pc B t = BRead w"
    and a: "barrier_arrive (br_bar B) = (k, b)" "k = bar_N b - 1"
  shows "round_ok P (B\<lparr>br_bar := b, br_pc := (br_pc B)(t := BReset w), br_lead := Some t,
           br_arr := (br_arr B)(t := Suc (br_arr B t))\<rparr>)" (is "round_ok P ?B")
proof -
  define B' where "B' = ?B"
  have f: "br_bar B' = b" "br_lead B' = Some t" "br_gen B' = br_gen B" "br_ret B' = br_ret B"
    "br_arr B' = (br_arr B)(t := Suc (br_arr B t))" "br_pc B' = (br_pc B)(t := BReset w)"
    by (simp_all add: B'_def)
  have b: "bar_N b = bar_N (br_bar B)" "bar_wait b = bar_wait (br_bar B)"
    "bar_signals b = bar_signals (br_bar B)" and k: "k = bar_arrived (br_bar B)"
    using a(1) by (auto simp: barrier_arrive_def)
  have tP: "t \<in> P" using round_member [OF ok] t by simp
  have w: "w = odd (br_gen B)" using round_facts(9) [OF ok tP] t by simp
  have none: "br_lead B = None" by (rule round_arriving(2) [OF ok t]) (use a(2) k b in simp)
  then have l: "lead_pc B = BIdle" "lead_pc B' = BReset w" by (simp_all add: lead_pc_def f)
  have g: "gathered (BReset w) b = gathered (lead_pc B) (br_bar B)" using l(1) k a(2) by simp
  have sets: "current B' = current B" "released B' = released B"
    using t by (auto simp: f current_def released_def)
  have bd: "\<And>u. u \<in> current B \<or> u \<in> released B \<Longrightarrow> bid B' u = bid B u"
    using t by (auto simp: f bid_def current_def released_def)
  have "round_shape P B'" using ok t w b tP none round_facts(9) [OF ok tP]
    by (auto simp: f round_ok_def round_shape_def l)
  moreover have "round_ids P B'" using ok bd g
    by (simp add: f round_ok_def round_ids_def sets l inj_on_def cong: image_cong)
  ultimately show ?thesis by (simp add: round_ok_def B'_def)
qed

text \<open>A waiting thread sees its flag changed only after it was released, and only once the loop has
  passed its identifier.\<close>

lemma round_flag:
  assumes ok: "round_ok P B" and t: "bwait (br_pc B t) = Some (w, k)"
    and v: "signal_at k (br_bar B) = Some v" "v \<noteq> w"
  shows "w = even (br_gen B)" and "lead_pc B = BSignal w' i \<Longrightarrow> k < i"
proof -
  have len: "0 \<le> k" "bar_signals (br_bar B) ! nat k = v"
    and sig: "bar_signals (br_bar B) = flags (lead_pc B) (br_gen B) (int (card P))"
    and kN: "k < int (length (bar_signals (br_bar B)))"
    using v(1) round_facts(6) [OF ok] by (auto simp: signal_at_def split: if_splits)
  have range: "0 \<le> j \<and> j \<le> int (card P)" if "lead_pc B = BSignal x j" for x j
  proof -
    from that obtain l where l: "br_lead B = Some l" "br_pc B l = BSignal x j"
      by (auto simp: lead_pc_def split: option.splits)
    then have "l \<in> P" using round_member [OF ok] by simp
    from round_facts(9) [OF ok this] l show ?thesis by simp
  qed
  have flag: "v = odd (br_gen B) \<or> (\<exists>x j. lead_pc B = BSignal x j \<and> j \<le> k)"
    "lead_pc B = BSignal x j \<Longrightarrow> v = (if k < j then odd (br_gen B) else even (br_gen B))" for x j
    using len sig kN range by (cases "lead_pc B"; auto simp: nth_append)+
  show w: "w = even (br_gen B)"
  proof (rule ccontr)
    assume "w \<noteq> even (br_gen B)"
    then have w: "w = odd (br_gen B)" by simp
    with t have cur: "t \<in> current B" and k: "bid B t = k" by (auto simp: current_def bid_def)
    from flag(1) w v(2) obtain x j where lj: "lead_pc B = BSignal x j" "j \<le> k" by auto
    then obtain l where l: "br_lead B = Some l" "br_pc B l = BSignal x j"
      by (auto simp: lead_pc_def split: option.splits)
    have "bid B t \<in> bid B ` current B" using cur by (rule imageI)
    also have "\<dots> = {0..<gathered (lead_pc B) (br_bar B)}" using ok by (simp add: round_ok_def round_ids_def)
    finally have "k < gathered (lead_pc B) (br_bar B)" using k by simp
    with round_behind [OF ok l] range [OF lj(1)] lj(2) show False by simp
  qed
  show "lead_pc B = BSignal w' i \<Longrightarrow> k < i" using flag(2) [of w' i] w v(2) by (simp split: if_splits)
qed

lemma round_leave:
  assumes ok: "round_ok P B" and t: "br_pc B t = BSpin w k n"
    and v: "signal_at k (br_bar B) = Some v" "v \<noteq> w"
  shows "round_ok P (B\<lparr>br_pc := (br_pc B)(t := BIdle),
           br_ret := (br_ret B)(t := Suc (br_ret B t))\<rparr>)" (is "round_ok P ?B")
proof -
  define B' where "B' = ?B"
  have f: "br_bar B' = br_bar B" "br_lead B' = br_lead B" "br_gen B' = br_gen B" "br_arr B' = br_arr B"
    "br_ret B' = (br_ret B)(t := Suc (br_ret B t))" "br_pc B' = (br_pc B)(t := BIdle)"
    by (simp_all add: B'_def)
  have bw: "bwait (br_pc B t) = Some (w, k)" using t by simp
  have w: "w = even (br_gen B)" by (rule round_flag(1) [OF ok bw v])
  have tP: "t \<in> P" using round_member [OF ok] t by simp
  have l: "lead_pc B' = lead_pc B" by (rule lead_pc_other [OF ok, of t]) (simp_all add: f t)
  have sets: "current B' = current B" "released B' = released B - {t}"
    using t w by (auto simp: f current_def released_def)
  have tk: "bid B t = k" "t \<in> released B" "t \<notin> current B"
    using t w by (auto simp: bid_def released_def current_def)
  have bd: "\<And>u. u \<noteq> t \<Longrightarrow> bid B' u = bid B u" by (simp add: f bid_def)
  have bc: "bid B' u = bid B u" if "u \<in> current B" for u by (rule bd) (use that tk(3) in auto)
  have inj: "inj_on (bid B) (released B)" using ok by (simp add: round_ok_def round_ids_def)
  have im: "bid B' ` (released B - {t}) = bid B ` released B - {k}"
  proof -
    have "bid B' ` (released B - {t}) = bid B ` (released B - {t})" by (rule image_cong) (auto simp: bd)
    then show ?thesis using inj_on_image_set_diff [OF inj, of "released B" "{t}"] tk by simp
  qed
  have sub: "{i..<int (card P) - 1} \<subseteq> bid B ` released B - {k}" if "lead_pc B = BSignal x i" for x i
    using ok that round_flag(2) [OF ok bw v that] by (auto simp: round_ok_def round_ids_def)
  have "round_shape P B'" using ok t w tP round_facts(8) [OF ok, of t] round_facts(9) [OF ok tP]
    by (auto simp: f round_ok_def round_shape_def l)
  moreover have "round_ids P B'" using ok bd bc im sub inj
    by (auto simp: f round_ok_def round_ids_def sets l inj_on_def cong: image_cong)
  ultimately show ?thesis by (simp add: round_ok_def B'_def)
qed

text \<open>The leader is the only thread whose place changes: the waiting threads keep their identifiers.\<close>

lemma leader_sets:
  assumes ok: "round_ok P B" and t: "is_opening (br_pc B t)" and q: "bwait q = None"
    and f: "br_pc B' = (br_pc B)(t := q)"
  shows "br_gen B' = br_gen B \<Longrightarrow> current B' = current B"
    and "br_gen B' = br_gen B \<Longrightarrow> released B' = released B"
    and "br_gen B' = Suc (br_gen B) \<Longrightarrow> released B' = current B"
    and "br_gen B' = Suc (br_gen B) \<Longrightarrow> current B' = released B"
    and "u \<in> current B \<or> u \<in> released B \<Longrightarrow> bid B' u = bid B u"
proof -
  have n: "bwait (br_pc B t) = None" using t by (cases "br_pc B t") simp_all
  show "br_gen B' = br_gen B \<Longrightarrow> current B' = current B" "br_gen B' = br_gen B \<Longrightarrow> released B' = released B"
    "br_gen B' = Suc (br_gen B) \<Longrightarrow> released B' = current B"
    "br_gen B' = Suc (br_gen B) \<Longrightarrow> current B' = released B"
    "u \<in> current B \<or> u \<in> released B \<Longrightarrow> bid B' u = bid B u"
    using n q by (auto simp: f current_def released_def bid_def)
qed

lemma leader_opening:
  assumes "round_ok P B" and "is_opening (br_pc B t)"
  shows "t \<in> P" and "br_lead B = Some t" and "lead_pc B = br_pc B t"
    and "pc_ok (br_gen B) (int (card P)) (br_pc B t) (br_arr B t) (br_ret B t)"
proof -
  show "t \<in> P" using assms(2) by (intro round_member [OF assms(1)]) auto
  then show "pc_ok (br_gen B) (int (card P)) (br_pc B t) (br_arr B t) (br_ret B t)"
    by (rule round_facts(9) [OF assms(1)])
qed (rule lead_pc_lead [OF assms])+

lemma round_reset:
  assumes ok: "round_ok P B" and t: "br_pc B t = BReset w"
  shows "round_ok P (B\<lparr>br_bar := (br_bar B)\<lparr>bar_arrived := 0\<rparr>, br_pc := (br_pc B)(t := BFlip w)\<rparr>)"
    (is "round_ok P ?B")
proof -
  define B' where "B' = ?B"
  have f: "br_bar B' = (br_bar B)\<lparr>bar_arrived := 0\<rparr>" "br_lead B' = br_lead B" "br_gen B' = br_gen B"
    "br_arr B' = br_arr B" "br_ret B' = br_ret B" "br_pc B' = (br_pc B)(t := BFlip w)"
    by (simp_all add: B'_def)
  have op: "is_opening (br_pc B t)" and q: "bwait (BFlip w) = None" using t by simp_all
  note o = leader_opening [OF ok op] and s = leader_sets [OF ok op q f(6)]
  have l: "lead_pc B = BReset w" "lead_pc B' = BFlip w" using o(2,3) t by (simp_all add: lead_pc_def f)
  have "round_shape P B'" using ok t o(1,2,4) by (auto simp: f round_ok_def round_shape_def l)
  moreover have "round_ids P B'" using ok s(5)
    by (simp add: f s(1,2) round_ok_def round_ids_def l inj_on_def cong: image_cong)
  ultimately show ?thesis by (simp add: round_ok_def B'_def)
qed

lemma round_flip:
  assumes ok: "round_ok P B" and t: "br_pc B t = BFlip w"
  shows "round_ok P (B\<lparr>br_bar := (br_bar B)\<lparr>bar_wait := \<not> bar_wait (br_bar B)\<rparr>,
           br_pc := (br_pc B)(t := BSignal w 0), br_gen := Suc (br_gen B)\<rparr>)" (is "round_ok P ?B")
proof -
  define B' where "B' = ?B"
  have f: "br_bar B' = (br_bar B)\<lparr>bar_wait := \<not> bar_wait (br_bar B)\<rparr>" "br_lead B' = br_lead B"
    "br_gen B' = Suc (br_gen B)" "br_arr B' = br_arr B" "br_ret B' = br_ret B"
    "br_pc B' = (br_pc B)(t := BSignal w 0)"
    by (simp_all add: B'_def)
  have op: "is_opening (br_pc B t)" and q: "bwait (BSignal w 0) = None" using t by simp_all
  note o = leader_opening [OF ok op] and s = leader_sets [OF ok op q f(6)]
  have l: "lead_pc B = BFlip w" "lead_pc B' = BSignal w 0"
    using o(2,3) t by (simp_all add: lead_pc_def f)
  have N: "bar_N (br_bar B) = int (card P)" "0 < int (card P)" by (rule round_facts [OF ok])+
  have cur: "P = insert t (current B)"
    by (rule round_full [OF ok _ o(1)]) (use l(1) N t in \<open>simp_all add: current_def\<close>)
  have sh: "round_shape P B" using ok by (simp add: round_ok_def)
  have none: "released B = {}" using round_sets [OF sh] cur o(2) by blast
  have a0: "bar_arrived (br_bar B) = 0" using ok l(1) by (simp add: round_ok_def round_ids_def)
  have im: "bid B ` current B = {0..<int (card P) - 1}" "inj_on (bid B) (current B)"
    using ok l(1) N by (simp_all add: round_ok_def round_ids_def)
  have pcs: "pc_ok (Suc (br_gen B)) (int (card P)) (br_pc B u) (br_arr B u) (br_ret B u)"
    if "u \<in> current B" for u
  proof -
    from that obtain k where "bwait (br_pc B u) = Some (odd (br_gen B), k)" by (auto simp: current_def)
    moreover have "u \<in> P" using that cur by blast
    from round_facts(9) [OF ok this] calculation show ?thesis by (auto elim!: bwait_cases)
  qed
  have pcs': "pc_ok (Suc (br_gen B)) (int (card P)) (br_pc B' u) (br_arr B u) (br_ret B u)"
    if "u \<in> P" for u
    using that pcs cur o(4) t by (auto simp: f)
  have "round_shape P B'" using sh o(1,2) t pcs' by (auto simp: f round_shape_def l)
  moreover have "round_ids P B'" using s(5) im a0 N
    by (simp add: f s(3,4) none round_ids_def l inj_on_def cong: image_cong)
  ultimately show ?thesis by (simp add: round_ok_def B'_def)
qed

lemma replicate_set_next:
  assumes "i < n"
  shows "(replicate i x @ replicate (n - i) y)[i := x] = replicate (Suc i) x @ replicate (n - Suc i) y"
  using assms by (intro nth_equalityI) (auto simp: nth_list_update nth_append simp del: replicate_Suc)

lemma round_signal:
  assumes ok: "round_ok P B" and t: "br_pc B t = BSignal w i" and i: "i < bar_N (br_bar B)"
    and b: "set_signal_at i (\<not> w) (br_bar B) = Some b"
  shows "round_ok P (B\<lparr>br_bar := b, br_pc := (br_pc B)(t := BSignal w (i + 1))\<rparr>)" (is "round_ok P ?B")
proof -
  define B' where "B' = ?B"
  have f: "br_bar B' = b" "br_lead B' = br_lead B" "br_gen B' = br_gen B"
    "br_arr B' = br_arr B" "br_ret B' = br_ret B" "br_pc B' = (br_pc B)(t := BSignal w (i + 1))"
    by (simp_all add: B'_def)
  have op: "is_opening (br_pc B t)" and q: "bwait (BSignal w (i + 1)) = None" using t by simp_all
  note o = leader_opening [OF ok op] and s = leader_sets [OF ok op q f(6)]
  have l: "lead_pc B = BSignal w i" "lead_pc B' = BSignal w (i + 1)"
    using o(2,3) t by (simp_all add: lead_pc_def f)
  have w: "w = even (br_gen B)" "0 \<le> i" using o(4) t by simp_all
  have N: "bar_N (br_bar B) = int (card P)" by (rule round_facts [OF ok])
  have bb: "b = (br_bar B)\<lparr>bar_signals := (bar_signals (br_bar B))[nat i := \<not> w]\<rparr>"
    using b by (auto simp: set_signal_at_def split: if_splits)
  have sig: "bar_signals b = flags (BSignal w (i + 1)) (br_gen B) (int (card P))"
  proof -
    have "nat i < card P" "nat (i + 1) = Suc (nat i)" "nat (int (card P) - i) = card P - nat i"
      "nat (int (card P) - (i + 1)) = card P - Suc (nat i)" using i N w(2) by simp_all
    then show ?thesis using round_facts(6) [OF ok] replicate_set_next [of "nat i" "card P" "odd (br_gen B)" "even (br_gen B)"]
      by (simp add: bb l w(1))
  qed
  have "round_shape P B'" using ok t o(1,2,4) i N sig by (auto simp: f round_ok_def round_shape_def l bb)
  moreover have "round_ids P B'" using ok s(5)
    by (auto simp: f s(1,2) round_ok_def round_ids_def l inj_on_def bb cong: image_cong)
  ultimately show ?thesis by (simp add: round_ok_def B'_def)
qed

lemma round_signalled:
  assumes ok: "round_ok P B" and t: "br_pc B t = BSignal w i" and i: "\<not> i < bar_N (br_bar B)"
  shows "round_ok P (B\<lparr>br_pc := (br_pc B)(t := BRelease w)\<rparr>)" (is "round_ok P ?B")
proof -
  define B' where "B' = ?B"
  have f: "br_bar B' = br_bar B" "br_lead B' = br_lead B" "br_gen B' = br_gen B"
    "br_arr B' = br_arr B" "br_ret B' = br_ret B" "br_pc B' = (br_pc B)(t := BRelease w)"
    by (simp_all add: B'_def)
  have op: "is_opening (br_pc B t)" and q: "bwait (BRelease w) = None" using t by simp_all
  note o = leader_opening [OF ok op] and s = leader_sets [OF ok op q f(6)]
  have l: "lead_pc B = BSignal w i" "lead_pc B' = BRelease w"
    using o(2,3) t by (simp_all add: lead_pc_def f)
  have "i = int (card P)" using o(4) t i round_facts(2) [OF ok] by simp
  then have "round_shape P B'" using ok t o(1,2,4) by (auto simp: f round_ok_def round_shape_def l)
  moreover have "round_ids P B'" using ok s(5)
    by (simp add: f s(1,2) round_ok_def round_ids_def l inj_on_def cong: image_cong)
  ultimately show ?thesis by (simp add: round_ok_def B'_def)
qed

lemma round_done:
  assumes ok: "round_ok P B" and t: "br_pc B t = BWaking w i"
  shows "round_ok P (B\<lparr>br_bar := set_blocked_at w q (br_bar B),
           br_pc := (br_pc B)(t := BIdle), br_lock := (br_lock B)(w := None), br_lead := None,
           br_ret := (br_ret B)(t := Suc (br_ret B t))\<rparr>)" (is "round_ok P ?B")
proof -
  define B' where "B' = ?B"
  have f: "br_bar B' = set_blocked_at w q (br_bar B)" "br_lead B' = None" "br_gen B' = br_gen B"
    "br_arr B' = br_arr B" "br_ret B' = (br_ret B)(t := Suc (br_ret B t))" "br_pc B' = (br_pc B)(t := BIdle)"
    by (simp_all add: B'_def)
  have op: "is_opening (br_pc B t)" and n: "bwait BIdle = None" using t by simp_all
  note o = leader_opening [OF ok op] and s = leader_sets [OF ok op n f(6)]
  have l: "lead_pc B = BWaking w i" "lead_pc B' = BIdle"
    using o(2,3) t by (simp_all add: lead_pc_def f)
  have "round_shape P B'" using ok t o(1,2,4)
    by (auto simp: f round_ok_def round_shape_def l set_blocked_at_def)
  moreover have "round_ids P B'" using ok s(5)
    by (simp add: f s(1,2) round_ok_def round_ids_def l inj_on_def set_blocked_at_def cong: image_cong)
  ultimately show ?thesis by (simp add: round_ok_def B'_def)
qed

end
