(* ===== verification/Barrier_System.thy ===== *)
theory Barrier_System
  imports Barrier_Round
begin

text \<open>
  A barrier on any scheduler: the two queues, their locks and the sleepers. Together with the
  rounds this gives what a barrier promises: no thread passes before all have arrived, none is
  left asleep, and no access leaves its array.
\<close>

section \<open>The invariant\<close>

definition sleepers :: "bool \<Rightarrow> 's barsys \<Rightarrow> upthread_t set" where
  "sleepers w B = {t. \<exists>k n. br_pc B t = BAsleep w k n}"

definition woken_upto :: "bool \<Rightarrow> bpc \<Rightarrow> int" where
  "woken_upto w p = (case p of BWaking w' i \<Rightarrow> if w' = w then i else 0 | _ \<Rightarrow> 0)"

definition queued :: "bool \<Rightarrow> 's barsys \<Rightarrow> upthread_t list" where
  "queued w B = take (nat (cq_len (blocked_at w (br_bar B)))) (cq_queue (blocked_at w (br_bar B)))"

text \<open>The threads on a queue that were not woken yet are those that sleep for it.\<close>

definition queue_ok :: "upthread_t set \<Rightarrow> bool \<Rightarrow> 's barsys \<Rightarrow> bool" where
  "queue_ok P w B \<longleftrightarrow>
     length (cq_queue (blocked_at w (br_bar B))) = card P \<and> 0 \<le> cq_len (blocked_at w (br_bar B)) \<and>
     cq_len (blocked_at w (br_bar B)) \<le> int (card P) \<and> distinct (queued w B) \<and>
     0 \<le> woken_upto w (lead_pc B) \<and> woken_upto w (lead_pc B) \<le> cq_len (blocked_at w (br_bar B)) \<and>
     set (drop (nat (woken_upto w (lead_pc B))) (queued w B)) = sleepers w B"

fun holds :: "bool \<Rightarrow> bpc \<Rightarrow> bool" where
  "holds w (BHeld w' k n) = (w' = w)"
| "holds w (BWaking w' i) = (w' = w)"
| "holds w _ = False"

fun will_wake :: "bool \<Rightarrow> bpc \<Rightarrow> bool" where
  "will_wake w (BSignal w' i) = (w' = w)"
| "will_wake w (BRelease w') = (w' = w)"
| "will_wake w (BWaking w' i) = (w' = w)"
| "will_wake w _ = False"

text \<open>Asleep, or with the lock and about to be.\<close>

fun drowsy :: "bool \<Rightarrow> bpc \<Rightarrow> bool" where
  "drowsy w (BHeld w' k n) = (w' = w)"
| "drowsy w (BAsleep w' k n) = (w' = w)"
| "drowsy w _ = False"

text \<open>A thread that has stalled often enough without going to sleep has seen its flag change, so
  the count of stalls stays small.\<close>

fun stalls_ok :: "upthread_barrier_t \<Rightarrow> bpc \<Rightarrow> bool" where
  "stalls_ok b (BSpin w k n) = (0 \<le> n \<and> n \<le> MAXSTALLS \<and> (n = MAXSTALLS \<longrightarrow> signal_at k b = Some (\<not> w)))"
| "stalls_ok b (BStall w k n) = (n = MAXSTALLS)"
| "stalls_ok b (BHeld w k n) = (n = MAXSTALLS)"
| "stalls_ok b (BAsleep w k n) = (n = MAXSTALLS)"
| "stalls_ok b _ = True"

definition bar_ok :: "('s \<Rightarrow> bool) \<Rightarrow> ('s \<Rightarrow> upthread_t set) \<Rightarrow> upthread_t set \<Rightarrow> 's barsys \<Rightarrow> bool" where
  "bar_ok sinv blocked P B \<longleftrightarrow>
     round_ok P B \<and> sinv (br_sched B) \<and> length (bar_blocked (br_bar B)) = 2 \<and>
     (\<forall>w. queue_ok P w B) \<and> (\<forall>w t. br_lock B w = Some t \<longleftrightarrow> holds w (br_pc B t)) \<and>
     (\<forall>w. sleepers w B \<subseteq> blocked (br_sched B)) \<and>
     (\<forall>t. drowsy (even (br_gen B)) (br_pc B t) \<longrightarrow> will_wake (even (br_gen B)) (lead_pc B)) \<and>
     (\<forall>t. stalls_ok (br_bar B) (br_pc B t))"

lemma blocked_at_set [simp]:
  assumes "length (bar_blocked b) = 2"
  shows "blocked_at w (set_blocked_at w' q b) = (if w = w' then q else blocked_at w b)"
  using assms by (simp add: blocked_at_def set_blocked_at_def)

lemma set_blocked_at_simps [simp]:
  "bar_N (set_blocked_at w q b) = bar_N b" "bar_arrived (set_blocked_at w q b) = bar_arrived b"
  "bar_wait (set_blocked_at w q b) = bar_wait b" "bar_signals (set_blocked_at w q b) = bar_signals b"
  "length (bar_blocked (set_blocked_at w q b)) = length (bar_blocked b)"
  "signal_at k (set_blocked_at w q b) = signal_at k b"
  by (simp_all add: set_blocked_at_def signal_at_def)

section \<open>Steps that leave the queues alone\<close>

fun plain :: "bpc \<Rightarrow> bool" where
  "plain (BHeld w k n) = False"
| "plain (BAsleep w k n) = False"
| "plain (BWaking w i) = False"
| "plain _ = True"

lemma lead_waking:
  assumes "round_ok P B"
  shows "lead_pc B = BWaking w i \<longleftrightarrow> (\<exists>t. br_pc B t = BWaking w i)"
proof
  assume "\<exists>t. br_pc B t = BWaking w i"
  then obtain t where t: "br_pc B t = BWaking w i" ..
  have "is_opening (br_pc B t)" by (simp add: t)
  from lead_pc_lead(2) [OF assms this] t show "lead_pc B = BWaking w i" by simp
qed (auto simp: lead_pc_def split: option.splits)

lemma woken_upto_simps [simp]:
  "woken_upto w (BWaking w i) = i"
  "(\<And>i. p \<noteq> BWaking w i) \<Longrightarrow> woken_upto w p = 0"
  by (simp add: woken_upto_def) (cases p; auto simp: woken_upto_def)

lemma woken_upto_cong:
  assumes "\<And>i. p = BWaking w i \<longleftrightarrow> q = BWaking w i"
  shows "woken_upto w p = woken_upto w q"
proof (cases "\<exists>i. p = BWaking w i")
  case True
  then show ?thesis using assms by (metis woken_upto_simps(1))
next
  case False
  then have "woken_upto w p = 0" "woken_upto w q = 0" using assms by (intro woken_upto_simps(2); blast)+
  then show ?thesis by simp
qed

lemma plain_frame:
  assumes ok: "bar_ok sinv blocked P B" and r: "round_ok P B'"
    and p: "plain (br_pc B t)" "plain q" "br_pc B' = (br_pc B)(t := q)"
    and same: "br_sched B' = br_sched B" "br_lock B' = br_lock B"
      "bar_blocked (br_bar B') = bar_blocked (br_bar B)"
    and wake: "(br_gen B' = br_gen B \<and>
        (will_wake (even (br_gen B)) (lead_pc B) \<longrightarrow> will_wake (even (br_gen B)) (lead_pc B'))) \<or>
       will_wake (even (br_gen B')) (lead_pc B')"
    and st: "\<And>u. stalls_ok (br_bar B') (br_pc B' u)"
  shows "bar_ok sinv blocked P B'"
proof -
  have r0: "round_ok P B" using ok by (simp add: bar_ok_def)
  have pcs: "br_pc B' u = BWaking w i \<longleftrightarrow> br_pc B u = BWaking w i" for u w i
    using p by (cases "u = t") auto
  have wk: "woken_upto w (lead_pc B') = woken_upto w (lead_pc B)" for w
    by (rule woken_upto_cong) (simp add: lead_waking [OF r] lead_waking [OF r0] pcs)
  have sl: "sleepers w B' = sleepers w B" for w using p by (auto simp: sleepers_def)
  have h: "holds w (br_pc B' u) \<longleftrightarrow> holds w (br_pc B u)" for w u
    using p by (cases "br_pc B t"; cases q; cases "u = t") auto
  have d: "drowsy w (br_pc B' u) \<longleftrightarrow> drowsy w (br_pc B u)" for w u
    using p by (cases "br_pc B t"; cases q; cases "u = t") auto
  have b: "blocked_at w (br_bar B') = blocked_at w (br_bar B)" for w by (simp add: blocked_at_def same)
  have "queue_ok P w B'" for w using ok by (simp add: bar_ok_def queue_ok_def queued_def b wk sl)
  then show ?thesis using ok r wake st by (auto simp: bar_ok_def same h d sl)
qed

lemma stalls_same: "bar_signals b' = bar_signals b \<Longrightarrow> stalls_ok b' p = stalls_ok b p"
  by (cases p) (simp_all add: signal_at_def)

lemma bar_okD:
  assumes "bar_ok sinv blocked P B"
  shows "round_ok P B" "sinv (br_sched B)" "length (bar_blocked (br_bar B)) = 2" "queue_ok P w B"
    "br_lock B w = Some t \<longleftrightarrow> holds w (br_pc B t)" "sleepers w B \<subseteq> blocked (br_sched B)"
    "drowsy (even (br_gen B)) (br_pc B t) \<Longrightarrow> will_wake (even (br_gen B)) (lead_pc B)"
    "stalls_ok (br_bar B) (br_pc B t)"
  using assms unfolding bar_ok_def by blast+

text \<open>A released thread whose flag is still unset: the leader has not reached it.\<close>

lemma round_flag_unset:
  assumes ok: "round_ok P B" and v: "signal_at k (br_bar B) = Some (even (br_gen B))"
  obtains i where "lead_pc B = BSignal (even (br_gen B)) i"
proof -
  have sig: "bar_signals (br_bar B) = flags (lead_pc B) (br_gen B) (int (card P))"
    by (rule round_facts(6) [OF ok])
  have "\<exists>x i. lead_pc B = BSignal x i"
    using v sig by (cases "lead_pc B") (auto simp: signal_at_def split: if_splits)
  then obtain x i where l: "lead_pc B = BSignal x i" by auto
  then obtain l where l': "br_lead B = Some l" "br_pc B l = BSignal x i"
    by (auto simp: lead_pc_def split: option.splits)
  then have "l \<in> P" using round_member [OF ok] by simp
  from round_facts(9) [OF ok this] l' l show ?thesis by (auto intro: that)
qed

text \<open>The flags of the released threads, once the loop that sets them is over.\<close>

lemma round_flag_set:
  assumes ok: "round_ok P B" and l: "\<not> (\<exists>w i. lead_pc B = BSignal w i)"
    and t: "bwait (br_pc B t) = Some (even (br_gen B), k)"
  shows "signal_at k (br_bar B) = Some (odd (br_gen B))"
proof -
  have "t \<in> released B" "bid B t = k" using t by (auto simp: released_def bid_def)
  then have "k \<in> bid B ` released B" by blast
  then have k: "0 \<le> k" "k < int (card P)" using ok by (auto simp: round_ok_def round_ids_def)
  have "bar_signals (br_bar B) = replicate (card P) (odd (br_gen B))"
    using round_facts(6) [OF ok] l by (cases "lead_pc B") simp_all
  then show ?thesis using k by (simp add: signal_at_def)
qed

section \<open>Every step keeps the invariant\<close>

lemma bar_ok_lock:
  assumes ok: "bar_ok sinv blocked P B" and t: "br_pc B t = BStall w k n" and l: "br_lock B w = None"
    and v: "signal_at k (br_bar B) = Some w"
  shows "bar_ok sinv blocked P (B\<lparr>br_pc := (br_pc B)(t := BHeld w k n), br_lock := (br_lock B)(w := Some t)\<rparr>)"
    (is "bar_ok _ _ P ?B")
proof -
  define B' where "B' = ?B"
  have f: "br_bar B' = br_bar B" "br_lead B' = br_lead B" "br_gen B' = br_gen B" "br_arr B' = br_arr B"
    "br_ret B' = br_ret B" "br_sched B' = br_sched B" "br_lock B' = (br_lock B)(w := Some t)"
    "br_pc B' = (br_pc B)(t := BHeld w k n)"
    by (simp_all add: B'_def)
  note r0 = bar_okD(1) [OF ok]
  have r: "round_ok P B'" by (rule round_stutter [OF r0]) (simp_all add: f rsim_def t)
  have lp: "lead_pc B' = lead_pc B" by (rule lead_pc_other [OF r0, of t]) (simp_all add: f t)
  have sl: "sleepers x B' = sleepers x B" for x using t by (auto simp: f sleepers_def)
  have q: "queue_ok P x B'" for x using bar_okD(4) [OF ok] by (simp add: queue_ok_def queued_def f lp sl)
  have none: "\<not> holds w (br_pc B u)" for u using bar_okD(5) [OF ok, of w u] l by simp
  have locks: "br_lock B' x = Some u \<longleftrightarrow> holds x (br_pc B' u)" for x u
    using bar_okD(5) [OF ok, of x u] none [of u] t by (auto simp: f)
  have d: "will_wake (even (br_gen B)) (lead_pc B)" if "w = even (br_gen B)"
    by (rule round_flag_unset [OF r0, of k]) (use v that in simp_all)
  have d': "will_wake (even (br_gen B)) (lead_pc B)" if "drowsy (even (br_gen B)) (br_pc B' u)" for u
    using that bar_okD(7) [OF ok, of u] d by (cases "u = t") (simp_all add: f)
  have st: "stalls_ok (br_bar B) (br_pc B' u)" for u
    using bar_okD(8) [OF ok, of u] bar_okD(8) [OF ok, of t] t by (simp add: f)
  show ?thesis using r q locks d' st bar_okD(2,3,6) [OF ok] unfolding B'_def [symmetric]
    by (simp add: bar_ok_def f(1-6) lp sl)
qed

lemma bar_ok_release:
  assumes ok: "bar_ok sinv blocked P B" and t: "br_pc B t = BRelease w" and l: "br_lock B w = None"
  shows "bar_ok sinv blocked P (B\<lparr>br_pc := (br_pc B)(t := BWaking w 0), br_lock := (br_lock B)(w := Some t)\<rparr>)"
    (is "bar_ok _ _ P ?B")
proof -
  define B' where "B' = ?B"
  have f: "br_bar B' = br_bar B" "br_lead B' = br_lead B" "br_gen B' = br_gen B" "br_arr B' = br_arr B"
    "br_ret B' = br_ret B" "br_sched B' = br_sched B" "br_lock B' = (br_lock B)(w := Some t)"
    "br_pc B' = (br_pc B)(t := BWaking w 0)"
    by (simp_all add: B'_def)
  note r0 = bar_okD(1) [OF ok]
  have "late w (BRelease w)" "late w (BWaking w 0)" by (simp_all add: late_def)
  then have rs: "rsim (br_pc B u) (br_pc B' u)" for u by (auto simp: f rsim_def t)
  have r: "round_ok P B'" by (rule round_stutter [OF r0 rs]) (simp_all add: f)
  have op: "is_opening (br_pc B t)" by (simp add: t)
  have lp: "lead_pc B = BRelease w" "lead_pc B' = BWaking w 0"
    using lead_pc_lead [OF r0 op] t by (simp_all add: lead_pc_def f)
  have wk: "woken_upto x (lead_pc B') = woken_upto x (lead_pc B)" for x
    by (simp add: lp woken_upto_def)
  have sl: "sleepers x B' = sleepers x B" for x using t by (auto simp: f sleepers_def)
  have q: "queue_ok P x B'" for x using bar_okD(4) [OF ok] by (simp add: queue_ok_def queued_def f wk sl)
  have none: "\<not> holds w (br_pc B u)" for u using bar_okD(5) [OF ok, of w u] l by simp
  have locks: "br_lock B' x = Some u \<longleftrightarrow> holds x (br_pc B' u)" for x u
    using bar_okD(5) [OF ok, of x u] none [of u] t by (auto simp: f)
  have d': "will_wake (even (br_gen B)) (lead_pc B')" if "drowsy (even (br_gen B)) (br_pc B' u)" for u
    using that bar_okD(7) [OF ok, of u] by (cases "u = t") (simp_all add: f lp)
  have st: "stalls_ok (br_bar B) (br_pc B' u)" for u
    using bar_okD(8) [OF ok, of u] by (simp add: f)
  show ?thesis using r q locks d' st bar_okD(2,3,6) [OF ok] unfolding B'_def [symmetric]
    by (simp add: bar_ok_def f(1-6) sl)
qed

lemma bar_ok_done:
  assumes ok: "bar_ok sinv blocked P B" and t: "br_pc B t = BWaking w i"
    and i: "\<not> i < cq_len (blocked_at w (br_bar B))"
  shows "bar_ok sinv blocked P (B\<lparr>
           br_bar := set_blocked_at w ((blocked_at w (br_bar B))\<lparr>cq_len := 0\<rparr>) (br_bar B),
           br_pc := (br_pc B)(t := BIdle), br_lock := (br_lock B)(w := None), br_lead := None,
           br_ret := (br_ret B)(t := Suc (br_ret B t))\<rparr>)"
    (is "bar_ok _ _ P ?B")
proof -
  define B' where "B' = ?B"
  have f: "br_bar B' = set_blocked_at w ((blocked_at w (br_bar B))\<lparr>cq_len := 0\<rparr>) (br_bar B)"
    "br_gen B' = br_gen B" "br_sched B' = br_sched B"
    "br_lock B' = (br_lock B)(w := None)" "br_pc B' = (br_pc B)(t := BIdle)" "br_lead B' = None"
    by (simp_all add: B'_def)
  note r0 = bar_okD(1) [OF ok] and len = bar_okD(3) [OF ok]
  have r: "round_ok P B'" unfolding B'_def by (rule round_done [OF r0 t])
  have op: "is_opening (br_pc B t)" by (simp add: t)
  have lp: "lead_pc B = BWaking w i" using lead_pc_lead [OF r0 op] t by simp
  have lp': "woken_upto x (lead_pc B') = 0" for x by (simp add: lead_pc_def f)
  have lpx: "woken_upto x (lead_pc B) = 0" if "x \<noteq> w" for x using that by (simp add: lp woken_upto_def)
  have qw: "queue_ok P w B" by (rule bar_okD(4) [OF ok])
  then have "length (queued w B) \<le> nat i" using i by (auto simp: queue_ok_def queued_def lp)
  then have none: "sleepers w B = {}" using qw by (auto simp: queue_ok_def lp)
  have sl: "sleepers x B' = sleepers x B" for x using t by (auto simp: f sleepers_def)
  have q: "queue_ok P x B'" for x
  proof (cases "x = w")
    case True
    then show ?thesis using qw none by (simp add: queue_ok_def queued_def lp' f len sl)
  next
    case False
    then show ?thesis using bar_okD(4) [OF ok, of x]
      by (simp add: queue_ok_def queued_def lp' lpx f len sl)
  qed
  have own: "br_lock B w = Some t" using bar_okD(5) [OF ok, of w t] t by simp
  have locks: "br_lock B' x = Some u \<longleftrightarrow> holds x (br_pc B' u)" for x u
    using bar_okD(5) [OF ok, of x u] own t by (cases "x = w"; cases "u = t") (auto simp: f)
  have w: "w = even (br_gen B)" using leader_opening(4) [OF r0 op] t by simp
  have "\<not> drowsy w (br_pc B u)" for u
  proof
    assume d: "drowsy w (br_pc B u)"
    then have "holds w (br_pc B u) \<or> u \<in> sleepers w B" by (cases "br_pc B u") (auto simp: sleepers_def)
    then show False using none bar_okD(5) [OF ok, of w u] own t d by auto
  qed
  then have d': "\<not> drowsy (even (br_gen B)) (br_pc B' u)" for u using w by (simp add: f)
  have st: "stalls_ok (br_bar B') (br_pc B' u)" for u
    using bar_okD(8) [OF ok, of u] stalls_same [of "br_bar B'" "br_bar B"] by (simp add: f)
  show ?thesis using r q locks d' st bar_okD(2,3,6) [OF ok] unfolding B'_def [symmetric]
    by (simp add: bar_ok_def f(1-3) sl)
qed

lemma bar_ok_wake:
  assumes ok: "bar_ok sinv blocked P B" and t: "br_pc B t = BWaking w i"
    and i: "i < cq_len (blocked_at w (br_bar B))" "cell_at i (blocked_at w (br_bar B)) = Some u"
  shows "u \<in> sleepers w B"
    and "sinv s' \<Longrightarrow> blocked s' = blocked (br_sched B) - {u} \<Longrightarrow> bar_ok sinv blocked P (B\<lparr>br_sched := s',
           br_pc := (br_pc B)(u := woken (br_pc B u), t := BWaking w (i + 1))\<rparr>)"
    (is "_ \<Longrightarrow> _ \<Longrightarrow> bar_ok _ _ P ?B")
proof -
  note r0 = bar_okD(1) [OF ok]
  have op: "is_opening (br_pc B t)" by (simp add: t)
  have lp: "lead_pc B = BWaking w i" "br_lead B = Some t" using lead_pc_lead [OF r0 op] t by simp_all
  have qw: "queue_ok P w B" by (rule bar_okD(4) [OF ok])
  have ii: "0 \<le> i" "nat i < length (queued w B)" "queued w B ! nat i = u"
    using qw i by (auto simp: queue_ok_def queued_def lp cell_at_def split: if_splits)
  have drop: "drop (nat i) (queued w B) = u # drop (nat (i + 1)) (queued w B)"
    using ii Cons_nth_drop_Suc [of "nat i" "queued w B"] by (simp add: nat_add_distrib)
  have set: "set (drop (nat i) (queued w B)) = sleepers w B" using qw by (simp add: queue_ok_def lp)
  show u: "u \<in> sleepers w B" using drop set by auto
  then obtain k n where pu: "br_pc B u = BAsleep w k n" by (auto simp: sleepers_def)
  have ut: "u \<noteq> t" using pu t by auto
  assume s': "sinv s'" "blocked s' = blocked (br_sched B) - {u}"
  define B' where "B' = ?B"
  have f: "br_bar B' = br_bar B" "br_lead B' = br_lead B" "br_gen B' = br_gen B" "br_arr B' = br_arr B"
    "br_ret B' = br_ret B" "br_sched B' = s'" "br_lock B' = br_lock B"
    "br_pc B' = (br_pc B)(u := BSpin w k n, t := BWaking w (i + 1))"
    by (simp_all add: B'_def pu)
  have rs: "rsim (br_pc B v) (br_pc B' v)" for v by (auto simp: f rsim_def late_def t pu ut)
  have r: "round_ok P B'" by (rule round_stutter [OF r0 rs]) (simp_all add: f)
  have lp': "lead_pc B' = BWaking w (i + 1)" using lp by (simp add: lead_pc_def f)
  have sl: "sleepers w B' = sleepers w B - {u}" using t ut by (auto simp: f sleepers_def)
  have slx: "sleepers x B' = sleepers x B" if "x \<noteq> w" for x using t ut pu that by (auto simp: f sleepers_def)
  have "distinct (drop (nat i) (queued w B))" using qw by (simp add: queue_ok_def)
  then have rest: "set (drop (nat (i + 1)) (queued w B)) = sleepers w B - {u}"
    unfolding set [symmetric] drop by auto
  have q: "queue_ok P x B'" for x
  proof (cases "x = w")
    case True
    then show ?thesis using qw rest i(1) ii(1) by (simp add: queue_ok_def queued_def lp' f sl)
  next
    case False
    then have "woken_upto x (lead_pc B) = 0" "woken_upto x (lead_pc B') = 0"
      by (simp_all add: lp lp' woken_upto_def)
    then show ?thesis using bar_okD(4) [OF ok, of x] False by (simp add: queue_ok_def queued_def f slx)
  qed
  have locks: "br_lock B' x = Some v \<longleftrightarrow> holds x (br_pc B' v)" for x v
    using bar_okD(5) [OF ok, of x v] t pu ut by (auto simp: f)
  have d': "will_wake (even (br_gen B)) (lead_pc B')" if "drowsy (even (br_gen B)) (br_pc B' v)" for v
    using that bar_okD(7) [OF ok, of v] lp lp' by (simp add: f split: if_splits)
  have w: "w = even (br_gen B)" using leader_opening(4) [OF r0 op] t by simp
  have "signal_at k (br_bar B) = Some (odd (br_gen B))"
    by (rule round_flag_set [OF r0, of u]) (simp_all add: lp pu w)
  then have st: "stalls_ok (br_bar B) (br_pc B' v)" for v
    using bar_okD(8) [OF ok, of v] bar_okD(8) [OF ok, of u] pu w by (simp add: f)
  have "sleepers x B' \<subseteq> blocked s'" for x
    using bar_okD(6) [OF ok, of x] sl slx s'(2) pu by (cases "x = w") (auto simp: sleepers_def)
  with r q locks d' st s'(1) bar_okD(3) [OF ok] show "bar_ok sinv blocked P ?B"
    unfolding B'_def [symmetric] by (simp add: bar_ok_def f(1-6))
qed

text \<open>Who goes to sleep finds room on the queue.\<close>

lemma bar_room:
  assumes ok: "bar_ok sinv blocked P B" and t: "br_pc B t = BHeld w k n"
  shows "set (queued w B) = sleepers w B" and "t \<notin> sleepers w B"
    and "length (queued w B) = nat (cq_len (blocked_at w (br_bar B)))"
    and "cq_len (blocked_at w (br_bar B)) < int (card P)" and "woken_upto w (lead_pc B) = 0"
proof -
  note r0 = bar_okD(1) [OF ok]
  have own: "br_lock B w = Some t" using bar_okD(5) [OF ok, of w t] t by simp
  have "br_pc B u \<noteq> BWaking w i" for u i using bar_okD(5) [OF ok, of w u] own t by auto
  then have nw: "lead_pc B \<noteq> BWaking w i" for i using lead_waking [OF r0] by blast
  then show wk: "woken_upto w (lead_pc B) = 0" by simp
  have qw: "queue_ok P w B" by (rule bar_okD(4) [OF ok])
  then show set: "set (queued w B) = sleepers w B" by (simp add: queue_ok_def wk)
  show len: "length (queued w B) = nat (cq_len (blocked_at w (br_bar B)))"
    using qw by (auto simp: queue_ok_def queued_def)
  show new: "t \<notin> sleepers w B" using t by (simp add: sleepers_def)
  have "sleepers w B \<subseteq> P" using round_member [OF r0] by (auto simp: sleepers_def)
  moreover have "t \<in> P" using round_member [OF r0] t by simp
  ultimately have "card (insert t (sleepers w B)) \<le> card P"
    using round_facts(1) [OF r0] by (intro card_mono) auto
  moreover have "card (sleepers w B) = length (queued w B)"
    using qw distinct_card [of "queued w B"] set by (simp add: queue_ok_def)
  moreover have "finite (sleepers w B)" unfolding set [symmetric] by simp
  ultimately show "cq_len (blocked_at w (br_bar B)) < int (card P)" using new len by simp
qed

lemma bar_ok_block:
  assumes ok: "bar_ok sinv blocked P B" and t: "br_pc B t = BHeld w k n"
    and b: "barrier_block rt t (blocked_at w (br_bar B)) (br_sched B) = Some (q, s')"
    and s': "sinv s'" "blocked s' = insert t (blocked (br_sched B))"
  shows "bar_ok sinv blocked P (B\<lparr>br_bar := set_blocked_at w q (br_bar B), br_sched := s',
           br_pc := (br_pc B)(t := BAsleep w k n), br_lock := (br_lock B)(w := None)\<rparr>)"
    (is "bar_ok _ _ P ?B")
proof -
  define B' where "B' = ?B"
  have f: "br_bar B' = set_blocked_at w q (br_bar B)" "br_gen B' = br_gen B" "br_lead B' = br_lead B"
    "br_arr B' = br_arr B" "br_ret B' = br_ret B" "br_sched B' = s'"
    "br_lock B' = (br_lock B)(w := None)" "br_pc B' = (br_pc B)(t := BAsleep w k n)"
    by (simp_all add: B'_def)
  note r0 = bar_okD(1) [OF ok] and len2 = bar_okD(3) [OF ok] and room = bar_room [OF ok t]
  let ?q = "blocked_at w (br_bar B)"
  have qw: "queue_ok P w B" by (rule bar_okD(4) [OF ok])
  have q: "q = ?q\<lparr>cq_queue := (cq_queue ?q)[nat (cq_len ?q) := t], cq_len := cq_len ?q + 1\<rparr>"
    using b by (auto simp: barrier_block_def bind_Some_conv int_inc_def split: if_splits)
  have rs: "rsim (br_pc B v) (br_pc B' v)" for v by (auto simp: f rsim_def t)
  have r: "round_ok P B'" by (rule round_stutter [OF r0 rs]) (simp_all add: f)
  have lp: "lead_pc B' = lead_pc B" by (rule lead_pc_other [OF r0, of t]) (simp_all add: f t)
  have sl: "sleepers w B' = insert t (sleepers w B)" by (auto simp: f sleepers_def)
  have slx: "sleepers x B' = sleepers x B" if "x \<noteq> w" for x using that t by (auto simp: f sleepers_def)
  have "queued w B' = queued w B @ [t]"
  proof -
    have "0 \<le> cq_len ?q" "nat (cq_len ?q) < length (cq_queue ?q)" using qw room(4) by (auto simp: queue_ok_def)
    then show ?thesis
      by (simp add: queued_def f len2 q nat_add_distrib take_Suc_conv_app_nth take_update_swap list_update_append
          min_absorb2 order_less_imp_le)
  qed
  then have qw': "queue_ok P w B'"
    using qw room by (simp add: queue_ok_def f len2 q lp sl)
  have qx: "queue_ok P x B'" for x using bar_okD(4) [OF ok, of x] qw'
    by (cases "x = w") (simp_all add: queue_ok_def queued_def f len2 lp slx)
  have own: "br_lock B w = Some t" using bar_okD(5) [OF ok, of w t] t by simp
  have locks: "br_lock B' x = Some u \<longleftrightarrow> holds x (br_pc B' u)" for x u
    using bar_okD(5) [OF ok, of x u] own t by (cases "x = w"; cases "u = t") (auto simp: f)
  have d': "will_wake (even (br_gen B)) (lead_pc B)" if "drowsy (even (br_gen B)) (br_pc B' v)" for v
    using that bar_okD(7) [OF ok, of v] bar_okD(7) [OF ok, of t] t by (cases "v = t") (simp_all add: f)
  have st: "stalls_ok (br_bar B') (br_pc B' u)" for u
    using bar_okD(8) [OF ok, of u] bar_okD(8) [OF ok, of t] t stalls_same [of "br_bar B'" "br_bar B"]
    by (simp add: f)
  have "sleepers x B' \<subseteq> blocked s'" for x
    using bar_okD(6) [OF ok, of x] sl slx s'(2) by (cases "x = w") auto
  with r qx locks d' st s'(1) len2 show ?thesis
    unfolding B'_def [symmetric] by (simp add: bar_ok_def f(1-6) lp)
qed

text \<open>The steps that only move one thread outside the queues.\<close>

lemma bar_ok_plain:
  assumes ok: "bar_ok sinv blocked P B" and r: "round_ok P B'"
    and p: "plain (br_pc B t)" "plain q" "\<not> is_opening (br_pc B t)" "br_pc B' = (br_pc B)(t := q)"
    and same: "br_sched B' = br_sched B" "br_lock B' = br_lock B" "br_gen B' = br_gen B"
      "bar_blocked (br_bar B') = bar_blocked (br_bar B)"
      "bar_signals (br_bar B') = bar_signals (br_bar B)"
    and l: "br_lead B' = br_lead B \<or> br_lead B = None"
    and st: "stalls_ok (br_bar B) q"
  shows "bar_ok sinv blocked P B'"
proof (rule plain_frame [OF ok r p(1,2,4) same(1,2,4)])
  note r0 = bar_okD(1) [OF ok]
  have "lead_pc B' = lead_pc B" if "br_lead B' = br_lead B"
    by (rule lead_pc_other [OF r0 p(3) that]) (simp add: p(4))
  moreover have "lead_pc B = BIdle" if "br_lead B = None" using that by (simp add: lead_pc_def)
  ultimately show "(br_gen B' = br_gen B \<and> (will_wake (even (br_gen B)) (lead_pc B) \<longrightarrow>
        will_wake (even (br_gen B)) (lead_pc B'))) \<or> will_wake (even (br_gen B')) (lead_pc B')"
    using l same(3) by auto
  show "stalls_ok (br_bar B') (br_pc B' u)" for u
    using bar_okD(8) [OF ok, of u] st stalls_same [OF same(5)] by (simp add: p(4))
qed

lemma bar_ok_leader:
  assumes ok: "bar_ok sinv blocked P B" and r: "round_ok P B'"
    and p: "plain (br_pc B t)" "plain q" "is_opening (br_pc B t)" "br_pc B' = (br_pc B)(t := q)"
    and same: "br_sched B' = br_sched B" "br_lock B' = br_lock B" "br_lead B' = br_lead B"
      "bar_blocked (br_bar B') = bar_blocked (br_bar B)"
    and wake: "(br_gen B' = br_gen B \<and>
        (will_wake (even (br_gen B)) (br_pc B t) \<longrightarrow> will_wake (even (br_gen B)) q)) \<or>
       will_wake (even (br_gen B')) q"
    and st: "\<And>u. stalls_ok (br_bar B) (br_pc B u) \<Longrightarrow> stalls_ok (br_bar B') (br_pc B u)"
      "stalls_ok (br_bar B') q"
  shows "bar_ok sinv blocked P B'"
proof (rule plain_frame [OF ok r p(1,2,4) same(1,2,4)])
  have "lead_pc B = br_pc B t" "lead_pc B' = q"
    using lead_pc_lead [OF bar_okD(1) [OF ok] p(3)] by (simp_all add: lead_pc_def same(3) p(4))
  then show "(br_gen B' = br_gen B \<and> (will_wake (even (br_gen B)) (lead_pc B) \<longrightarrow>
        will_wake (even (br_gen B)) (lead_pc B'))) \<or> will_wake (even (br_gen B')) (lead_pc B')"
    using wake by simp
  show "stalls_ok (br_bar B') (br_pc B' u)" for u
    using bar_okD(8) [OF ok, of u] st by (simp add: p(4))
qed

text \<open>Setting a flag does not take back what a waiting thread has seen.\<close>

lemma stalls_signal:
  assumes ok: "round_ok P B" and t: "br_pc B t = BSignal w i"
    and b: "set_signal_at i (\<not> w) (br_bar B) = Some b" and s: "stalls_ok (br_bar B) (br_pc B u)"
  shows "stalls_ok b (br_pc B u)"
proof -
  have op: "is_opening (br_pc B t)" by (simp add: t)
  have w: "w = even (br_gen B)" using leader_opening(4) [OF ok op] t by simp
  have sig: "signal_at k b = Some (\<not> x)" if v: "signal_at k (br_bar B) = Some (\<not> x)"
    and u: "bwait (br_pc B u) = Some (x, k)" for x k
  proof -
    from round_flag(1) [OF ok u v] w have "x = w" by simp
    then show ?thesis using v b
      by (auto simp: set_signal_at_def signal_at_def nth_list_update split: if_splits)
  qed
  show ?thesis using s sig by (cases "br_pc B u") auto
qed

lemma bar_ok_sched:
  assumes ok: "bar_ok sinv blocked P B" and s: "sinv s'" "blocked s' = blocked (br_sched B)"
  shows "bar_ok sinv blocked P (B\<lparr>br_sched := s'\<rparr>)"
proof -
  have f: "current (B\<lparr>br_sched := s'\<rparr>) = current B" "released (B\<lparr>br_sched := s'\<rparr>) = released B"
    "bid (B\<lparr>br_sched := s'\<rparr>) = bid B" "lead_pc (B\<lparr>br_sched := s'\<rparr>) = lead_pc B"
    "sleepers w (B\<lparr>br_sched := s'\<rparr>) = sleepers w B" "queued w (B\<lparr>br_sched := s'\<rparr>) = queued w B" for w
    by (simp_all add: current_def released_def bid_def lead_pc_def sleepers_def queued_def fun_eq_iff
        split: option.splits)
  show ?thesis using ok s
    by (simp add: bar_ok_def round_ok_def round_shape_def round_ids_def queue_ok_def f)
qed

context two_level_scheduler
begin

lemma bar_step_ok:
  assumes "bar_step rt running moves P B B'" and ok: "bar_ok sinv blocked P B"
  shows "bar_ok sinv blocked P B'"
  using assms(1)
proof (cases rule: bar_step.cases)
  case (b_enter t)
  show ?thesis unfolding b_enter(1)
    by (rule bar_ok_plain [OF ok round_enter [OF bar_okD(1) [OF ok] b_enter(2,4)], of t
          "BRead (bar_wait (br_bar B))"])
      (simp_all add: b_enter(4))
next
  case (b_arrive t w k b)
  show ?thesis unfolding b_arrive(1)
    by (rule bar_ok_plain [OF ok round_arrive [OF bar_okD(1) [OF ok] b_arrive(3-5)], of t "BSpin w k 0"])
      (use b_arrive(3,4) in \<open>auto simp: barrier_arrive_def\<close>)
next
  case (b_last t w k b)
  have none: "br_lead B = None"
    by (rule round_arriving(2) [OF bar_okD(1) [OF ok] b_last(3)]) (use b_last(4,5) in \<open>auto simp: barrier_arrive_def\<close>)
  show ?thesis unfolding b_last(1)
    by (rule bar_ok_plain [OF ok round_last [OF bar_okD(1) [OF ok] b_last(3-5)], of t "BReset w"])
      (use b_last(3,4) none in \<open>auto simp: barrier_arrive_def\<close>)
next
  case (b_leave t w k n v)
  show ?thesis unfolding b_leave(1)
    by (rule bar_ok_plain [OF ok round_leave [OF bar_okD(1) [OF ok] b_leave(3-5)], of t BIdle])
      (simp_all add: b_leave(3))
next
  case (b_stall t w k n n')
  have rs: "rsim (br_pc B u) (br_pc B' u)" for u by (auto simp: b_stall(1,3) rsim_def)
  have r: "round_ok P B'" by (rule round_stutter [OF bar_okD(1) [OF ok] rs]) (simp_all add: b_stall(1))
  have n: "0 \<le> n" "n < MAXSTALLS" "n' = n + 1"
    using bar_okD(8) [OF ok, of t] b_stall(3,4,5) by (auto simp: int_inc_def order.order_iff_strict split: if_splits)
  show ?thesis
    by (rule bar_ok_plain [OF ok r, of t "if n' \<ge> MAXSTALLS then BStall w k n' else BSpin w k n'"])
      (use n in \<open>auto simp: b_stall(1,3)\<close>)
next
  case (b_lock t w k n)
  then show ?thesis using bar_ok_lock [OF ok] by blast
next
  case (b_lock_late t w k n v)
  have rs: "rsim (br_pc B u) (br_pc B' u)" for u by (auto simp: b_lock_late(1,3) rsim_def)
  have r: "round_ok P B'" by (rule round_stutter [OF bar_okD(1) [OF ok] rs]) (simp_all add: b_lock_late(1))
  have n: "n = MAXSTALLS" using bar_okD(8) [OF ok, of t] b_lock_late(3) by simp
  show ?thesis
    by (rule bar_ok_plain [OF ok r, of t "BSpin w k n"]) (use n b_lock_late(5,6) in \<open>auto simp: b_lock_late(1,3)\<close>)
next
  case (b_block t w k n q s')
  from b_block(4) have "uthread_has_blocked rt t UTH_EXT_BLK_MUTEX (br_sched B) = Some s'"
    by (auto simp: barrier_block_def bind_Some_conv)
  then have "sinv s' \<and> blocked s' = insert t (blocked (br_sched B))"
    using has_blocked_spec [OF bar_okD(2) [OF ok] b_block(2), of UTH_EXT_BLK_MUTEX] by auto
  then have "sinv s'" "blocked s' = insert t (blocked (br_sched B))" by simp_all
  then show ?thesis unfolding b_block(1) by (rule bar_ok_block [OF ok b_block(3,4)])
next
  case (b_reset t w)
  show ?thesis unfolding b_reset(1)
    by (rule bar_ok_leader [OF ok round_reset [OF bar_okD(1) [OF ok] b_reset(3)], of t "BFlip w"])
      (simp_all add: b_reset(3) stalls_same [of "(br_bar B)\<lparr>bar_arrived := 0\<rparr>" "br_bar B"])
next
  case (b_flip t w)
  have op: "is_opening (br_pc B t)" by (simp add: b_flip(3))
  have w: "w = odd (br_gen B)" using leader_opening(4) [OF bar_okD(1) [OF ok] op] b_flip(3) by simp
  show ?thesis unfolding b_flip(1)
    by (rule bar_ok_leader [OF ok round_flip [OF bar_okD(1) [OF ok] b_flip(3)], of t "BSignal w 0"])
      (simp_all add: b_flip(3) w
        stalls_same [of "(br_bar B)\<lparr>bar_wait := \<not> bar_wait (br_bar B)\<rparr>" "br_bar B"])
next
  case (b_signal t w i b)
  have bb: "bar_blocked b = bar_blocked (br_bar B)"
    using b_signal(5) by (auto simp: set_signal_at_def split: if_splits)
  show ?thesis unfolding b_signal(1)
    by (rule bar_ok_leader [OF ok round_signal [OF bar_okD(1) [OF ok] b_signal(3-5)], of t "BSignal w (i + 1)"])
      (use stalls_signal [OF bar_okD(1) [OF ok] b_signal(3,5)] in \<open>simp_all add: b_signal(3) bb\<close>)
next
  case (b_signalled t w i)
  show ?thesis unfolding b_signalled(1)
    by (rule bar_ok_leader [OF ok round_signalled [OF bar_okD(1) [OF ok] b_signalled(3,4)], of t "BRelease w"])
      (simp_all add: b_signalled(3))
next
  case (b_release t w)
  show ?thesis unfolding b_release(1) by (rule bar_ok_release [OF ok b_release(3,4)])
next
  case (b_wake t w i u s')
  have "u \<in> sleepers w B" by (rule bar_ok_wake(1) [OF ok b_wake(3-5)])
  then have "u \<in> blocked (br_sched B)" using bar_okD(6) [OF ok] by blast
  then have "sinv s'" "blocked s' = blocked (br_sched B) - {u}"
    using runnable_spec [OF bar_okD(2) [OF ok]] b_wake(6) by fastforce+
  then show ?thesis unfolding b_wake(1) by (rule bar_ok_wake(2) [OF ok b_wake(3-5)])
next
  case (b_done t w i)
  show ?thesis unfolding b_done(1) by (rule bar_ok_done [OF ok b_done(3,4)])
next
  case (b_preempt t s')
  have s: "sinv s'" "blocked s' = blocked (br_sched B)"
    using paused_spec [OF bar_okD(2) [OF ok] b_preempt(2)] b_preempt(3) by auto
  show ?thesis unfolding b_preempt(1) by (rule bar_ok_sched [OF ok s])
next
  case (b_sched s')
  have s: "sinv s'" "blocked s' = blocked (br_sched B)" using moves_spec [OF b_sched(2) bar_okD(2) [OF ok]] by auto
  show ?thesis unfolding b_sched(1) by (rule bar_ok_sched [OF ok s])
qed

lemma bar_start_ok:
  assumes "bar_start sinv P B"
  shows "bar_ok sinv blocked P B"
proof -
  from assms obtain c0 c1 where P: "finite P" "P \<noteq> {}" "int (card P) \<le> INT_MAX"
    and c: "length c0 = card P" "length c1 = card P"
    and b: "br_bar B = snd (upthread_barrier_init c0 c1 (int (card P)))"
    and s: "sinv (br_sched B)" "br_pc B = (\<lambda>_. BIdle)" "br_lock B = (\<lambda>_. None)" "br_lead B = None"
      "br_gen B = 0" "br_arr B = (\<lambda>_. 0)" "br_ret B = (\<lambda>_. 0)"
    unfolding bar_start_def by (metis snd_conv)
  have e: "current B = {}" "released B = {}" "sleepers w B = {}" for w
    by (simp_all add: current_def released_def sleepers_def s)
  have "0 < card P" "card P \<le> 2147483647" using P by (simp_all add: card_gt_0_iff)
  then have "round_ok P B"
    by (simp add: round_ok_def round_shape_def round_ids_def e s b P lead_pc_def upthread_barrier_init_def)
  moreover have "queue_ok P w B" for w
    by (simp add: queue_ok_def queued_def e s b c lead_pc_def upthread_barrier_init_def blocked_at_def)
  ultimately show ?thesis
    by (simp add: bar_ok_def e s) (simp add: b upthread_barrier_init_def)
qed

lemma bar_reachable_ok:
  assumes "reachable (bar_start sinv P) (bar_step rt running moves P) B"
  shows "bar_ok sinv blocked P B"
  using assms by (rule reachable_invariant) (auto intro: bar_start_ok bar_step_ok)

section \<open>What the invariant gives\<close>

lemma bar_rounds:
  assumes ok: "bar_ok sinv blocked P B" and t: "t \<in> P" and u: "u \<in> P"
  shows "br_ret B t \<le> br_arr B u \<and> br_arr B u \<le> br_arr B t + 1 \<and>
         (is_opening (br_pc B t) \<longrightarrow> is_opening (br_pc B u) \<longrightarrow> t = u)"
proof -
  note r0 = bar_okD(1) [OF ok]
  have c: "br_gen B \<le> br_arr B x \<and> br_arr B x \<le> br_gen B + 1 \<and> br_ret B x \<le> br_gen B"
    if "x \<in> P" for x
    using round_facts(9) [OF r0 that] by (cases "br_pc B x") (auto split: if_splits)
  show ?thesis using c [OF t] c [OF u] round_facts(8) [OF r0, of t] round_facts(8) [OF r0, of u] by auto
qed

lemma bar_asleep:
  assumes ok: "bar_ok sinv blocked P B" and t: "br_pc B t = BAsleep w k n"
  shows "t \<in> blocked (br_sched B) \<and> t \<in> set (queued w B) \<and>
         ((\<exists>u \<in> P. br_arr B u < br_arr B t) \<or> (\<exists>l \<in> P. is_opening (br_pc B l)))"
proof -
  note r0 = bar_okD(1) [OF ok]
  have sh: "round_shape P B" using r0 by (simp add: round_ok_def)
  have s: "t \<in> sleepers w B" using t by (simp add: sleepers_def)
  have q: "sleepers w B = set (drop (nat (woken_upto w (lead_pc B))) (queued w B))"
    using bar_okD(4) [OF ok, of w] by (simp add: queue_ok_def)
  from s have 1: "t \<in> blocked (br_sched B)" using bar_okD(6) [OF ok] by blast
  from s have 2: "t \<in> set (queued w B)" unfolding q by (rule in_set_dropD)
  have tP: "t \<in> P" using round_member [OF r0] t by simp
  have 3: "(\<exists>u \<in> P. br_arr B u < br_arr B t) \<or> (\<exists>l \<in> P. is_opening (br_pc B l))"
  proof (cases "br_lead B")
    case (Some l)
    then have "is_opening (br_pc B l)" using round_facts(8) [OF r0, of l] by simp
    then show ?thesis using leader_opening(1) [OF r0] by blast
  next
    case None
    then have lp: "lead_pc B = BIdle" by (simp add: lead_pc_def)
    then have "w \<noteq> even (br_gen B)" using bar_okD(7) [OF ok, of t] t by auto
    then have w: "w = odd (br_gen B)" by simp
    then have at: "br_arr B t = Suc (br_gen B)" using round_facts(9) [OF r0 tP] t by simp
    have "int (card (current B)) < int (card P)"
      using round_card [OF r0] r0 by (simp add: round_ok_def round_ids_def)
    then have "current B \<noteq> P" by auto
    then obtain u where u: "u \<in> P" "u \<notin> current B" using round_sets(1) [OF sh] by blast
    have "\<not> is_opening (br_pc B u)" using round_facts(8) [OF r0, of u] None by simp
    then have "br_arr B u = br_gen B" using round_facts(9) [OF r0 u(1)] u(2)
      by (cases "br_pc B u") (auto simp: current_def split: if_splits)
    with u(1) at show ?thesis by fastforce
  qed
  from 1 2 3 show ?thesis by simp
qed

text \<open>A waiting thread's flag exists.\<close>

lemma bar_flag_defined:
  assumes ok: "round_ok P B" and t: "bwait (br_pc B t) = Some (w, k)"
  obtains v where "signal_at k (br_bar B) = Some v"
proof -
  have "t \<in> current B \<or> t \<in> released B" using t by (auto simp: current_def released_def)
  moreover have "bid B t = k" using t by (simp add: bid_def)
  ultimately have "k \<in> bid B ` current B \<union> bid B ` released B" by blast
  then have k: "0 \<le> k" "k < int (card P)" using ok by (auto simp: round_ok_def round_ids_def)
  have "length (bar_signals (br_bar B)) = card P"
  proof (cases "\<exists>w i. lead_pc B = BSignal w i")
    case False
    then show ?thesis using round_facts(6) [OF ok] by (cases "lead_pc B") simp_all
  next
    case True
    then obtain w i where l: "lead_pc B = BSignal w i" by blast
    then obtain l where l': "br_lead B = Some l" "br_pc B l = BSignal w i"
      by (auto simp: lead_pc_def split: option.splits)
    then have "l \<in> P" using round_member [OF ok] by simp
    from round_facts(9) [OF ok this] l' l round_facts(6) [OF ok] show ?thesis by auto
  qed
  with k that show ?thesis by (simp add: signal_at_def)
qed

lemma bar_progress:
  assumes ok: "bar_ok sinv blocked P B" and tP: "t \<in> P" and run: "t \<in> running (br_sched B)"
  shows "(\<exists>B'. bar_step rt running moves P B B' \<and> br_pc B' t \<noteq> br_pc B t) \<or>
         (\<exists>w u. br_lock B w = Some u \<and> u \<noteq> t \<and> (br_pc B t = BRelease w \<or> (\<exists>k n. br_pc B t = BStall w k n)))"
proof -
  note r0 = bar_okD(1) [OF ok] and s0 = bar_okD(2) [OF ok]
  have free: "br_lock B w = None \<or> (\<exists>u. br_lock B w = Some u \<and> u \<noteq> t)" if "\<not> holds w (br_pc B t)" for w
    using that bar_okD(5) [OF ok, of w t] by (cases "br_lock B w") auto
  have go: ?thesis if "bar_step rt running moves P B B'" "br_pc B' t \<noteq> br_pc B t" for B'
    using that by blast
  show ?thesis
  proof (cases "br_pc B t")
    case BIdle
    show ?thesis by (rule go [OF b_enter [where B = B and t = t and running = running and P = P, OF tP run BIdle]]) (simp add: BIdle)
  next
    case (BRead w)
    obtain k b where kb: "barrier_arrive (br_bar B) = (k, b)" by (cases "barrier_arrive (br_bar B)")
    show ?thesis
    proof (cases "k = bar_N b - 1")
      case True
      show ?thesis by (rule go [OF b_last [where B = B and t = t and running = running and P = P, OF run BRead kb True]]) (simp add: BRead)
    next
      case False
      show ?thesis by (rule go [OF b_arrive [where B = B and t = t and running = running and P = P, OF run BRead kb False]]) (simp add: BRead)
    qed
  next
    case (BSpin w k n)
    obtain v where v: "signal_at k (br_bar B) = Some v"
      using bar_flag_defined [OF r0, of t w k] BSpin by auto
    show ?thesis
    proof (cases "v = w")
      case True
      then have vw: "signal_at k (br_bar B) = Some w" using v by simp
      then have "n < MAXSTALLS" using bar_okD(8) [OF ok, of t] BSpin by auto
      then have inc: "int_inc n = Some (n + 1)" by (simp add: int_inc_def)
      show ?thesis
        by (rule go [OF b_stall [where B = B and t = t and running = running and P = P, OF run BSpin vw inc]])
          (auto simp: BSpin)
    next
      case False
      show ?thesis by (rule go [OF b_leave [where B = B and t = t and running = running and P = P, OF run BSpin v False]]) (simp add: BSpin)
    qed
  next
    case (BStall w k n)
    obtain v where v: "signal_at k (br_bar B) = Some v"
      using bar_flag_defined [OF r0, of t w k] BStall by auto
    show ?thesis
    proof (cases "br_lock B w")
      case None
      show ?thesis
      proof (cases "v = w")
        case True
        with v have vw: "signal_at k (br_bar B) = Some w" by simp
        show ?thesis by (rule go [OF b_lock [where B = B and t = t and running = running and P = P, OF run BStall None vw]]) (simp add: BStall)
      next
        case False
        show ?thesis by (rule go [OF b_lock_late [where B = B and t = t and running = running and P = P, OF run BStall None v False]]) (simp add: BStall)
      qed
    next
      case (Some u)
      then show ?thesis using free [of w] BStall by auto
    qed
  next
    case (BHeld w k n)
    let ?q = "blocked_at w (br_bar B)"
    have q: "0 \<le> cq_len ?q" "cq_len ?q < int (length (cq_queue ?q))" "cq_len ?q < INT_MAX"
      using bar_room(4) [OF ok BHeld] bar_okD(4) [OF ok, of w] round_facts(3) [OF r0]
      by (auto simp: queue_ok_def)
    obtain s' where "uthread_has_blocked rt t UTH_EXT_BLK_MUTEX (br_sched B) = Some s'"
      using has_blocked_spec [OF s0 run] by blast
    with q have "\<exists>r. barrier_block rt t ?q (br_sched B) = Some r"
      by (simp add: barrier_block_def cell_at_def int_inc_def)
    then obtain q' s' where blk: "barrier_block rt t ?q (br_sched B) = Some (q', s')" by auto
    show ?thesis by (rule go [OF b_block [where B = B and t = t and running = running and P = P, OF run BHeld blk]]) (simp add: BHeld)
  next
    case (BAsleep w k n)
    then have "t \<in> sleepers w B" by (simp add: sleepers_def)
    then have "t \<in> blocked (br_sched B)" using bar_okD(6) [OF ok] by blast
    with blocked_not_running [OF s0] run show ?thesis by blast
  next
    case (BReset w)
    show ?thesis by (rule go [OF b_reset [where B = B and t = t and running = running and P = P, OF run BReset]]) (simp add: BReset)
  next
    case (BFlip w)
    show ?thesis by (rule go [OF b_flip [where B = B and t = t and running = running and P = P, OF run BFlip]]) (simp add: BFlip)
  next
    case (BSignal w i)
    have op: "is_opening (br_pc B t)" and lp: "lead_pc B = BSignal w i" and i: "0 \<le> i" "i \<le> int (card P)"
      using BSignal lead_pc_lead [OF r0, of t] leader_opening(4) [OF r0, of t] by simp_all
    have "length (bar_signals (br_bar B)) = card P" using round_facts(6) [OF r0] lp i by auto
    then have cell: "\<exists>b. set_signal_at i (\<not> w) (br_bar B) = Some b" if "i < bar_N (br_bar B)"
      using that i round_facts(2) [OF r0] by (simp add: set_signal_at_def)
    show ?thesis
    proof (cases "i < bar_N (br_bar B)")
      case True
      with cell obtain b where b: "set_signal_at i (\<not> w) (br_bar B) = Some b" by blast
      show ?thesis by (rule go [OF b_signal [where B = B and t = t and running = running and P = P, OF run BSignal True b]]) (simp add: BSignal)
    next
      case False
      show ?thesis by (rule go [OF b_signalled [where B = B and t = t and running = running and P = P, OF run BSignal False]]) (simp add: BSignal)
    qed
  next
    case (BRelease w)
    show ?thesis
    proof (cases "br_lock B w")
      case None
      show ?thesis by (rule go [OF b_release [where B = B and t = t and running = running and P = P, OF run BRelease None]]) (simp add: BRelease)
    next
      case (Some u)
      then show ?thesis using free [of w] BRelease by auto
    qed
  next
    case (BWaking w i)
    let ?q = "blocked_at w (br_bar B)"
    have op: "is_opening (br_pc B t)" by (simp add: BWaking)
    have lp: "lead_pc B = BWaking w i" using lead_pc_lead [OF r0 op] BWaking by simp
    show ?thesis
    proof (cases "i < cq_len ?q")
      case True
      then obtain u where u: "cell_at i ?q = Some u"
        using bar_okD(4) [OF ok, of w] lp by (auto simp: queue_ok_def cell_at_def)
      have "u \<in> blocked (br_sched B)"
        using bar_ok_wake(1) [OF ok BWaking True u] bar_okD(6) [OF ok] by blast
      then obtain s' where woke: "uthread_runnable rt u (br_sched B) = Some s'"
        using runnable_spec [OF s0] by blast
      show ?thesis by (rule go [OF b_wake [where B = B and t = t and running = running and P = P, OF run BWaking True u woke]]) (simp add: BWaking)
    next
      case False
      show ?thesis by (rule go [OF b_done [where B = B and t = t and running = running and P = P, OF run BWaking False]]) (simp add: BWaking)
    qed
  qed
qed

end

end
