(* ===== verification/Barrier_Spec.thy ===== *)
theory Barrier_Spec
  imports Barrier_System
begin

text \<open>
  What a barrier promises, as a specification of its own: threads arrive and pass, and nothing
  else happens. Every access to memory of \<open>upthread_barrier_wait\<close> is an arrival, a passage or
  invisible to the specification; and a rank on the places of a call shows that the call takes
  a bounded number of steps.
\<close>

section \<open>The abstract barrier\<close>

text \<open>How often each thread has arrived and passed.\<close>

record absbar =
  ab_arr :: "upthread_t \<Rightarrow> nat"
  ab_ret :: "upthread_t \<Rightarrow> nat"

text \<open>A thread that is outside may arrive; a thread that has arrived may pass once every other
  thread has arrived as often.\<close>

inductive abs_bar :: "upthread_t set \<Rightarrow> absbar \<Rightarrow> absbar \<Rightarrow> bool" for P :: "upthread_t set" where
  ab_arrive: "t \<in> P \<Longrightarrow> ab_arr A t = ab_ret A t \<Longrightarrow>
    abs_bar P A (A\<lparr>ab_arr := (ab_arr A)(t := Suc (ab_arr A t))\<rparr>)"
| ab_pass: "t \<in> P \<Longrightarrow> ab_arr A t = Suc (ab_ret A t) \<Longrightarrow> (\<And>u. u \<in> P \<Longrightarrow> ab_arr A t \<le> ab_arr A u) \<Longrightarrow>
    abs_bar P A (A\<lparr>ab_ret := (ab_ret A)(t := Suc (ab_ret A t))\<rparr>)"

definition absbar_start :: "absbar \<Rightarrow> bool" where
  "absbar_start A \<longleftrightarrow> ab_arr A = (\<lambda>_. 0) \<and> ab_ret A = (\<lambda>_. 0)"

definition absbar_of :: "'s barsys \<Rightarrow> absbar" where
  "absbar_of B = \<lparr>ab_arr = br_arr B, ab_ret = br_ret B\<rparr>"

text \<open>The specification by itself keeps threads within one round of each other.\<close>

definition absbar_ok :: "upthread_t set \<Rightarrow> absbar \<Rightarrow> bool" where
  "absbar_ok P A \<longleftrightarrow>
     (\<forall>t \<in> P. ab_ret A t \<le> ab_arr A t \<and> ab_arr A t \<le> ab_ret A t + 1) \<and>
     (\<forall>t \<in> P. \<forall>u \<in> P. ab_ret A t \<le> ab_arr A u)"

lemma absbar_reachable_ok: "reachable absbar_start (abs_bar P) A \<Longrightarrow> absbar_ok P A"
proof (induction rule: reachable.induct)
  case (reach_step A A')
  from reach_step(2,3) show ?case
    by (cases rule: abs_bar.cases) (auto simp: absbar_ok_def, metis le_SucI)
qed (simp add: absbar_start_def absbar_ok_def)

section \<open>The implementation refines it\<close>

lemma absbar_of_start: "bar_start sinv P B \<Longrightarrow> absbar_start (absbar_of B)"
  by (simp add: bar_start_def absbar_start_def absbar_of_def)

lemma round_arrives:
  assumes ok: "round_ok P B" and t: "br_pc B t = BRead w"
    and B': "br_arr B' = (br_arr B)(t := Suc (br_arr B t))" "br_ret B' = br_ret B"
  shows "abs_bar P (absbar_of B) (absbar_of B')"
proof -
  have tP: "t \<in> P" using round_member [OF ok] t by simp
  then have "br_arr B t = br_ret B t" using round_facts(9) [OF ok tP] t by simp
  with tP have "abs_bar P (absbar_of B)
      (absbar_of B\<lparr>ab_arr := (ab_arr (absbar_of B))(t := Suc (ab_arr (absbar_of B) t))\<rparr>)"
    by (intro ab_arrive) (simp_all add: absbar_of_def)
  then show ?thesis by (simp add: absbar_of_def B')
qed

lemma round_passes:
  assumes ok: "round_ok P B" and t: "t \<in> P" "br_arr B t = br_gen B" "br_gen B = Suc (br_ret B t)"
    and B': "br_arr B' = br_arr B" "br_ret B' = (br_ret B)(t := Suc (br_ret B t))"
  shows "abs_bar P (absbar_of B) (absbar_of B')"
proof -
  have "br_gen B \<le> br_arr B u" if "u \<in> P" for u
    using round_facts(9) [OF ok that] by (cases "br_pc B u") (auto split: if_splits)
  with t have "abs_bar P (absbar_of B)
      (absbar_of B\<lparr>ab_ret := (ab_ret (absbar_of B))(t := Suc (ab_ret (absbar_of B) t))\<rparr>)"
    by (intro ab_pass) (simp_all add: absbar_of_def)
  then show ?thesis by (simp add: absbar_of_def B')
qed

lemma bar_step_refines:
  assumes "bar_step rt running moves P B B'" and ok: "bar_ok sinv blocked P B"
  shows "abs_bar P (absbar_of B) (absbar_of B') \<or> absbar_of B' = absbar_of B"
proof -
  note r0 = bar_okD(1) [OF ok]
  from assms(1) show ?thesis
  proof (cases rule: bar_step.cases)
    case (b_arrive t w k b)
    show ?thesis unfolding b_arrive(1) by (intro disjI1 round_arrives [OF r0 b_arrive(3)]) simp_all
  next
    case (b_last t w k b)
    show ?thesis unfolding b_last(1) by (intro disjI1 round_arrives [OF r0 b_last(3)]) simp_all
  next
    case (b_leave t w k n v)
    have tP: "t \<in> P" using round_member [OF r0] b_leave(3) by simp
    have "signal_at k (br_bar B) = Some (\<not> w)" using b_leave(4,5) by auto
    with round_flag(1) [OF r0, of t w k] b_leave(3) have "w = even (br_gen B)" by simp
    with round_facts(9) [OF r0 tP] b_leave(3)
    have "br_arr B t = br_gen B" "br_gen B = Suc (br_ret B t)" by (auto split: if_splits)
    then show ?thesis unfolding b_leave(1) by (intro disjI1 round_passes [OF r0 tP]) simp_all
  next
    case (b_done t w i)
    have tP: "t \<in> P" using round_member [OF r0] b_done(3) by simp
    have "br_arr B t = br_gen B" "br_gen B = Suc (br_ret B t)"
      using round_facts(9) [OF r0 tP] b_done(3) by simp_all
    then show ?thesis unfolding b_done(1) by (intro disjI1 round_passes [OF r0 tP]) simp_all
  qed (simp_all add: absbar_of_def)
qed

context two_level_scheduler
begin

text \<open>Executions of the implementation are executions of the specification.\<close>

lemma bar_refines:
  assumes "reachable (bar_start sinv P) (bar_step rt running moves P) B"
  shows "reachable absbar_start (abs_bar P) (absbar_of B)"
  using assms
proof (induction rule: reachable.induct)
  case (reach_init B)
  then show ?case by (intro reachable.reach_init absbar_of_start)
next
  case (reach_step B B')
  from bar_step_refines [OF reach_step(2) bar_reachable_ok [OF reach_step(1)]] reach_step(3)
  show ?case by (auto intro: reachable.reach_step)
qed

end

section \<open>A call ends\<close>

text \<open>
  A bound on the steps that a thread still takes itself, from each place of the call: a thousand
  stalls and the way to sleep and back for one that waits, two loops over the threads for the one
  that opens the barrier. A thread that has stalled often enough and is not asleep has seen its
  flag change.
\<close>

fun rank :: "nat \<Rightarrow> bpc \<Rightarrow> nat" where
  "rank m BIdle = 0"
| "rank m (BRead w) = 2 * m + 1010"
| "rank m (BSpin w k n) = (if n < MAXSTALLS then nat (MAXSTALLS - n) + 4 else 1)"
| "rank m (BStall w k n) = 4"
| "rank m (BHeld w k n) = 3"
| "rank m (BAsleep w k n) = 2"
| "rank m (BReset w) = 2 * m + 5"
| "rank m (BFlip w) = 2 * m + 4"
| "rank m (BSignal w i) = nat (int m - i) + m + 3"
| "rank m (BRelease w) = m + 2"
| "rank m (BWaking w i) = nat (int m - i) + 1"

lemma rank_bound:
  assumes ok: "bar_ok sinv blocked P B"
  shows "rank (card P) (br_pc B t) \<le> 2 * card P + 1010"
proof (cases "br_pc B t")
  case (BSpin w k n)
  then show ?thesis using bar_okD(8) [OF ok, of t] by auto
next
  case (BSignal w i)
  then have "is_opening (br_pc B t)" by simp
  from leader_opening(4) [OF bar_okD(1) [OF ok] this] BSignal have "0 \<le> i" by simp
  then have "nat (int (card P) - i) \<le> card P" by linarith
  then show ?thesis by (simp add: BSignal)
next
  case (BWaking w i)
  then have "is_opening (br_pc B t)" by simp
  from leader_opening(3) [OF bar_okD(1) [OF ok] this] BWaking bar_okD(4) [OF ok, of w]
  have "0 \<le> i" by (simp add: queue_ok_def)
  then have "nat (int (card P) - i) \<le> card P" by linarith
  then show ?thesis by (simp add: BWaking)
qed simp_all

text \<open>What one step does to the place of a thread: it enters a call, or comes nearer to its end.\<close>

definition nearer :: "nat \<Rightarrow> bpc \<Rightarrow> bpc \<Rightarrow> bool" where
  "nearer m p q \<longleftrightarrow> q = p \<or> p = BIdle \<or> rank m q < rank m p"

lemma nearer_upd:
  assumes "nearer m (f t) q"
  shows "nearer m (f u) ((f(t := q)) u)"
  using assms by (simp add: nearer_def)

lemma nearer_wake:
  assumes ok: "bar_ok sinv blocked P B" and t: "br_pc B t = BWaking w i"
    and i: "i < cq_len (blocked_at w (br_bar B))" "cell_at i (blocked_at w (br_bar B)) = Some x"
  shows "nearer (card P) (br_pc B u) (((br_pc B)(x := woken (br_pc B x), t := BWaking w (i + 1))) u)"
proof -
  have "cq_len (blocked_at w (br_bar B)) \<le> int (card P)"
    using bar_okD(4) [OF ok, of w] by (simp add: queue_ok_def)
  with i have i': "i < int (card P)" by simp
  from bar_ok_wake(1) [OF ok t i] obtain k n where x: "br_pc B x = BAsleep w k n"
    by (auto simp: sleepers_def)
  then have "n = MAXSTALLS" using bar_okD(8) [OF ok, of x] by simp
  with x t i' show ?thesis by (simp add: nearer_def)
qed

lemma bar_step_nearer:
  assumes "bar_step rt running moves P B B'" and ok: "bar_ok sinv blocked P B"
  shows "nearer (card P) (br_pc B u) (br_pc B' u)"
proof -
  note r0 = bar_okD(1) [OF ok]
  have N: "bar_N (br_bar B) = int (card P)" by (rule round_facts(2) [OF r0])
  from assms(1) show ?thesis
  proof (cases rule: bar_step.cases)
    case (b_stall t w k n n')
    then have "n < MAXSTALLS" "n' = n + 1"
      using bar_okD(8) [OF ok, of t] by (auto simp: int_inc_def split: if_splits)
    then show ?thesis unfolding b_stall(1) using b_stall(3) by (simp add: nearer_def)
  next
    case (b_lock_late t w k n v)
    then have "n = MAXSTALLS" using bar_okD(8) [OF ok, of t] by simp
    then show ?thesis unfolding b_lock_late(1) using b_lock_late(3) by (simp add: nearer_def)
  next
    case (b_signal t w i b)
    then show ?thesis using N by (simp add: nearer_def)
  next
    case (b_wake t w i x s')
    show ?thesis unfolding b_wake(1) using nearer_wake [OF ok b_wake(3-5)] by simp
  qed (auto simp: nearer_def)
qed

text \<open>How often a thread changes its place along an execution.\<close>

fun own_moves :: "upthread_t \<Rightarrow> 's barsys list \<Rightarrow> nat" where
  "own_moves t (B # B' # Bs) = (if br_pc B' t = br_pc B t then 0 else 1) + own_moves t (B' # Bs)"
| "own_moves t Bs = 0"

context two_level_scheduler
begin

text \<open>As long as a thread is inside a call, its moves are paid for by its rank.\<close>

lemma bar_moves_bound:
  assumes "bar_ok sinv blocked P (hd Bs)" and "Bs \<noteq> []" and "successively (bar_step rt running moves P) Bs"
    and "\<forall>B \<in> set (butlast Bs). br_pc B t \<noteq> BIdle"
  shows "own_moves t Bs + rank (card P) (br_pc (last Bs) t) \<le> rank (card P) (br_pc (hd Bs) t)"
  using assms
proof (induction t Bs rule: own_moves.induct)
  case (1 t B B' Bs)
  then have st: "bar_step rt running moves P B B'" and ok: "bar_ok sinv blocked P B"
    and nid: "br_pc B t \<noteq> BIdle" by simp_all
  have "own_moves t (B' # Bs) + rank (card P) (br_pc (last (B' # Bs)) t) \<le> rank (card P) (br_pc B' t)"
    using 1 bar_step_ok [OF st ok] by (simp split: if_splits)
  with bar_step_nearer [OF st ok, of t] nid show ?case by (auto simp: nearer_def)
qed simp_all

end

end
