(* ===== verification/Sync_Objects.thy ===== *)
theory Sync_Objects
  imports Monitor_Spec Semaphore_System Barrier_Spec
begin

text \<open>
  Synchronisation objects together on one scheduler. A mutex with its condition variable, a
  semaphore and a barrier were each studied alone; a program uses several of them, and its threads
  go to sleep on one and are woken by another. The locale \<open>sync_object\<close> says what an object
  owes to the others (it wakes only its own sleepers, it puts only running threads to sleep, it
  does not mind what else happens to the scheduler); two such objects side by side are one again.
\<close>

section \<open>Objects\<close>

text \<open>An object with the scheduler it runs on: its executions, how to read and replace the scheduler,
  and the threads that sleep for it.\<close>

record ('s, 'o) sync_ops =
  so_sched :: "'o \<Rightarrow> 's"
  so_put :: "'s \<Rightarrow> 'o \<Rightarrow> 'o"
  so_start :: "'o \<Rightarrow> bool"
  so_step :: "'o \<Rightarrow> 'o \<Rightarrow> bool"
  so_sleeping :: "'o \<Rightarrow> upthread_t set"

abbreviation so_reachable :: "('s, 'o) sync_ops \<Rightarrow> 'o \<Rightarrow> bool" where
  "so_reachable A \<equiv> reachable (so_start A) (so_step A)"

locale sync_object =
  fixes sinv :: "'s \<Rightarrow> bool"
    and running :: "'s \<Rightarrow> upthread_t set"
    and blocked :: "'s \<Rightarrow> upthread_t set"
    and A :: "('s, 'o) sync_ops"
    and inv :: "'o \<Rightarrow> bool"
  assumes sleepers_not_running: "sinv s \<Longrightarrow> t \<in> blocked s \<Longrightarrow> t \<notin> running s"
    and start_inv: "so_start A M \<Longrightarrow> inv M \<and> so_sleeping A M = {}"
    and step_inv: "so_step A M M' \<Longrightarrow> inv M \<Longrightarrow> inv M'"
    and inv_sched: "inv M \<Longrightarrow> sinv (so_sched A M) \<and> so_sleeping A M \<subseteq> blocked (so_sched A M)"
    and inv_put: "inv M \<Longrightarrow> sinv s \<Longrightarrow> so_sleeping A M \<subseteq> blocked s \<Longrightarrow> inv (so_put A s M)"
    and step_blocked: "so_step A M M' \<Longrightarrow> inv M \<Longrightarrow>
          blocked (so_sched A M) - so_sleeping A M \<subseteq> blocked (so_sched A M')"
    and step_sleeping: "so_step A M M' \<Longrightarrow> inv M \<Longrightarrow>
          so_sleeping A M' \<subseteq> so_sleeping A M \<union> running (so_sched A M)"
    and sched_put: "so_sched A (so_put A s M) = s"
    and sleeping_put: "so_sleeping A (so_put A s M) = so_sleeping A M"
begin

lemma reachable_inv: "so_reachable A M \<Longrightarrow> inv M"
  by (erule reachable_invariant) (auto dest: start_inv step_inv)

text \<open>What another object sees of a step.\<close>

lemma step_others:
  assumes "so_step A M M'" and "inv M" and "Z \<subseteq> blocked (so_sched A M)" and "so_sleeping A M \<inter> Z = {}"
  shows "Z \<subseteq> blocked (so_sched A M')" and "so_sleeping A M' \<inter> Z = {}" and "sinv (so_sched A M')"
proof -
  show "Z \<subseteq> blocked (so_sched A M')" using step_blocked [OF assms(1,2)] assms(3,4) by blast
  have "running (so_sched A M) \<inter> Z = {}"
    using sleepers_not_running inv_sched [OF assms(2)] assms(3) by blast
  then show "so_sleeping A M' \<inter> Z = {}" using step_sleeping [OF assms(1,2)] assms(4) by blast
  show "sinv (so_sched A M')" using inv_sched [OF step_inv [OF assms(1,2)]] by blast
qed

end

section \<open>Two objects side by side\<close>

text \<open>They share the scheduler: a step of one of them is seen by the other as a change of it.\<close>

inductive pair_step ::
  "('s, 'o) sync_ops \<Rightarrow> ('s, 'p) sync_ops \<Rightarrow> 'o \<times> 'p \<Rightarrow> 'o \<times> 'p \<Rightarrow> bool"
  for A :: "('s, 'o) sync_ops" and B :: "('s, 'p) sync_ops" where
  pair_left: "so_step A M M' \<Longrightarrow> pair_step A B (M, N) (M', so_put B (so_sched A M') N)"
| pair_right: "so_step B N N' \<Longrightarrow> pair_step A B (M, N) (so_put A (so_sched B N') M, N')"

definition pair_object :: "('s, 'o) sync_ops \<Rightarrow> ('s, 'p) sync_ops \<Rightarrow> ('s, 'o \<times> 'p) sync_ops" where
  "pair_object A B =
     \<lparr>so_sched = (\<lambda>(M, N). so_sched A M), so_put = (\<lambda>s (M, N). (so_put A s M, so_put B s N)),
      so_start = (\<lambda>(M, N). so_start A M \<and> so_start B N \<and> so_sched A M = so_sched B N),
      so_step = pair_step A B, so_sleeping = (\<lambda>(M, N). so_sleeping A M \<union> so_sleeping B N)\<rparr>"

definition pair_inv ::
  "('s, 'o) sync_ops \<Rightarrow> ('s, 'p) sync_ops \<Rightarrow> ('o \<Rightarrow> bool) \<Rightarrow> ('p \<Rightarrow> bool) \<Rightarrow> 'o \<times> 'p \<Rightarrow> bool" where
  "pair_inv A B I J = (\<lambda>(M, N). I M \<and> J N \<and> so_sched A M = so_sched B N \<and>
     so_sleeping A M \<inter> so_sleeping B N = {})"

lemma pair_object_simps [simp]:
  "so_sched (pair_object A B) (M, N) = so_sched A M"
  "so_put (pair_object A B) s (M, N) = (so_put A s M, so_put B s N)"
  "so_start (pair_object A B) (M, N) \<longleftrightarrow> so_start A M \<and> so_start B N \<and> so_sched A M = so_sched B N"
  "so_step (pair_object A B) = pair_step A B"
  "so_sleeping (pair_object A B) (M, N) = so_sleeping A M \<union> so_sleeping B N"
  "pair_inv A B I J (M, N) \<longleftrightarrow> I M \<and> J N \<and> so_sched A M = so_sched B N \<and>
     so_sleeping A M \<inter> so_sleeping B N = {}"
  by (simp_all add: pair_object_def pair_inv_def)

locale sync_pair =
  a: sync_object sinv running blocked A I + b: sync_object sinv running blocked B J
  for sinv :: "'s \<Rightarrow> bool" and running blocked :: "'s \<Rightarrow> upthread_t set"
    and A :: "('s, 'o) sync_ops" and I :: "'o \<Rightarrow> bool"
    and B :: "('s, 'p) sync_ops" and J :: "'p \<Rightarrow> bool"
begin

lemma pair_left_ok:
  assumes st: "so_step A M M'" and inv: "pair_inv A B I J (M, N)"
  shows "pair_inv A B I J (M', so_put B (so_sched A M') N)"
    and "so_sleeping B N \<subseteq> blocked (so_sched A M')"
proof -
  from inv have i: "I M" "J N" "so_sched A M = so_sched B N" "so_sleeping A M \<inter> so_sleeping B N = {}" by simp_all
  have Z: "so_sleeping B N \<subseteq> blocked (so_sched A M)" using b.inv_sched [OF i(2)] i(3) by simp
  note o = a.step_others [OF st i(1) Z i(4)]
  show "so_sleeping B N \<subseteq> blocked (so_sched A M')" by (rule o(1))
  show "pair_inv A B I J (M', so_put B (so_sched A M') N)"
    using a.step_inv [OF st i(1)] b.inv_put [OF i(2) o(3,1)] o(2) by (simp add: b.sched_put b.sleeping_put)
qed

lemma pair_right_ok:
  assumes st: "so_step B N N'" and inv: "pair_inv A B I J (M, N)"
  shows "pair_inv A B I J (so_put A (so_sched B N') M, N')"
    and "so_sleeping A M \<subseteq> blocked (so_sched B N')"
proof -
  from inv have i: "I M" "J N" "so_sched A M = so_sched B N" "so_sleeping B N \<inter> so_sleeping A M = {}" by auto
  have Z: "so_sleeping A M \<subseteq> blocked (so_sched B N)" using a.inv_sched [OF i(1)] i(3) by simp
  note o = b.step_others [OF st i(2) Z i(4)]
  show "so_sleeping A M \<subseteq> blocked (so_sched B N')" by (rule o(1))
  show "pair_inv A B I J (so_put A (so_sched B N') M, N')"
    using b.step_inv [OF st i(2)] a.inv_put [OF i(1) o(3,1)] o(2)
    by (auto simp: a.sched_put a.sleeping_put)
qed

end

sublocale sync_pair \<subseteq> pair: sync_object sinv running blocked "pair_object A B" "pair_inv A B I J"
proof (unfold_locales, goal_cases)
  case (1 s t)
  then show ?case using a.sleepers_not_running by blast
next
  case (2 X)
  then show ?case using a.start_inv b.start_inv by (cases X) auto
next
  case (3 X X')
  then show ?case by (auto elim!: pair_step.cases intro: pair_left_ok pair_right_ok)
next
  case (4 X)
  then obtain M N where X: "X = (M, N)" "I M" "J N" "so_sched A M = so_sched B N" by (cases X) auto
  from a.inv_sched [OF X(2)] b.inv_sched [OF X(3)] show ?case by (simp add: X(1,4))
next
  case (5 X s)
  then show ?case using a.inv_put b.inv_put
    by (cases X) (simp add: a.sched_put b.sched_put a.sleeping_put b.sleeping_put)
next
  case (6 X X')
  from 6(1) have "pair_step A B X X'" by simp
  then show ?case
  proof cases
    case (pair_left M M' N)
    then show ?thesis using a.step_blocked [OF pair_left(3)] 6(2) by auto
  next
    case (pair_right N N' M)
    then show ?thesis using b.step_blocked [OF pair_right(3)] 6(2) by (auto simp: a.sched_put)
  qed
next
  case (7 X X')
  from 7(1) have "pair_step A B X X'" by simp
  then show ?case
  proof cases
    case (pair_left M M' N)
    then show ?thesis using a.step_sleeping [OF pair_left(3)] 7(2) by (auto simp: b.sleeping_put)
  next
    case (pair_right N N' M)
    then show ?thesis using b.step_sleeping [OF pair_right(3)] 7(2) by (auto simp: a.sleeping_put)
  qed
next
  case (8 s X)
  then show ?case by (cases X) (simp add: a.sched_put)
next
  case (9 s X)
  then show ?case by (cases X) (simp add: a.sleeping_put b.sleeping_put)
qed

context sync_pair
begin

lemma pair_object_ok: "sync_object sinv running blocked (pair_object A B) (pair_inv A B I J)"
  by (rule pair.sync_object_axioms)

end

section \<open>The three objects\<close>

definition mon_object ::
  "'s runtime \<Rightarrow> ('s \<Rightarrow> bool) \<Rightarrow> ('s \<Rightarrow> upthread_t set) \<Rightarrow> ('s \<Rightarrow> 's \<Rightarrow> bool) \<Rightarrow> ('s, 's monitor) sync_ops" where
  "mon_object rt sinv running moves =
     \<lparr>so_sched = mon_sched, so_put = (\<lambda>s M. M\<lparr>mon_sched := s\<rparr>), so_start = mon_init sinv,
      so_step = mon_step rt running moves, so_sleeping = asleep\<rparr>"

definition bar_object ::
  "'s runtime \<Rightarrow> ('s \<Rightarrow> bool) \<Rightarrow> ('s \<Rightarrow> upthread_t set) \<Rightarrow> ('s \<Rightarrow> 's \<Rightarrow> bool) \<Rightarrow> upthread_t set \<Rightarrow>
   ('s, 's barsys) sync_ops" where
  "bar_object rt sinv running moves P =
     \<lparr>so_sched = br_sched, so_put = (\<lambda>s B. B\<lparr>br_sched := s\<rparr>), so_start = bar_start sinv P,
      so_step = bar_step rt running moves P, so_sleeping = (\<lambda>B. sleepers False B \<union> sleepers True B)\<rparr>"

definition sem_object ::
  "'s runtime \<Rightarrow> ('s \<Rightarrow> bool) \<Rightarrow> ('s \<Rightarrow> upthread_t set) \<Rightarrow> ('s \<Rightarrow> 's \<Rightarrow> bool) \<Rightarrow>
   (addr list \<Rightarrow> addr \<Rightarrow> addr list) \<Rightarrow> addr \<Rightarrow> int \<Rightarrow> ('s, 's semsys) sync_ops" where
  "sem_object rt sinv running moves ins sem n =
     \<lparr>so_sched = sy_sched, so_put = (\<lambda>s M. M\<lparr>sy_sched := s\<rparr>), so_start = sem_start sinv sem n,
      so_step = sem_step rt running moves ins sem, so_sleeping = sem_asleep\<rparr>"

lemma unlock_pops: "mutex_unlock_cs m = Some (Some x, m') \<Longrightarrow> x \<in> set (mutex_queue m)"
  by (cases "mutex_queue m") (auto simp: mutex_unlock_cs_def bind_Some_conv Let_def split: if_splits)

lemma cond_pops: "cond_pop c = (Some x, c') \<Longrightarrow> x \<in> set (cond_queue c)"
  by (auto elim: cond_popE)

lemma bar_put_ok:
  assumes ok: "bar_ok sinv blocked P B" and s: "sinv s'" "\<And>w. sleepers w B \<subseteq> blocked s'"
  shows "bar_ok sinv blocked P (B\<lparr>br_sched := s'\<rparr>)"
proof -
  have f: "current (B\<lparr>br_sched := s'\<rparr>) = current B" "released (B\<lparr>br_sched := s'\<rparr>) = released B"
    "bid (B\<lparr>br_sched := s'\<rparr>) = bid B" "lead_pc (B\<lparr>br_sched := s'\<rparr>) = lead_pc B"
    "sleepers w (B\<lparr>br_sched := s'\<rparr>) = sleepers w B" "queued w (B\<lparr>br_sched := s'\<rparr>) = queued w B" for w
    by (simp_all add: current_def released_def bid_def lead_pc_def sleepers_def queued_def fun_eq_iff
        split: option.splits)
  show ?thesis using ok s
    by (simp add: bar_ok_def round_ok_def round_shape_def round_ids_def queue_ok_def f)
qed

context two_level_scheduler
begin

lemma mon_object_ok: "sync_object sinv running blocked (mon_object rt sinv running moves) (mon_inv sinv blocked)"
proof (unfold_locales, goal_cases)
  case (1 s t)
  then show ?case by (rule blocked_not_running)
next
  case (2 M)
  then show ?case using mon_init_inv [of sinv M blocked]
    by (auto simp: mon_object_def mon_init_def asleep_def)
next
  case (3 M M')
  then show ?case by (auto simp: mon_object_def intro: mon_step_inv)
next
  case (4 M)
  then show ?case by (simp add: mon_object_def mon_inv_def)
next
  case (5 M s)
  then show ?case by (simp add: mon_object_def mon_inv_def mon_queues_ok_def mon_lock_ok_def asleep_def)
next
  case (6 M M')
  then have s: "sinv (mon_sched M)" "asleep M \<subseteq> blocked (mon_sched M)" by (simp_all add: mon_inv_def)
  from 6(1) have "mon_step rt running moves M M'" by (simp add: mon_object_def)
  then show ?case
    by cases (use s in \<open>auto simp: mon_object_def asleep_def dest: moves_spec
        elim: mutex_blockE cond_enqueueE pausedE runnableE\<close>)
next
  case (7 M M')
  then have s: "sinv (mon_sched M)" "mon_queues_ok M" by (simp_all add: mon_inv_def)
  from 7(1) have "mon_step rt running moves M M'" by (simp add: mon_object_def)
  then show ?case
    by cases (use s in \<open>auto simp: mon_object_def asleep_def mon_queues_ok_def set_of_opt_def pc_opt_def
        dest: unlock_pops cond_pops split: option.splits if_splits\<close>)
qed (simp_all add: mon_object_def asleep_def)

lemma bar_object_ok: "sync_object sinv running blocked (bar_object rt sinv running moves P) (bar_ok sinv blocked P)"
proof (unfold_locales, goal_cases)
  case (1 s t)
  then show ?case by (rule blocked_not_running)
next
  case (2 B)
  then show ?case using bar_start_ok [of P B] by (auto simp: bar_object_def bar_start_def sleepers_def)
next
  case (3 B B')
  then show ?case by (auto simp: bar_object_def intro: bar_step_ok)
next
  case (4 B)
  then show ?case using bar_okD(2,6) [OF 4] by (simp add: bar_object_def)
next
  case (5 B s)
  have "sleepers w B \<subseteq> blocked s" for w using 5(3) by (cases w) (simp_all add: bar_object_def)
  from bar_put_ok [OF 5(1,2) this] show ?case by (simp add: bar_object_def)
next
  case (6 B B')
  note s0 = bar_okD(2) [OF 6(2)]
  from 6(1) have "bar_step rt running moves P B B'" by (simp add: bar_object_def)
  then show ?case
  proof cases
    case (b_block t w k n q s')
    from b_block(4) have "uthread_has_blocked rt t UTH_EXT_BLK_MUTEX (br_sched B) = Some s'"
      by (auto simp: barrier_block_def bind_Some_conv)
    from has_blockedE [OF this s0 b_block(2)] show ?thesis unfolding b_block(1) by (auto simp: bar_object_def)
  next
    case (b_wake t w i u s')
    have u: "u \<in> sleepers w B" by (rule bar_ok_wake(1) [OF 6(2) b_wake(3-5)])
    then have "u \<in> blocked (br_sched B)" using bar_okD(6) [OF 6(2)] by blast
    from runnableE [OF b_wake(6) s0 this] have "blocked s' = blocked (br_sched B) - {u}" by blast
    with u show ?thesis unfolding b_wake(1) by (cases w) (auto simp: bar_object_def)
  next
    case (b_preempt t s')
    from pausedE [OF b_preempt(3) s0 b_preempt(2)] show ?thesis unfolding b_preempt(1)
      by (auto simp: bar_object_def)
  next
    case (b_sched s')
    from moves_spec [OF b_sched(2) s0] show ?thesis unfolding b_sched(1) by (auto simp: bar_object_def)
  qed (auto simp: bar_object_def)
next
  case (7 B B')
  from 7(1) have "bar_step rt running moves P B B'" by (simp add: bar_object_def)
  then show ?case
  proof cases
    case (b_wake t w i u s')
    then show ?thesis using bar_ok_wake(1) [OF 7(2) b_wake(3-5)]
      by (auto simp: bar_object_def sleepers_def split: if_splits)
  qed (auto simp: bar_object_def sleepers_def split: if_splits)
qed (simp_all add: bar_object_def sleepers_def)

lemma futex_block_blocked:
  assumes "futex_block rt t e mem (fx, s) = Some (fx', s')" and "sinv s" and "t \<in> running s"
  shows "blocked s \<subseteq> blocked s'"
  using assms by (auto simp: futex_block_def bind_Some_conv elim: has_blockedE pausedE split: if_splits)

lemma sem_take_asleep:
  assumes inv: "sem_inv sinv blocked sem n M" and ins: "wfl_adds ins"
    and fresh: "\<And>p. malloc = Some p \<Longrightarrow> fx_heap (sy_fx M) p = None"
    and tk: "futex_take ins malloc sem 1 (sy_fx M) = Some (q, fx')"
  shows "{x. Some x \<in> fe_upthread ` set q} \<subseteq> {t. sy_pc M t = SAsleep}"
proof -
  have fx: "fx_ok (sy_fx M)" "fe_upthread ` set (fx_queue sem (sy_fx M)) = Some ` {t. sy_pc M t = SAsleep}"
    using inv by (simp_all add: sem_inv_def sem_queue_ok_def)
  have "set q \<subseteq> set (fx_queue sem (sy_fx M))"
    using futex_take_spec(2) [OF fx(1) ins fresh tk] by (simp add: set_take_subset)
  then have "fe_upthread ` set q \<subseteq> Some ` {t. sy_pc M t = SAsleep}" using fx(2) by blast
  then show ?thesis by blast
qed

lemma sem_object_ok:
  assumes ins: "wfl_adds ins"
  shows "sync_object sinv running blocked (sem_object rt sinv running moves ins sem n) (sem_inv sinv blocked sem n)"
proof (unfold_locales, goal_cases)
  case (1 s t)
  then show ?case by (rule blocked_not_running)
next
  case (2 M)
  then show ?case using sem_start_inv [of sinv sem n M blocked]
    by (auto simp: sem_object_def sem_start_def sem_asleep_def)
next
  case (3 M M')
  then show ?case by (auto simp: sem_object_def intro: sem_step_inv ins)
next
  case (4 M)
  then show ?case by (simp add: sem_object_def sem_inv_def)
next
  case (5 M s)
  then show ?case
    by (simp add: sem_object_def sem_inv_def sem_queue_ok_def sem_count_ok_def sem_bounded_def sem_asleep_def)
next
  case (6 M M')
  then have s: "sinv (sy_sched M)" "sem_asleep M \<subseteq> blocked (sy_sched M)" by (simp_all add: sem_inv_def)
  from 6(1) have "sem_step rt running moves ins sem M M'" by (simp add: sem_object_def)
  then show ?case
    by cases (use s in \<open>auto simp: sem_object_def sem_asleep_def
        dest: moves_spec futex_block_blocked [THEN subsetD] elim: pausedE runnableE\<close>)
next
  case (7 M M')
  from 7(1) have "sem_step rt running moves ins sem M M'" by (simp add: sem_object_def)
  then show ?case
  proof cases
    case (s_post_take t malloc q fx')
    have "so_sleeping (sem_object rt sinv running moves ins sem n) M' \<subseteq>
        sem_asleep M \<union> {x. Some x \<in> fe_upthread ` set q}"
      unfolding s_post_take(1) by (auto simp: sem_object_def sem_asleep_def split: if_splits)
    also have "\<dots> \<subseteq> sem_asleep M"
      using sem_take_asleep [OF 7(2) ins s_post_take(4,5)] by (auto simp: sem_asleep_def)
    finally show ?thesis by (auto simp: sem_object_def)
  qed (auto simp: sem_object_def sem_asleep_def split: if_splits)
qed (simp_all add: sem_object_def sem_asleep_def)

end

section \<open>A program with all three\<close>

text \<open>Any number of threads that use a mutex, its condition variable, a barrier for the threads in
  \<open>P\<close>, and a semaphore.\<close>

definition program ::
  "'s runtime \<Rightarrow> ('s \<Rightarrow> bool) \<Rightarrow> ('s \<Rightarrow> upthread_t set) \<Rightarrow> ('s \<Rightarrow> 's \<Rightarrow> bool) \<Rightarrow> upthread_t set \<Rightarrow>
   (addr list \<Rightarrow> addr \<Rightarrow> addr list) \<Rightarrow> addr \<Rightarrow> int \<Rightarrow>
   ('s, ('s monitor \<times> 's barsys) \<times> 's semsys) sync_ops" where
  "program rt sinv running moves P ins sem n =
     pair_object (pair_object (mon_object rt sinv running moves) (bar_object rt sinv running moves P))
       (sem_object rt sinv running moves ins sem n)"

context two_level_scheduler
begin

lemma mon_bar_ok:
  "sync_pair sinv running blocked (mon_object rt sinv running moves) (mon_inv sinv blocked)
     (bar_object rt sinv running moves P) (bar_ok sinv blocked P)"
  by (intro sync_pair.intro mon_object_ok bar_object_ok)

lemma program_object_ok:
  assumes "wfl_adds ins"
  shows "sync_object sinv running blocked (program rt sinv running moves P ins sem n)
    (pair_inv (pair_object (mon_object rt sinv running moves) (bar_object rt sinv running moves P))
       (sem_object rt sinv running moves ins sem n)
       (pair_inv (mon_object rt sinv running moves) (bar_object rt sinv running moves P)
          (mon_inv sinv blocked) (bar_ok sinv blocked P)) (sem_inv sinv blocked sem n))"
  unfolding program_def
  by (intro sync_pair.pair_object_ok sync_pair.intro mon_bar_ok [THEN sync_pair.pair_object_ok] sem_object_ok assms)

lemma program_inv:
  assumes "so_reachable (program rt sinv running moves P ins sem n) ((M, B), S)" and "wfl_adds ins"
  shows "mon_inv sinv blocked M" and "bar_ok sinv blocked P B" and "sem_inv sinv blocked sem n S"
    and "asleep M \<inter> (sleepers False B \<union> sleepers True B) = {}"
    and "(asleep M \<union> (sleepers False B \<union> sleepers True B)) \<inter> sem_asleep S = {}"
    and "mon_sched M = br_sched B" and "br_sched B = sy_sched S"
proof -
  have f: "so_sched (mon_object rt sinv running moves) = mon_sched"
    "so_sched (bar_object rt sinv running moves P) = br_sched"
    "so_sched (sem_object rt sinv running moves ins sem n) = sy_sched"
    "so_sleeping (mon_object rt sinv running moves) = asleep"
    "so_sleeping (bar_object rt sinv running moves P) = (\<lambda>B. sleepers False B \<union> sleepers True B)"
    "so_sleeping (sem_object rt sinv running moves ins sem n) = sem_asleep"
    by (simp_all add: mon_object_def bar_object_def sem_object_def)
  note i = sync_object.reachable_inv [OF program_object_ok [OF assms(2)] assms(1), unfolded pair_object_simps f]
  from i show "mon_inv sinv blocked M" "bar_ok sinv blocked P B" "sem_inv sinv blocked sem n S" by blast+
  from i show "asleep M \<inter> (sleepers False B \<union> sleepers True B) = {}"
    "(asleep M \<union> (sleepers False B \<union> sleepers True B)) \<inter> sem_asleep S = {}" by blast+
  from i show "mon_sched M = br_sched B" "br_sched B = sy_sched S" by metis+
qed

text \<open>What each object promises alone, it promises among the others.\<close>

lemma program_safe:
  assumes "so_reachable (program rt sinv running moves P ins sem n) ((M, B), S)" and "wfl_adds ins"
  shows "0 < mon_held M t \<Longrightarrow> 0 < mon_held M u \<Longrightarrow>
      t = u \<and> mutex_owner (mon_mutex M) = Some t \<and> mutex_locked (mon_mutex M) = int (mon_held M t)"
    and "t \<in> P \<Longrightarrow> u \<in> P \<Longrightarrow> br_ret B t \<le> br_arr B u"
    and "sem_bounded n S \<Longrightarrow> sy_mem S sem = Some (n + int (sy_posts S) - int (sy_waits S)) \<and>
      int (sy_waits S) \<le> n + int (sy_posts S)"
proof -
  note i = program_inv [OF assms]
  show "t = u \<and> mutex_owner (mon_mutex M) = Some t \<and> mutex_locked (mon_mutex M) = int (mon_held M t)"
    if "0 < mon_held M t" "0 < mon_held M u"
    using i(1) that by (auto simp: mon_inv_def mon_lock_ok_def mutex_holds_def split: if_splits)
  show "br_ret B t \<le> br_arr B u" if "t \<in> P" "u \<in> P" using bar_rounds [OF i(2) that] by blast
  show "sy_mem S sem = Some (n + int (sy_posts S) - int (sy_waits S)) \<and>
      int (sy_waits S) \<le> n + int (sy_posts S)" if "sem_bounded n S"
    using i(3) that by (auto simp: sem_inv_def sem_count_ok_def)
qed

lemma program_live:
  assumes "so_reachable (program rt sinv running moves P ins sem n) ((M, B), S)" and "wfl_adds ins"
  shows "mutex_locked (mon_mutex M) = 0 \<Longrightarrow> mon_pc M t = Lock_waiting \<Longrightarrow> \<exists>w. mon_pc M w = Lock_retry"
    and "br_pc B t = BAsleep w k m \<Longrightarrow>
      (\<exists>u \<in> P. br_arr B u < br_arr B t) \<or> (\<exists>l \<in> P. is_opening (br_pc B l))"
    and "sem_bounded n S \<Longrightarrow> sy_pc S t = SAsleep \<Longrightarrow> sy_mem S sem = Some v \<Longrightarrow>
      v \<le> int (card {u. sem_active (sy_pc S u)})"
proof -
  note i = program_inv [OF assms]
  show "\<exists>w. mon_pc M w = Lock_retry" if "mutex_locked (mon_mutex M) = 0" "mon_pc M t = Lock_waiting"
  proof -
    from i(1) that(2) have "t \<in> set (mutex_queue (mon_mutex M))" by (simp add: mon_inv_def mon_queues_ok_def)
    then have "mutex_queue (mon_mutex M) \<noteq> []" by auto
    with i(1) that(1) show ?thesis by (simp add: mon_inv_def mon_lock_ok_def)
  qed
  show "(\<exists>u \<in> P. br_arr B u < br_arr B t) \<or> (\<exists>l \<in> P. is_opening (br_pc B l))"
    if "br_pc B t = BAsleep w k m" using bar_asleep [OF i(2) that] by blast
  show "v \<le> int (card {u. sem_active (sy_pc S u)})"
    if "sem_bounded n S" "sy_pc S t = SAsleep" "sy_mem S sem = Some v"
  proof -
    have "{t. sy_pc S t = SAsleep} \<noteq> {}" using that(2) by blast
    with i(3) that(1,3) show ?thesis by (auto simp: sem_inv_def sem_count_ok_def count_pc_def)
  qed
qed

text \<open>A thread sleeps for one object at a time, and is then blocked in the scheduler.\<close>

lemma program_sleepers:
  assumes "so_reachable (program rt sinv running moves P ins sem n) ((M, B), S)" and "wfl_adds ins"
  shows "asleep M \<union> (sleepers False B \<union> sleepers True B) \<union> sem_asleep S \<subseteq> blocked (mon_sched M)"
proof -
  note i = program_inv [OF assms]
  have "asleep M \<subseteq> blocked (mon_sched M)" using i(1) by (simp add: mon_inv_def)
  moreover have "sleepers False B \<union> sleepers True B \<subseteq> blocked (mon_sched M)"
    using bar_okD(6) [OF i(2)] i(6) by simp
  moreover have "sem_asleep S \<subseteq> blocked (sy_sched S)" using i(3) by (simp add: sem_inv_def)
  then have "sem_asleep S \<subseteq> blocked (mon_sched M)" using i(6,7) by metis
  ultimately show ?thesis by blast
qed

end

end
