(* ===== verification/Gq_Moves.thy ===== *)
theory Gq_Moves
  imports Gq_Exit Sync_Objects
begin

text \<open>
  What the global-queue scheduler does by itself, as a step relation, and the proof that the
  scheduler meets the contract the synchronisation primitives rely on.
\<close>

section \<open>Steps of the scheduler\<close>

text \<open>
  One rule per entry into \<^verbatim>\<open>src/gq/upthread.c\<close> other than the two that block and wake a
  thread for a primitive. A thread acts while it is on the active queue. The premises on a join
  are those of its documented use: the target is not detached, is not the caller, and has no
  other thread waiting for it; the second half of the call runs when the target has exited.
\<close>

inductive gq_moves :: "gq \<Rightarrow> gq \<Rightarrow> bool" where
  gq_dispatch: "gq_take_ready s = (Some t, s') \<Longrightarrow> gq_moves s s'"
| gq_yields: "t \<in> set (active_queue s) \<Longrightarrow>
    gq_pth_yield_cb gq_pth_thread_runnable t s = Some s' \<Longrightarrow> gq_moves s s'"
| gq_preempt: "t \<in> set (active_queue s) \<Longrightarrow>
    gq_pth_thread_paused gq_pth_thread_runnable t s = Some s' \<Longrightarrow> gq_moves s s'"
| gq_syscall: "t \<in> set (active_queue s) \<Longrightarrow>
    gq_pth_blockon_syscall t sysc s = Some s' \<Longrightarrow> gq_moves s s'"
| gq_sysdone: "u_data s sysc = Some t \<Longrightarrow> state_of s t = Some UPTH_BLK_SYSC \<Longrightarrow>
    gq_pth_handle_syscall (Some sysc) s = Some s' \<Longrightarrow> gq_moves s s'"
| gq_creates: "tcbs s t = None \<Longrightarrow>
    gq_upthread_create gq_pth_thread_runnable mmap pgsize t attr start arg s = Some (r, t', s') \<Longrightarrow>
    gq_moves s s'"
| gq_joins: "t \<in> set (active_queue s) \<Longrightarrow> x \<noteq> t \<Longrightarrow> tcbs s x = Some q \<Longrightarrow> \<not> tcb_detached q \<Longrightarrow>
    tcb_joiner q = None \<or> tcb_state q = UPTH_EXITING \<Longrightarrow>
    gq_pth_join_cb gq_pth_thread_runnable t x s = Some s' \<Longrightarrow> gq_moves s s'"
| gq_joined: "t \<in> set (active_queue s) \<Longrightarrow> state_of s x = Some UPTH_EXITING \<Longrightarrow>
    gq_join_finish x s = Some (r, v, s') \<Longrightarrow> gq_moves s s'"
| gq_exits: "t \<in> set (active_queue s) \<Longrightarrow> gq_upthread_exit ret t s = Some s1 \<Longrightarrow>
    gq_pth_exit_cb gq_pth_thread_runnable t s1 = Some s' \<Longrightarrow> gq_moves s s'"
| gq_config: "gq_moves s (gq_upthread_can_vcore_request can s)"

lemma gq_moves_ok_dispatch:
  assumes "gq_ok s" and "gq_take_ready s = (Some t, s')"
  shows "gq_ok s' \<and> blocked_threads s' = blocked_threads s"
proof -
  have inv: "gq_inv s" and jok: "join_ok s" using assms(1) by (simp_all add: gq_ok_def)
  note tr = gq_take_ready_inv [OF inv assms(2)]
  show ?thesis using tr(1) jok join_ok_cong [OF tr(4)] blocked_threads_cong [OF tr(4)]
    by (simp add: gq_ok_def)
qed

lemma gq_moves_ok_active:
  assumes "gq_ok s" and "t \<in> set (active_queue s)"
    and "gq_pth_yield_cb gq_pth_thread_runnable t s = Some s' \<or>
         gq_pth_thread_paused gq_pth_thread_runnable t s = Some s' \<or>
         gq_pth_blockon_syscall t sysc s = Some s'"
  shows "gq_ok s' \<and> blocked_threads s' = blocked_threads s"
proof -
  have inv: "gq_inv s" and jok: "join_ok s" using assms(1) by (simp_all add: gq_ok_def)
  obtain p st where p: "tcbs s t = Some p" "schedulable (tcb_state p)"
    and s': "gq_inv s'" "tcbs s' = (tcbs s)(t \<mapsto> p\<lparr>tcb_state := st\<rparr>)"
    and st: "join_neutral st" "st \<noteq> UPTH_BLK_MUTEX"
    using assms(3) gq_yield_inv [OF inv assms(2)] gq_paused_inv [OF inv assms(2)]
      gq_blockon_syscall_inv [OF inv assms(2), of sysc] by fastforce
  have "tcb_state p \<noteq> UPTH_BLK_MUTEX" using p(2) by auto
  then have "join_ok s' \<and> blocked_threads s' = blocked_threads s"
    by (intro neutral_step [OF jok p(1) s'(2)]) (use p(2) st in \<open>simp_all add: schedulable_neutral\<close>)
  with s'(1) show ?thesis by (simp add: gq_ok_def)
qed

lemma gq_moves_ok_sysdone:
  assumes "gq_ok s" and "u_data s sysc = Some t" and "state_of s t = Some UPTH_BLK_SYSC"
    and "gq_pth_handle_syscall (Some sysc) s = Some s'"
  shows "gq_ok s' \<and> blocked_threads s' = blocked_threads s"
proof -
  have inv: "gq_inv s" and jok: "join_ok s" using assms(1) by (simp_all add: gq_ok_def)
  obtain p where p: "tcbs s t = Some p" "tcb_state p = UPTH_BLK_SYSC"
    using assms(3) by (auto simp: state_of_def)
  with gq_handle_syscall_inv [OF inv assms(2)] assms(4) have s': "gq_inv s'"
      "tcbs s' = (tcbs s)(t \<mapsto> p\<lparr>uth_sysc := None, tcb_state := UPTH_RUNNABLE\<rparr>)" by auto
  have "join_ok s' \<and> blocked_threads s' = blocked_threads s"
    by (rule neutral_step [OF jok p(1) s'(2)]) (use p(2) in simp_all)
  with s'(1) show ?thesis by (simp add: gq_ok_def)
qed

lemma gq_moves_ok_create:
  assumes "gq_ok s" and "tcbs s t = None"
    and "gq_upthread_create gq_pth_thread_runnable mmap pgsize t attr start arg s = Some (r, t', s')"
  shows "gq_ok s' \<and> blocked_threads s' = blocked_threads s"
proof -
  have inv: "gq_inv s" and jok: "join_ok s" using assms(1) by (simp_all add: gq_ok_def)
  from gq_create_inv [OF inv assms(2), of mmap pgsize attr start arg] assms(3)
  obtain p where s': "gq_inv s'" "tcbs s' = (tcbs s)(t \<mapsto> p)" "tcb_state p = UPTH_RUNNABLE"
      "tcb_joiner p = None" by (auto simp: gq_create_tcb_simps)
  have "join_ok s'" by (rule join_ok_new [OF jok assms(2) s'(2,4)]) (simp add: s'(3))
  moreover have "blocked_threads s' = blocked_threads s"
    by (rule blocked_threads_upd [OF s'(2)]) (use s'(3) assms(2) in \<open>simp_all add: state_of_def\<close>)
  ultimately show ?thesis using s'(1) by (simp add: gq_ok_def)
qed

lemma gq_moves_ok_join:
  assumes "gq_ok s" and "t \<in> set (active_queue s)" and "x \<noteq> t" and "tcbs s x = Some q"
    and "\<not> tcb_detached q" and "tcb_joiner q = None \<or> tcb_state q = UPTH_EXITING"
    and "gq_pth_join_cb gq_pth_thread_runnable t x s = Some s'"
  shows "gq_ok s' \<and> blocked_threads s' = blocked_threads s"
proof -
  have inv: "gq_inv s" and jok: "join_ok s" using assms(1) by (simp_all add: gq_ok_def)
  have xt: "t \<noteq> x" using assms(3) by simp
  have blk: "blocked_threads s' = blocked_threads s"
    if "tcbs s t = Some p" "schedulable (tcb_state p)" "st \<noteq> UPTH_BLK_MUTEX"
      "tcbs s' = (tcbs s)(t \<mapsto> p\<lparr>tcb_state := st\<rparr>, x \<mapsto> q\<lparr>tcb_joiner := Some t\<rparr>)" for p st
    using that assms(3,4) by (auto simp: blocked_threads_def state_of_def)
  show ?thesis
  proof (cases "tcb_joiner q")
    case None
    with gq_join_cb_block_inv [OF inv assms(2,4,3), of gq_pth_thread_runnable] assms(7) obtain p where
      p: "tcbs s t = Some p" "schedulable (tcb_state p)" "gq_inv s'"
        "tcbs s' = (tcbs s)(t \<mapsto> p\<lparr>tcb_state := UPTH_BLK_JOINING\<rparr>, x \<mapsto> q\<lparr>tcb_joiner := Some t\<rparr>)"
      by auto
    have "join_ok s'"
      by (rule join_ok_sleep [OF jok xt p(1) assms(4) _ None assms(5) p(4)])
        (rule schedulable_neutral [OF p(2)])
    with p blk [OF p(1,2) _ p(4)] show ?thesis by (simp add: gq_ok_def)
  next
    case (Some w)
    with gq_join_cb_late_inv [OF inv assms(2,4,3)] assms(7) obtain p where
      p: "tcbs s t = Some p" "schedulable (tcb_state p)" "gq_inv s'"
        "tcbs s' = (tcbs s)(t \<mapsto> p\<lparr>tcb_state := UPTH_RUNNABLE\<rparr>, x \<mapsto> q\<lparr>tcb_joiner := Some t\<rparr>)"
      by auto
    have ex: "tcb_state q = UPTH_EXITING" using assms(6) Some by simp
    have "join_ok s'"
      by (rule join_ok_late [OF jok xt p(1) assms(4) schedulable_neutral [OF p(2)] _ ex p(4)]) simp
    with p blk [OF p(1,2) _ p(4)] show ?thesis by (simp add: gq_ok_def)
  qed
qed

lemma gq_moves_ok_joined:
  assumes "gq_ok s" and "state_of s x = Some UPTH_EXITING"
    and "gq_join_finish x s = Some (r, v, s')"
  shows "gq_ok s' \<and> blocked_threads s' = blocked_threads s"
proof -
  have inv: "gq_inv s" and jok: "join_ok s" using assms(1) by (simp_all add: gq_ok_def)
  have s': "s' = s\<lparr>tcbs := (tcbs s)(x := None)\<rparr>"
    using assms(2,3) by (auto simp: gq_join_finish_def state_of_def)
  have "x \<notin> gq_links s" using inv assms(2) by (auto simp: gq_inv_def)
  then have "gq_inv s'" using inv by (auto simp: s' gq_inv_def gq_links_def state_of_def)
  moreover have "join_ok s'" by (rule join_ok_free [OF jok, of _ x]) (use assms(2) in \<open>simp_all add: s'\<close>)
  moreover have "blocked_threads s' = blocked_threads s"
    using assms(2) by (auto simp: s' blocked_threads_def state_of_def)
  ultimately show ?thesis by (simp add: gq_ok_def)
qed

lemma gq_moves_ok_exit:
  assumes "gq_ok s" and "t \<in> set (active_queue s)" and "gq_upthread_exit ret t s = Some s1"
    and "gq_pth_exit_cb gq_pth_thread_runnable t s1 = Some s'"
  shows "gq_ok s' \<and> blocked_threads s' = blocked_threads s"
proof -
  from gq_upthread_exit_ok [OF assms(1,2), of ret] assms(3) obtain p where p: "tcbs s t = Some p"
      "schedulable (tcb_state p)" and ok1: "gq_ok s1"
    and t1: "tcbs s1 = (tcbs s)(t \<mapsto> p\<lparr>tcb_retval := ret\<rparr>)"
    and act: "active_queue s1 = active_queue s" by auto
  let ?p1 = "p\<lparr>tcb_retval := ret\<rparr>"
  have b1: "blocked_threads s1 = blocked_threads s"
    by (rule blocked_threads_upd [OF t1]) (use p in \<open>auto simp: state_of_def\<close>)
  have p1: "tcbs s1 t = Some ?p1" by (simp add: t1)
  have t_sched: "state_of s1 t \<noteq> Some UPTH_BLK_MUTEX" using p(2) by (auto simp: state_of_def p1)
  have "gq_ok s' \<and> blocked_threads s' = blocked_threads s1"
  proof (cases "tcb_detached p")
    case True
    with gq_exit_cb_detached [OF ok1 _ p1, of gq_pth_thread_runnable] assms(2,4) act
    have "gq_ok s'" "tcbs s' = (tcbs s1)(t := None)" by auto
    with t_sched show ?thesis by (auto simp: blocked_threads_def state_of_def)
  next
    case False
    with gq_exit_cb_joinable [OF ok1 _ p1] assms(2,4) act
    have s': "gq_ok s'" "ready_queue s' = ready_queue s1 @ (case tcb_joiner p of None \<Rightarrow> [] | Some w \<Rightarrow> [w])"
        "state_of s' t = Some UPTH_EXITING"
        "\<And>y. y \<noteq> t \<Longrightarrow> tcb_joiner p \<noteq> Some y \<Longrightarrow> tcbs s' y = tcbs s1 y" by auto
    have "(state_of s' y = Some UPTH_BLK_MUTEX) = (state_of s1 y = Some UPTH_BLK_MUTEX)" for y
    proof (cases "y = t \<or> tcb_joiner p \<noteq> Some y")
      case True
      then show ?thesis using s'(3) s'(4) [of y] t_sched
        by (cases "y = t") (auto simp: state_of_def)
    next
      case False
      then have "y \<in> set (ready_queue s')" using s'(2) by simp
      then have "state_of s' y = Some UPTH_RUNNABLE" using s'(1) by (simp add: gq_ok_def gq_inv_def)
      moreover have "state_of s1 y = Some UPTH_BLK_JOINING"
      proof (rule join_ok_live)
        show "join_ok s1" using ok1 by (simp add: gq_ok_def)
        show "joiner_of s1 t = Some y" using False by (simp add: joiner_of_def p1)
        show "state_of s1 t \<noteq> Some UPTH_EXITING" using p(2) by (auto simp: state_of_def p1)
      qed
      ultimately show ?thesis by simp
    qed
    with s'(1) show ?thesis by (simp add: blocked_threads_def)
  qed
  with b1 show ?thesis by simp
qed

lemma gq_moves_ok:
  assumes "gq_moves s s'" and "gq_ok s"
  shows "gq_ok s' \<and> blocked_threads s' = blocked_threads s"
  using assms
proof (induction rule: gq_moves.induct)
  case (gq_config s can)
  let ?s' = "gq_upthread_can_vcore_request can s"
  have "gq_inv ?s' = gq_inv s" "join_ok ?s' = join_ok s"
    using gq_inv_cong [of ?s' s] join_ok_cong [of ?s' s]
    by (simp_all add: gq_upthread_can_vcore_request_def state_of_def)
  with gq_config show ?case
    by (simp add: gq_ok_def gq_upthread_can_vcore_request_def blocked_threads_def state_of_def)
next
  case (gq_dispatch s t s')
  then show ?case by (intro gq_moves_ok_dispatch)
next
  case (gq_yields t s s')
  then show ?case using gq_moves_ok_active by blast
next
  case (gq_preempt t s s')
  then show ?case using gq_moves_ok_active by blast
next
  case (gq_syscall t s sysc s')
  then show ?case using gq_moves_ok_active by blast
next
  case (gq_sysdone s sysc t s')
  then show ?case by (intro gq_moves_ok_sysdone)
next
  case (gq_creates s t mmap pgsize attr start arg r t' s')
  then show ?case by (intro gq_moves_ok_create)
next
  case (gq_joins t s x q s')
  then show ?case by (intro gq_moves_ok_join)
next
  case (gq_joined t s x r v s')
  then show ?case by (intro gq_moves_ok_joined)
next
  case (gq_exits t s ret s1 s')
  then show ?case by (intro gq_moves_ok_exit)
qed

section \<open>The contract\<close>

text \<open>Parlib dispatching to \<^verbatim>\<open>upthread_sched_ops\<close> of this variant.\<close>

definition gq_runtime :: "gq runtime" where
  "gq_runtime = registered (gq_upthread_sched_ops gq_pth_thread_runnable) gq_links"

lemma gq_runtime_simps [simp]:
  "uthread_runnable gq_runtime = gq_pth_thread_runnable"
  "uthread_has_blocked gq_runtime = gq_pth_thread_has_blocked"
  "uthread_paused gq_runtime = gq_pth_thread_paused gq_pth_thread_runnable"
  "linked gq_runtime = gq_links"
  by (simp_all add: gq_runtime_def gq_upthread_sched_ops_def)

definition gq_running :: "gq \<Rightarrow> upthread_t set" where
  "gq_running s = set (active_queue s)"

lemma gq_has_blocked_spec:
  assumes "gq_ok s" and "t \<in> gq_running s"
  shows "\<exists>s'. gq_pth_thread_has_blocked t f s = Some s' \<and> gq_ok s' \<and>
           gq_running s' = gq_running s - {t} \<and> blocked_threads s' = insert t (blocked_threads s)"
proof -
  have inv: "gq_inv s" and jok: "join_ok s" and act: "t \<in> set (active_queue s)"
    using assms by (simp_all add: gq_ok_def gq_running_def)
  from gq_has_blocked_inv [OF inv act] obtain p s' where s': "tcbs s t = Some p"
      "schedulable (tcb_state p)" "gq_pth_thread_has_blocked t f s = Some s'" "gq_inv s'"
      "active_queue s' = remove1 t (active_queue s)"
      "tcbs s' = (tcbs s)(t \<mapsto> p\<lparr>tcb_state := UPTH_BLK_MUTEX\<rparr>)" by blast
  have "join_ok s'"
    by (rule join_ok_neutral_upd [OF jok s'(1,6)]) (use s'(2) schedulable_neutral in simp_all)
  moreover have "blocked_threads s' = insert t (blocked_threads s)"
    using s'(6) by (auto simp: blocked_threads_def state_of_def)
  moreover have "set (active_queue s') = set (active_queue s) - {t}"
    using s'(5) gq_invD(2) [OF inv] by simp
  ultimately show ?thesis using s' by (auto simp: gq_ok_def gq_running_def)
qed

lemma gq_runnable_spec:
  assumes "gq_ok s" and "t \<in> blocked_threads s"
  shows "\<exists>s'. gq_pth_thread_runnable t s = Some s' \<and> gq_ok s' \<and> gq_running s' = gq_running s \<and>
           blocked_threads s' = blocked_threads s - {t} \<and> t \<in> gq_links s'"
proof -
  have inv: "gq_inv s" and jok: "join_ok s" using assms by (simp_all add: gq_ok_def)
  obtain p where p: "tcbs s t = Some p" "tcb_state p = UPTH_BLK_MUTEX"
    using assms(2) by (auto simp: blocked_threads_def state_of_def)
  with gq_runnable_inv [OF inv p(1)] obtain s' where s': "gq_pth_thread_runnable t s = Some s'"
      "gq_inv s'" "ready_queue s' = ready_queue s @ [t]" "active_queue s' = active_queue s"
      "tcbs s' = (tcbs s)(t \<mapsto> p\<lparr>tcb_state := UPTH_RUNNABLE\<rparr>)" by auto
  have "join_ok s'" by (rule join_ok_neutral_upd [OF jok p(1) s'(5)]) (use p(2) in simp_all)
  moreover have "blocked_threads s' = blocked_threads s - {t}"
    using s'(5) by (auto simp: blocked_threads_def state_of_def)
  ultimately show ?thesis using s' by (auto simp: gq_ok_def gq_running_def gq_links_def)
qed

lemma gq_paused_spec:
  assumes "gq_ok s" and "t \<in> gq_running s"
  shows "\<exists>s'. gq_pth_thread_paused gq_pth_thread_runnable t s = Some s' \<and> gq_ok s' \<and>
           gq_running s' = gq_running s - {t} \<and> blocked_threads s' = blocked_threads s \<and>
           t \<in> gq_links s'"
proof -
  have inv: "gq_inv s" and act: "t \<in> set (active_queue s)"
    using assms by (simp_all add: gq_ok_def gq_running_def)
  from gq_paused_inv [OF inv act] obtain s' where s':
      "gq_pth_thread_paused gq_pth_thread_runnable t s = Some s'"
      "ready_queue s' = ready_queue s @ [t]" "active_queue s' = remove1 t (active_queue s)" by blast
  have "gq_ok s' \<and> blocked_threads s' = blocked_threads s"
    by (rule gq_moves_ok [OF gq_preempt [OF act s'(1)] assms(1)])
  moreover have "set (active_queue s') = set (active_queue s) - {t}"
    using s'(3) gq_invD(2) [OF inv] by simp
  ultimately show ?thesis using s' by (auto simp: gq_running_def gq_links_def)
qed

interpretation gq_sched: two_level_scheduler gq_runtime gq_ok gq_running blocked_threads gq_moves
proof (unfold_locales, goal_cases)
  case (1 s t)
  then show ?case using gq_inv_blocked_unlinked by (simp add: gq_ok_def)
next
  case (2 s t)
  then show ?case using gq_inv_blocked_unlinked by (auto simp: gq_ok_def gq_running_def gq_links_def)
next
  case (3 s t f)
  then show ?case using gq_has_blocked_spec by simp
next
  case (4 s t)
  then show ?case using gq_runnable_spec by simp
next
  case (5 s t)
  then show ?case using gq_paused_spec by simp
next
  case (6 s s')
  then show ?case using gq_moves_ok by blast
qed

end
