(* ===== verification/Gq_Correct.thy ===== *)
theory Gq_Correct
  imports Gq_Moves
begin

text \<open>
  What the global-queue scheduler guarantees in every execution that starts with
  \<open>upthread_lib_init\<close>: the shape of its queues and of the joiner slots, first-in first-out
  dispatch, the wake-up of a joiner, and the search loop of \<open>pth_sched_entry\<close>.
\<close>

section \<open>Executions\<close>

definition gq_init :: "gq \<Rightarrow> bool" where
  "gq_init s \<longleftrightarrow>
     (\<exists>spin t stackbottom stacksize.
        gq_upthread_lib_init spin t stackbottom stacksize gq_globals = Some s)"

abbreviation gq_step :: "gq \<Rightarrow> gq \<Rightarrow> bool" where
  "gq_step \<equiv> sched_step gq_runtime gq_running blocked_threads gq_moves"

lemma gq_lib_init_eq:
  "\<exists>s. gq_upthread_lib_init spin t stackbottom stacksize gq_globals = Some s \<and>
       ready_queue s = [] \<and> active_queue s = [t] \<and> threads_ready s = 0 \<and> threads_active s = 1 \<and>
       tcbs s = [t \<mapsto> tcb_zero\<lparr>tcb_id := 0, tcb_stacktop := stackbottom + stacksize,
               tcb_stacksize := ucast stacksize, tcb_detached := True,
               tcb_state := UPTH_RUNNING, tcb_joiner := None\<rparr>]"
  by (auto simp: gq_upthread_lib_init_def gq_globals_def get_next_pid_def Let_def gq_links_def
      split: option.splits)

lemma gq_init_ok:
  assumes "gq_init s"
  shows "gq_ok s"
proof -
  from assms obtain spin t b z where "gq_upthread_lib_init spin t b z gq_globals = Some s"
    by (auto simp: gq_init_def)
  with gq_lib_init_eq [of spin t b z] have s: "ready_queue s = []" "active_queue s = [t]"
    "threads_ready s = 0" "threads_active s = 1"
    "tcbs s = [t \<mapsto> tcb_zero\<lparr>tcb_id := 0, tcb_stacktop := b + z,
               tcb_stacksize := ucast z, tcb_detached := True,
               tcb_state := UPTH_RUNNING, tcb_joiner := None\<rparr>]"
    by auto
  have "gq_inv s" by (auto simp: gq_inv_def gq_links_def state_of_def s)
  moreover have "join_ok s" by (auto simp: join_ok_def state_of_def joiner_of_def s split: if_splits)
  ultimately show ?thesis by (simp add: gq_ok_def)
qed

lemma gq_reachable_ok: "reachable gq_init gq_step s \<Longrightarrow> gq_ok s"
  using gq_sched.sched_reachable_inv gq_init_ok by blast

section \<open>First in, first out\<close>

text \<open>The threads a step takes off the ready queue.\<close>

definition gq_dispatched :: "gq \<Rightarrow> gq \<Rightarrow> upthread_t list" where
  "gq_dispatched s s' =
     (case gq_take_ready s of
        (None, _) \<Rightarrow> []
      | (Some t, s1) \<Rightarrow> if s' = s1 then [t] else [])"

inductive gq_trace :: "gq \<Rightarrow> upthread_t list \<Rightarrow> gq \<Rightarrow> bool" where
  gt_nil: "gq_trace s [] s"
| gt_step: "gq_trace s ds s1 \<Longrightarrow> gq_step s1 s' \<Longrightarrow> gq_trace s (ds @ gq_dispatched s1 s') s'"

text \<open>Every step other than a dispatch only appends to the ready queue.\<close>

definition gq_appends :: "gq \<Rightarrow> gq \<Rightarrow> bool" where
  "gq_appends s s' \<longleftrightarrow> (\<exists>xs. ready_queue s' = ready_queue s @ xs)"

lemma gq_appendsI [intro]:
  "ready_queue s' = ready_queue s @ xs \<Longrightarrow> gq_appends s s'"
  "ready_queue s' = ready_queue s \<Longrightarrow> gq_appends s s'"
  by (auto simp: gq_appends_def)

lemma gq_exit_appends:
  assumes "gq_ok s" and "t \<in> set (active_queue s)" and "gq_upthread_exit ret t s = Some s1"
    and "gq_pth_exit_cb gq_pth_thread_runnable t s1 = Some s'"
  shows "gq_appends s s'"
proof -
  from gq_upthread_exit_ok [OF assms(1,2), of ret] assms(3) obtain p where ok1: "gq_ok s1"
    and t1: "tcbs s1 = (tcbs s)(t \<mapsto> p\<lparr>tcb_retval := ret\<rparr>)"
    and act: "active_queue s1 = active_queue s" and rdy: "ready_queue s1 = ready_queue s" by auto
  then have p1: "tcbs s1 t = Some (p\<lparr>tcb_retval := ret\<rparr>)" by simp
  show ?thesis
  proof (cases "tcb_detached p")
    case True
    with gq_exit_cb_detached [OF ok1 _ p1, of gq_pth_thread_runnable] assms(2,4) act rdy
    show ?thesis by auto
  next
    case False
    with gq_exit_cb_joinable [OF ok1 _ p1] assms(2,4) act rdy show ?thesis by auto
  qed
qed

lemma gq_joins_appends:
  assumes "gq_ok s" and "t \<in> set (active_queue s)" and "x \<noteq> t" and "tcbs s x = Some q"
    and "gq_pth_join_cb gq_pth_thread_runnable t x s = Some s'"
  shows "gq_appends s s'"
proof -
  have inv: "gq_inv s" using assms(1) by (simp add: gq_ok_def)
  show ?thesis
  proof (cases "tcb_joiner q")
    case None
    with gq_join_cb_block_inv [OF inv assms(2,4,3), of gq_pth_thread_runnable] assms(5)
    show ?thesis by auto
  next
    case (Some w)
    with gq_join_cb_late_inv [OF inv assms(2,4,3)] assms(5) show ?thesis by auto
  qed
qed

lemma gq_moves_ready:
  assumes "gq_moves s s'" and "gq_ok s"
  shows "gq_appends s s' \<or> (\<exists>t. gq_take_ready s = (Some t, s'))"
  using assms
proof (induction rule: gq_moves.induct)
  case (gq_yields t s s')
  then show ?case using gq_yield_inv by (fastforce simp: gq_ok_def)
next
  case (gq_preempt t s s')
  then show ?case using gq_paused_inv by (fastforce simp: gq_ok_def)
next
  case (gq_syscall t s sysc s')
  then show ?case using gq_blockon_syscall_inv [of s t sysc] by (fastforce simp: gq_ok_def)
next
  case (gq_sysdone s sysc t s')
  then show ?case using gq_handle_syscall_inv [of s sysc t] by (fastforce simp: gq_ok_def state_of_def)
next
  case (gq_creates s t mmap pgsize attr start arg r t' s')
  then show ?case using gq_create_inv [of s t mmap pgsize attr start arg] by (fastforce simp: gq_ok_def)
next
  case (gq_joins t s x q s')
  then show ?case using gq_joins_appends by blast
next
  case (gq_joined t s x r v s')
  then show ?case by (auto simp: gq_join_finish_def bind_Some_conv)
next
  case (gq_exits t s ret s1 s')
  then show ?case using gq_exit_appends by blast
qed (auto simp: gq_upthread_can_vcore_request_def)

lemma gq_step_ready:
  assumes "gq_step s s'" and "gq_ok s"
  shows "gq_appends s s' \<or> (\<exists>t. gq_take_ready s = (Some t, s'))"
  using assms
proof (induction rule: sched_step.induct)
  case (ss_block t s f s')
  then show ?case using gq_has_blocked_inv [of s t f] by (fastforce simp: gq_ok_def gq_running_def)
next
  case (ss_pause t s s')
  then show ?case using gq_paused_inv [of s t] by (fastforce simp: gq_ok_def gq_running_def)
next
  case (ss_wake t s s')
  then obtain p where "tcbs s t = Some p" "tcb_state p = UPTH_BLK_MUTEX"
    by (auto simp: blocked_threads_def state_of_def)
  with ss_wake gq_runnable_inv [of s t p] show ?case by (fastforce simp: gq_ok_def)
next
  case (ss_move s s')
  then show ?case by (rule gq_moves_ready)
qed

lemma gq_step_fifo:
  assumes "gq_step s s'" and "gq_ok s"
  shows "\<exists>xs. ready_queue s @ xs = gq_dispatched s s' @ ready_queue s'"
proof (cases "\<exists>t. gq_take_ready s = (Some t, s')")
  case True
  then obtain t where t: "gq_take_ready s = (Some t, s')" by blast
  then have "ready_queue s = t # ready_queue s'" by (auto simp: gq_take_ready_Some)
  then show ?thesis by (simp add: gq_dispatched_def t)
next
  case False
  then have "gq_dispatched s s' = []"
    by (auto simp: gq_dispatched_def split: prod.splits option.splits)
  with False gq_step_ready [OF assms] show ?thesis by (auto simp: gq_appends_def)
qed

lemma gq_trace_fifo:
  assumes "gq_trace s ds s'" and "gq_ok s"
  shows "gq_ok s' \<and> (\<exists>xs. ready_queue s @ xs = ds @ ready_queue s')"
  using assms
proof (induction rule: gq_trace.induct)
  case (gt_step s ds s1 s')
  then obtain xs where xs: "gq_ok s1" "ready_queue s @ xs = ds @ ready_queue s1" by blast
  from gq_step_fifo [OF gt_step(2) xs(1)] obtain ys
    where "ready_queue s1 @ ys = gq_dispatched s1 s' @ ready_queue s'" by blast
  with xs(2) have "ready_queue s @ (xs @ ys) = (ds @ gq_dispatched s1 s') @ ready_queue s'"
    by (metis append.assoc)
  with gq_sched.sched_step_inv [OF gt_step(2) xs(1)] show ?case by blast
qed auto

section \<open>The search loop\<close>

text \<open>What happens during a pass besides the loop itself: \<open>env\<close> neither switches
  \<open>can_adjust_vcores\<close> nor makes calls of its own, and pass \<open>n\<close> is the first after which a
  thread is ready.\<close>

definition gq_quiet_until :: "nat \<Rightarrow> nat \<Rightarrow> (nat \<Rightarrow> gq \<Rightarrow> gq) \<Rightarrow> bool" where
  "gq_quiet_until j n env \<longleftrightarrow>
     (\<forall>k s. can_adjust_vcores (env k s) = can_adjust_vcores s \<and> calls (env k s) = calls s) \<and>
     (\<forall>k s. j \<le> k \<and> k < n \<longrightarrow> ready_queue s = [] \<longrightarrow> ready_queue (env k s) = []) \<and>
     (\<forall>s. ready_queue (env n s) \<noteq> [])"

lemma gq_sched_loop_hit:
  "ready_queue s = t # q \<Longrightarrow>
   gq_sched_loop env (Suc fuel) k spin s = Some (t, snd (gq_take_ready s))"
  by (simp add: gq_take_ready.simps)

lemma gq_sched_loop_miss:
  assumes "ready_queue s = []" and "- 2147483648 < spin"
  shows "gq_sched_loop env (Suc fuel) k spin s =
    gq_sched_loop env fuel (Suc k) (if can_adjust_vcores s then spin - 1 else spin)
      (env k (ext HandleEvents (if can_adjust_vcores s \<and> spin = 0 then ext VcoreYield s else s)))"
  using assms by (auto simp: gq_take_ready.simps spin_step_def int_dec_def)

lemma gq_sched_loop_runs:
  assumes "gq_quiet_until j (j + m) env" and "ready_queue s = []" and "int m < spin + 2147483648"
  shows "\<exists>t s'. gq_sched_loop env (m + 2 + d) j spin s = Some (t, s') \<and>
           count_list (calls s') VcoreYield = count_list (calls s) VcoreYield +
             (if can_adjust_vcores s \<and> 0 \<le> spin \<and> spin \<le> int m then 1 else 0)"
  using assms
proof (induction m arbitrary: j spin s)
  case 0
  let ?s = "env j (ext HandleEvents (if can_adjust_vcores s \<and> spin = 0 then ext VcoreYield s else s))"
  from 0(1) obtain t q where t: "ready_queue ?s = t # q"
    by (metis add.right_neutral gq_quiet_until_def neq_Nil_conv)
  have "calls (snd (gq_take_ready ?s)) = calls ?s"
    using t by (simp add: gq_take_ready.simps)
  with 0 t show ?case
    using gq_sched_loop_miss [OF 0(2), of spin env "Suc d" j]
      gq_sched_loop_hit [OF t, of env d "Suc j" "if can_adjust_vcores s then spin - 1 else spin"]
    by (auto simp: gq_quiet_until_def)
next
  case (Suc m)
  let ?s = "env j (ext HandleEvents (if can_adjust_vcores s \<and> spin = 0 then ext VcoreYield s else s))"
  let ?spin = "if can_adjust_vcores s then spin - 1 else spin"
  have q: "gq_quiet_until (Suc j) (Suc j + m) env"
    using Suc.prems(1) by (auto simp: gq_quiet_until_def)
  have e: "ready_queue ?s = []"
    using Suc.prems by (simp add: gq_quiet_until_def)
  have c: "can_adjust_vcores ?s = can_adjust_vcores s"
    "calls ?s = calls (ext HandleEvents (if can_adjust_vcores s \<and> spin = 0 then ext VcoreYield s else s))"
    using Suc.prems(1) by (simp_all add: gq_quiet_until_def)
  have "int m < ?spin + 2147483648" using Suc.prems(3) by simp
  from Suc.IH [OF q e this] obtain t s' where
    ih: "gq_sched_loop env (m + 2 + d) (Suc j) ?spin ?s = Some (t, s')"
    "count_list (calls s') VcoreYield = count_list (calls ?s) VcoreYield +
       (if can_adjust_vcores ?s \<and> 0 \<le> ?spin \<and> ?spin \<le> int m then 1 else 0)" by blast
  moreover have "gq_sched_loop env (Suc m + 2 + d) j spin s =
      gq_sched_loop env (m + 2 + d) (Suc j) ?spin ?s"
    using gq_sched_loop_miss [OF Suc.prems(2), of spin env "m + 2 + d" j] Suc.prems(3) by simp
  ultimately show ?case unfolding c by (auto split: if_splits)
qed

section \<open>A small execution\<close>

text \<open>Concrete states for the instances below: the library has started with the main thread at
  4096; it has created a thread at 8192; it waits for it in \<open>upthread_join\<close>.\<close>

definition gq_demo0 :: gq where
  "gq_demo0 = the (gq_upthread_lib_init None 4096 65536 8192 gq_globals)"

definition gq_demo1 :: gq where
  "gq_demo1 = snd (snd (the (gq_upthread_create gq_pth_thread_runnable (\<lambda>_. Some 1048576) 4096 8192
                               None 1 2 gq_demo0)))"

definition gq_demo2 :: gq where
  "gq_demo2 = the (gq_pth_join_cb gq_pth_thread_runnable 4096 8192 gq_demo1)"

lemma gq_demo0:
  "gq_upthread_lib_init None 4096 65536 8192 gq_globals = Some gq_demo0"
  "ready_queue gq_demo0 = []" "active_queue gq_demo0 = [4096]"
  "tcbs gq_demo0 = [4096 \<mapsto> tcb_zero\<lparr>tcb_id := 0, tcb_stacktop := 73728,
      tcb_stacksize := 8192, tcb_detached := True, tcb_state := UPTH_RUNNING, tcb_joiner := None\<rparr>]"
  "can_adjust_vcores gq_demo0" "max_spin_count gq_demo0 = 100" "calls gq_demo0 = []"
  by (simp_all add: gq_demo0_def gq_upthread_lib_init_def gq_globals_def get_next_pid_def Let_def
      gq_links_def)

lemma gq_demo0_reachable: "reachable gq_init gq_step gq_demo0"
  by (rule reach_init) (use gq_demo0(1) in \<open>auto simp: gq_init_def\<close>)

lemma gq_demo0_ok: "gq_ok gq_demo0"
  by (rule gq_reachable_ok [OF gq_demo0_reachable])

lemma gq_demo1:
  "gq_upthread_create gq_pth_thread_runnable (\<lambda>_. Some 1048576) 4096 8192 None 1 2 gq_demo0 =
     Some (0, 8192, gq_demo1)"
  "ready_queue gq_demo1 = [8192]" "active_queue gq_demo1 = [4096]"
  "tcbs gq_demo1 4096 = tcbs gq_demo0 4096"
  "tcbs gq_demo1 8192 = Some ((snd (gq_create_tcb (\<lambda>_. Some 1048576) 4096 (next_pid gq_demo0) None))
      \<lparr>tcb_start_routine := 1, tcb_arg := 2, tcb_state := UPTH_RUNNABLE\<rparr>)"
proof -
  have "tcbs gq_demo0 8192 = None" by (simp add: gq_demo0)
  with gq_create_inv [of gq_demo0 8192 "\<lambda>_. Some 1048576" 4096 None 1 2] gq_demo0_ok
  obtain s where s: "gq_upthread_create gq_pth_thread_runnable (\<lambda>_. Some 1048576) 4096 8192 None 1 2
      gq_demo0 = Some (0, 8192, s)" "ready_queue s = ready_queue gq_demo0 @ [8192]"
    "active_queue s = active_queue gq_demo0"
    "tcbs s = (tcbs gq_demo0)(8192 \<mapsto> (snd (gq_create_tcb (\<lambda>_. Some 1048576) 4096 (next_pid gq_demo0) None))
      \<lparr>tcb_start_routine := 1, tcb_arg := 2, tcb_state := UPTH_RUNNABLE\<rparr>)"
    by (auto simp: gq_ok_def)
  then have "gq_demo1 = s" by (simp add: gq_demo1_def)
  with s gq_demo0 show
    "gq_upthread_create gq_pth_thread_runnable (\<lambda>_. Some 1048576) 4096 8192 None 1 2 gq_demo0 =
       Some (0, 8192, gq_demo1)"
    "ready_queue gq_demo1 = [8192]" "active_queue gq_demo1 = [4096]"
    "tcbs gq_demo1 4096 = tcbs gq_demo0 4096"
    "tcbs gq_demo1 8192 = Some ((snd (gq_create_tcb (\<lambda>_. Some 1048576) 4096 (next_pid gq_demo0) None))
      \<lparr>tcb_start_routine := 1, tcb_arg := 2, tcb_state := UPTH_RUNNABLE\<rparr>)"
    by simp_all
qed

lemma gq_demo1_step: "gq_step gq_demo0 gq_demo1"
proof (rule ss_move, rule gq_creates)
  show "tcbs gq_demo0 8192 = None" by (simp add: gq_demo0)
  show "gq_upthread_create gq_pth_thread_runnable (\<lambda>_. Some 1048576) 4096 8192 None 1 2 gq_demo0 =
     Some (0, 8192, gq_demo1)" by (rule gq_demo1(1))
qed

lemma gq_demo1_reachable: "reachable gq_init gq_step gq_demo1"
  by (rule reach_step [OF gq_demo0_reachable gq_demo1_step])

lemma gq_demo1_ok: "gq_ok gq_demo1"
  by (rule gq_reachable_ok [OF gq_demo1_reachable])

lemma gq_demo1_child:
  obtains q where "tcbs gq_demo1 8192 = Some q" and "tcb_joiner q = None" and "\<not> tcb_detached q"
    and "tcb_state q = UPTH_RUNNABLE"
  using gq_demo1(5) by (simp add: gq_create_tcb_def gq_allocate_stack_def Let_def)

lemma gq_demo2:
  "gq_step gq_demo1 gq_demo2" "state_of gq_demo2 4096 = Some UPTH_BLK_JOINING"
  "joiner_of gq_demo2 8192 = Some 4096" "ready_queue gq_demo2 = [8192]" "active_queue gq_demo2 = []"
proof -
  obtain q where q: "tcbs gq_demo1 8192 = Some q" "tcb_joiner q = None" "\<not> tcb_detached q"
    by (rule gq_demo1_child)
  have act: "4096 \<in> set (active_queue gq_demo1)" by (simp add: gq_demo1)
  from gq_join_cb_block_inv [OF _ act q(1) _ q(2), of gq_pth_thread_runnable] gq_demo1_ok obtain p where p:
    "gq_pth_join_cb gq_pth_thread_runnable 4096 8192 gq_demo1 = Some gq_demo2"
    "ready_queue gq_demo2 = ready_queue gq_demo1"
    "active_queue gq_demo2 = remove1 4096 (active_queue gq_demo1)"
    "tcbs gq_demo2 = (tcbs gq_demo1)(4096 \<mapsto> p\<lparr>tcb_state := UPTH_BLK_JOINING\<rparr>,
                                     8192 \<mapsto> q\<lparr>tcb_joiner := Some 4096\<rparr>)"
    by (auto simp: gq_demo2_def gq_ok_def)
  show "gq_step gq_demo1 gq_demo2"
    by (rule ss_move, rule gq_joins [OF act _ q(1,3) disjI1 [OF q(2)] p(1)]) simp
  show "state_of gq_demo2 4096 = Some UPTH_BLK_JOINING" "joiner_of gq_demo2 8192 = Some 4096"
    "ready_queue gq_demo2 = [8192]" "active_queue gq_demo2 = []"
    by (simp_all add: p(2-4) gq_demo1(2,3) state_of_def joiner_of_def)
qed

lemma gq_demo2_reachable: "reachable gq_init gq_step gq_demo2"
  by (rule reach_step [OF gq_demo1_reachable gq_demo2(1)])

section \<open>Properties\<close>

text \<open>
  C19: in every reachable state of the global-queue scheduler a thread is on exactly one of the
  two queues, once, exactly when its state is one in which it may run; the threads on the ready
  queue are marked runnable, and the two counters are the lengths of the queues.
\<close>

theorem gq_queues_sound:
  assumes "reachable gq_init gq_step s"
  shows "distinct (ready_queue s @ active_queue s) \<and>
    threads_ready s = int (length (ready_queue s)) \<and>
    threads_active s = int (length (active_queue s)) \<and>
    (\<forall>t \<in> set (ready_queue s). state_of s t = Some UPTH_RUNNABLE) \<and>
    (\<forall>t. t \<in> set (ready_queue s) \<union> set (active_queue s) \<longleftrightarrow>
       (\<exists>st. state_of s t = Some st \<and> schedulable st))"
  using gq_reachable_ok [OF assms] unfolding gq_ok_def gq_inv_def gq_links_def by blast

theorem gq_queues_sound_witness:
  "distinct (ready_queue gq_demo1 @ active_queue gq_demo1) \<and> threads_ready gq_demo1 = 1 \<and>
   threads_active gq_demo1 = 1"
  using gq_queues_sound [OF gq_demo1_reachable] by (simp add: gq_demo1)

text \<open>
  C37: dispatch is first in, first out. Over any execution, the threads dispatched, in order,
  followed by those still on the ready queue, are the ready queue the execution started with
  followed by the threads that became ready since: nobody is overtaken and nobody is dropped.
\<close>

theorem gq_dispatch_fifo:
  assumes "reachable gq_init gq_step s" and "gq_trace s ds s'"
  shows "\<exists>arrived. ready_queue s @ arrived = ds @ ready_queue s'"
  using gq_trace_fifo [OF assms(2)] gq_reachable_ok [OF assms(1)] by blast

lemma gq_demo_trace:
  "gq_trace gq_demo1 [8192] (snd (gq_take_ready gq_demo1))"
proof -
  have take: "gq_take_ready gq_demo1 = (Some 8192, snd (gq_take_ready gq_demo1))"
    by (simp add: gq_take_ready.simps gq_demo1)
  then have "gq_step gq_demo1 (snd (gq_take_ready gq_demo1))" by (intro ss_move gq_dispatch)
  from gt_step [OF gt_nil this] take show ?thesis by (simp add: gq_dispatched_def split: prod.splits)
qed

theorem gq_dispatch_fifo_witness:
  "\<exists>arrived. [8192] @ arrived = [8192] @ ready_queue (snd (gq_take_ready gq_demo1))"
  using gq_dispatch_fifo [OF gq_demo1_reachable gq_demo_trace] by (simp add: gq_demo1)

text \<open>
  C16: nobody sleeps in \<open>upthread_join\<close> in vain. In every reachable state the thread asleep
  there is in the joiner slot of exactly one thread that has not exited yet, and that thread is
  not detached, so its exit will wake the sleeper.
\<close>

theorem gq_join_not_in_vain:
  assumes "reachable gq_init gq_step s" and "state_of s w = Some UPTH_BLK_JOINING"
  shows "\<exists>!x. joiner_of s x = Some w \<and> state_of s x \<noteq> Some UPTH_EXITING \<and> x \<notin> detached_threads s"
proof -
  have ok: "join_ok s" using gq_reachable_ok [OF assms(1)] by (simp add: gq_ok_def)
  from join_ok_waits [OF ok assms(2)] obtain x where
    "joiner_of s x = Some w" "state_of s x \<noteq> Some UPTH_EXITING" by blast
  with join_ok_detached [OF ok] join_ok_inj [OF ok] show ?thesis by (intro ex1I [of _ x]) blast+
qed

theorem gq_join_not_in_vain_witness:
  "\<exists>!x. joiner_of gq_demo2 x = Some 4096 \<and> state_of gq_demo2 x \<noteq> Some UPTH_EXITING \<and>
        x \<notin> detached_threads gq_demo2"
  by (rule gq_join_not_in_vain [OF gq_demo2_reachable gq_demo2(2)])

text \<open>
  The exit of a joinable thread is defined in every reachable state, leaves the control
  block behind in state \<open>UPTH_EXITING\<close>, puts a thread that is waiting for it at the tail of
  the ready queue, and the second half of the join then returns 0 and the exit value and frees
  the block.
\<close>

theorem gq_exit_wakes_joiner:
  assumes "reachable gq_init gq_step s" and "t \<in> set (active_queue s)"
    and "tcbs s t = Some p" and "\<not> tcb_detached p"
  shows "\<exists>s1 s2 s3. gq_upthread_exit ret t s = Some s1 \<and>
    gq_pth_exit_cb gq_pth_thread_runnable t s1 = Some s2 \<and>
    state_of s2 t = Some UPTH_EXITING \<and>
    ready_queue s2 = ready_queue s @ (case tcb_joiner p of None \<Rightarrow> [] | Some w \<Rightarrow> [w]) \<and>
    gq_join_finish t s2 = Some (0, ret, s3) \<and> tcbs s3 = (tcbs s2)(t := None)"
proof -
  have ok: "gq_ok s" by (rule gq_reachable_ok [OF assms(1)])
  from gq_upthread_exit_ok [OF ok assms(2), of ret] assms(3) obtain s1 where
    ex: "gq_upthread_exit ret t s = Some s1" and ok1: "gq_ok s1"
    and p1: "tcbs s1 t = Some (p\<lparr>tcb_retval := ret\<rparr>)"
    and act: "t \<in> set (active_queue s1)" and rdy: "ready_queue s1 = ready_queue s"
    using assms(2) by auto
  from gq_exit_cb_joinable [OF ok1 act p1] assms(4) ex rdy show ?thesis
    by (auto simp: gq_join_finish_def)
qed

definition gq_demo3 :: gq where
  "gq_demo3 = snd (gq_take_ready gq_demo2)"

lemma gq_demo3:
  "reachable gq_init gq_step gq_demo3" "active_queue gq_demo3 = [8192]" "tcbs gq_demo3 = tcbs gq_demo2"
proof -
  have take: "gq_take_ready gq_demo2 = (Some 8192, gq_demo3)"
    by (simp add: gq_take_ready.simps gq_demo2 gq_demo3_def)
  then have "gq_step gq_demo2 gq_demo3" by (intro ss_move gq_dispatch)
  from reach_step [OF gq_demo2_reachable this] show "reachable gq_init gq_step gq_demo3" .
  show "active_queue gq_demo3 = [8192]" "tcbs gq_demo3 = tcbs gq_demo2"
    by (simp_all add: gq_demo3_def gq_take_ready.simps gq_demo2)
qed

theorem gq_exit_wakes_joiner_witness:
  "\<exists>s1 s2 s3. gq_upthread_exit 42 8192 gq_demo3 = Some s1 \<and>
    gq_pth_exit_cb gq_pth_thread_runnable 8192 s1 = Some s2 \<and>
    state_of s2 8192 = Some UPTH_EXITING \<and> 4096 \<in> set (ready_queue s2) \<and>
    gq_join_finish 8192 s2 = Some (0, 42, s3)"
proof -
  have j: "joiner_of gq_demo3 8192 = Some 4096" using gq_demo2(3) by (simp add: joiner_of_def gq_demo3)
  then obtain p where p: "tcbs gq_demo3 8192 = Some p" "tcb_joiner p = Some 4096"
    by (auto simp: joiner_of_def bind_Some_conv)
  have "join_ok gq_demo3" using gq_reachable_ok [OF gq_demo3(1)] by (simp add: gq_ok_def)
  then have "8192 \<notin> detached_threads gq_demo3" using j by (rule join_ok_detached)
  with p have "\<not> tcb_detached p" by (simp add: detached_threads_def)
  from gq_exit_wakes_joiner [OF gq_demo3(1) _ p(1) this, of 42] p(2) gq_demo3(2)
  show ?thesis by fastforce
qed



definition requested_stacksize :: "64 word \<Rightarrow> upthread_attr_t option \<Rightarrow> 64 word" where
  "requested_stacksize pgsize attr =
     (case attr of
        None \<Rightarrow> UPTHREAD_STACK_SIZE pgsize
      | Some a \<Rightarrow> if attr_stacksize a = 0 then UPTHREAD_STACK_SIZE pgsize else attr_stacksize a)"

lemma gq_runnable_tcb:
  "gq_pth_thread_runnable t s = Some s' \<Longrightarrow> tcbs s t = Some p \<Longrightarrow>
   tcbs s' t = Some (p\<lparr>tcb_state := UPTH_RUNNABLE\<rparr>)"
  by (auto simp: gq_pth_thread_runnable_def Let_def bind_Some_conv stailq_insert_tail_def set_state_def
      tcb_upd_def split: if_splits)

lemma gq_create_tcb_result:
  assumes "gq_upthread_create gq_pth_thread_runnable mmap pgsize t attr start arg s = Some (r, t', s')"
  shows "r = 0 \<and> t' = t \<and> tcbs s' t = Some ((snd (gq_create_tcb mmap pgsize (next_pid s) attr))
           \<lparr>tcb_start_routine := start, tcb_arg := arg, tcb_state := UPTH_RUNNABLE\<rparr>)"
proof -
  obtain e p where p: "gq_create_tcb mmap pgsize (next_pid s) attr = (e, p)" by force
  let ?p = "p\<lparr>tcb_start_routine := start, tcb_arg := arg\<rparr>"
  let ?s1 = "if e \<noteq> 0 then ext (PrintfMsg ''We're fucked'') (s\<lparr>next_pid := next_pid s + 1\<rparr>)
             else s\<lparr>next_pid := next_pid s + 1\<rparr>"
  define s2 where
    "s2 = ext (InitUthreadTf t (tcb_stacktop p - ucast (tcb_stacksize p)) (tcb_stacksize p)) ?s1"
  define s3 where "s3 = ext (UthreadInit t) (s2\<lparr>tcbs := (tcbs s2)(t \<mapsto> ?p)\<rparr>)"
  have "tcbs s3 t = Some ?p" by (simp add: s3_def)
  moreover have "gq_upthread_create gq_pth_thread_runnable mmap pgsize t attr start arg s =
      Option.bind (gq_pth_thread_runnable t s3) (\<lambda>s. Some (0, t, s))"
    by (simp add: gq_upthread_create_def get_next_pid_def p s2_def s3_def)
  then have "Option.bind (gq_pth_thread_runnable t s3) (\<lambda>s. Some (0, t, s)) = Some (r, t', s')"
    using assms by (rule subst)
  then have "gq_pth_thread_runnable t s3 = Some s' \<and> r = 0 \<and> t' = t"
    by (auto simp: bind_Some_conv)
  ultimately show ?thesis using gq_runnable_tcb [of t s3 s' ?p] p by simp
qed

lemma gq_create_tcb_stack:
  assumes "mmap (ucast (ucast (requested_stacksize pgsize attr) :: 32 word)) = Some stackbot"
  shows "fst (gq_create_tcb mmap pgsize pid attr) = 0"
    and "tcb_stacksize (snd (gq_create_tcb mmap pgsize pid attr)) = ucast (requested_stacksize pgsize attr)"
    and "tcb_stacktop (snd (gq_create_tcb mmap pgsize pid attr)) =
           stackbot + ucast (ucast (requested_stacksize pgsize attr) :: 32 word)"
    and "tcb_detached (snd (gq_create_tcb mmap pgsize pid attr)) =
           (case attr of None \<Rightarrow> False | Some a \<Rightarrow> attr_detachstate a = 1)"
  using assms
  by (auto simp: gq_create_tcb_def gq_allocate_stack_def requested_stacksize_def tcb_zero_def Let_def
      split: option.splits if_splits)

text \<open>
  What \<open>upthread_getattr_np\<close> reports of a thread is what it was created with: the start of
  the mapping that \<open>mmap\<close> returned for the stack, the requested stack size (the default when
  none or 0 was requested), provided it fits the 32-bit field, and the requested detach state.
\<close>

theorem gq_create_getattr:
  assumes "gq_upthread_create gq_pth_thread_runnable mmap pgsize t attr start arg s = Some (r, t', s')"
    and "requested_stacksize pgsize attr < 2 ^ 32"
    and "mmap (requested_stacksize pgsize attr) = Some stackbot"
  shows "r = 0 \<and> t' = t \<and> (\<exists>p. tcbs s' t = Some p \<and> upthread_getattr_np p =
    (0, \<lparr>attr_stackaddr = stackbot, attr_stacksize = requested_stacksize pgsize attr,
        attr_detachstate = (case attr of None \<Rightarrow> 0 | Some a \<Rightarrow> if attr_detachstate a = 1 then 1 else 0)\<rparr>))"
  using gq_create_tcb_result [OF assms(1)]
    gq_create_tcb_stack [of mmap pgsize attr stackbot "next_pid s"] assms(2,3)
  by (auto simp: ucast_down_up upthread_getattr_np_def split: option.splits)

theorem gq_create_getattr_witness:
  "\<exists>p. tcbs gq_demo1 8192 = Some p \<and> upthread_getattr_np p =
     (0, \<lparr>attr_stackaddr = 1048576, attr_stacksize = 4194304, attr_detachstate = 0\<rparr>)"
  using gq_create_getattr [OF gq_demo1(1), of 1048576]
  by (simp add: requested_stacksize_def UPTHREAD_STACK_SIZE_def)

end
