(* ===== verification/Monitor_Gq.thy ===== *)
theory Monitor_Gq
  imports Monitor Gq_Correct
begin

text \<open>
  The mutexes and condition variables of \<^verbatim>\<open>src/common/\<close> on the global-queue scheduler: the
  facts of the monitor for the scheduler's own operations, and the functional behaviour of
  signal, broadcast and unlock.
\<close>

section \<open>A small execution\<close>

text \<open>Three running threads, a mutex and a condition variable; thread 1 takes the mutex, 2 and 3
  go to sleep on it, and 1 gives it back.\<close>

definition demo_tcb :: upthread_tcb where
  "demo_tcb = tcb_zero\<lparr>tcb_state := UPTH_RUNNABLE\<rparr>"

lemma demo_tcb_simps [simp]:
  "tcb_state demo_tcb = UPTH_RUNNABLE" "tcb_joiner demo_tcb = None" "\<not> tcb_detached demo_tcb"
  by (simp_all add: demo_tcb_def tcb_zero_def)

definition gq_three :: gq where
  "gq_three = gq_globals\<lparr>tcbs := [1 \<mapsto> demo_tcb, 2 \<mapsto> demo_tcb, 3 \<mapsto> demo_tcb],
     active_queue := [1, 2, 3], threads_active := 3\<rparr>"

definition gq_three2 :: gq where
  "gq_three2 = gq_three\<lparr>tcbs := [1 \<mapsto> demo_tcb, 2 \<mapsto> demo_tcb\<lparr>tcb_state := UPTH_BLK_MUTEX\<rparr>, 3 \<mapsto> demo_tcb],
     active_queue := [1, 3], threads_active := 2\<rparr>"

definition gq_three3 :: gq where
  "gq_three3 = gq_three\<lparr>tcbs := [1 \<mapsto> demo_tcb, 2 \<mapsto> demo_tcb\<lparr>tcb_state := UPTH_BLK_MUTEX\<rparr>,
                               3 \<mapsto> demo_tcb\<lparr>tcb_state := UPTH_BLK_MUTEX\<rparr>],
     active_queue := [1], threads_active := 1\<rparr>"

lemmas gq_three_defs = gq_three_def gq_three2_def gq_three3_def gq_globals_def

lemma gq_three_ok: "gq_ok gq_three"
  unfolding gq_ok_def
proof
  show "gq_inv gq_three"
    by (auto simp: gq_inv_def gq_three_defs gq_links_def state_of_def split: if_splits)
  show "join_ok gq_three"
    by (auto simp: join_ok_def gq_three_defs state_of_def joiner_of_def split: if_splits)
qed

definition demo_mon0 :: "gq monitor" where
  "demo_mon0 = \<lparr>mon_mutex = UPTHREAD_MUTEX_INITIALIZER, mon_cond = UPTHREAD_CONDVAR_INITIALIZER,
     mon_sched = gq_three, mon_pc = (\<lambda>_. Client), mon_waking = {}, mon_held = (\<lambda>_. 0)\<rparr>"

definition demo_mon1 :: "gq monitor" where
  "demo_mon1 = demo_mon0\<lparr>mon_mutex := UPTHREAD_MUTEX_INITIALIZER\<lparr>mutex_locked := 1, mutex_owner := Some 1\<rparr>,
     mon_held := (\<lambda>_. 0)(1 := 1)\<rparr>"

definition demo_mon2 :: "gq monitor" where
  "demo_mon2 = demo_mon1\<lparr>mon_mutex := (mon_mutex demo_mon1)\<lparr>mutex_queue := [2]\<rparr>,
     mon_sched := gq_three2, mon_pc := (\<lambda>_. Client)(2 := Lock_waiting)\<rparr>"

definition demo_mon3 :: "gq monitor" where
  "demo_mon3 = demo_mon1\<lparr>mon_mutex := (mon_mutex demo_mon1)\<lparr>mutex_queue := [2, 3]\<rparr>,
     mon_sched := gq_three3, mon_pc := (\<lambda>_. Client)(2 := Lock_waiting, 3 := Lock_waiting)\<rparr>"

definition demo_mon4 :: "gq monitor" where
  "demo_mon4 = demo_mon3\<lparr>mon_mutex := UPTHREAD_MUTEX_INITIALIZER\<lparr>mutex_queue := [3]\<rparr>,
     mon_pc := (\<lambda>_. Client)(2 := Lock_retry, 3 := Lock_waiting), mon_waking := {2},
     mon_held := (\<lambda>_. 0)(1 := 0)\<rparr>"

lemmas demo_mon_defs = demo_mon0_def demo_mon1_def demo_mon2_def demo_mon3_def demo_mon4_def
  UPTHREAD_MUTEX_INITIALIZER_def UPTHREAD_CONDVAR_INITIALIZER_def

abbreviation gq_mon_reachable :: "gq monitor \<Rightarrow> bool" where
  "gq_mon_reachable \<equiv> reachable (mon_init gq_ok) (mon_step gq_runtime gq_running gq_moves)"

lemma demo_mon0_reachable: "gq_mon_reachable demo_mon0"
proof (rule reach_init)
  have "upthread_mutex_init (Some UPTHREAD_MUTEX_INITIALIZER) None = (0, Some UPTHREAD_MUTEX_INITIALIZER)"
    by (simp add: upthread_mutex_init_def upthread_mutexattr_init_def UPTHREAD_MUTEX_INITIALIZER_def)
  moreover have "upthread_cond_init (Some UPTHREAD_CONDVAR_INITIALIZER) =
      (0, Some UPTHREAD_CONDVAR_INITIALIZER)"
    by (simp add: upthread_cond_init_def UPTHREAD_CONDVAR_INITIALIZER_def)
  ultimately show "mon_init gq_ok demo_mon0"
    by (auto simp: mon_init_def demo_mon0_def gq_three_ok)
qed

lemma demo_mon1_step: "mon_step gq_runtime gq_running gq_moves demo_mon0 demo_mon1"
proof -
  have "upthread_mutex_lock 1 (Some (mon_mutex demo_mon0)) = Some (Lock_done 0, Some (mon_mutex demo_mon1))"
    by (simp add: demo_mon_defs upthread_mutex_lock_def mutex_recursive_owner_def mutex_lock_loop_def
        int_inc_def)
  from m_lock [OF _ _ this, of gq_running gq_runtime gq_moves] show ?thesis
    by (auto simp: demo_mon_defs gq_running_def gq_three_defs fun_upd_def)
qed

lemma demo_block2: "mutex_block gq_runtime 2 (mon_mutex demo_mon1) gq_three = Some (mon_mutex demo_mon2, gq_three2)"
  by (simp add: mutex_block_def gq_pth_thread_has_blocked_def gq_generic_yield_def gq_three_defs
      gq_links_def demo_mon_defs fun_upd_twist)

lemma demo_block3: "mutex_block gq_runtime 3 (mon_mutex demo_mon2) gq_three2 = Some (mon_mutex demo_mon3, gq_three3)"
  by (simp add: mutex_block_def gq_pth_thread_has_blocked_def gq_generic_yield_def gq_three_defs
      gq_links_def demo_mon_defs fun_upd_twist)

lemma demo_mon2_step: "mon_step gq_runtime gq_running gq_moves demo_mon1 demo_mon2"
proof -
  have "upthread_mutex_lock 2 (Some (mon_mutex demo_mon1)) = Some (Lock_sleep, Some (mon_mutex demo_mon1))"
    by (simp add: demo_mon_defs upthread_mutex_lock_def mutex_recursive_owner_def mutex_lock_loop_def)
  from m_lock_sleep [OF _ _ this, of gq_running gq_runtime "mon_mutex demo_mon2" gq_three2 gq_moves]
  show ?thesis using demo_block2
    by (simp add: demo_mon_defs gq_running_def gq_three_defs)
qed

lemma demo_mon3_step: "mon_step gq_runtime gq_running gq_moves demo_mon2 demo_mon3"
proof -
  have "upthread_mutex_lock 3 (Some (mon_mutex demo_mon2)) = Some (Lock_sleep, Some (mon_mutex demo_mon2))"
    by (simp add: demo_mon_defs upthread_mutex_lock_def mutex_recursive_owner_def mutex_lock_loop_def)
  from m_lock_sleep [OF _ _ this, of gq_running gq_runtime "mon_mutex demo_mon3" gq_three3 gq_moves]
  show ?thesis using demo_block3
    by (simp add: demo_mon_defs gq_running_def gq_three_defs)
qed

lemma demo_mon4_step: "mon_step gq_runtime gq_running gq_moves demo_mon3 demo_mon4"
proof -
  have "mutex_unlock_cs (mon_mutex demo_mon3) = Some (Some 2, mon_mutex demo_mon4)"
    by (simp add: mutex_unlock_cs_def int_dec_def demo_mon_defs)
  from m_unlock [OF _ _ _ this, of 1 gq_running gq_runtime gq_moves] show ?thesis
    by (simp add: demo_mon_defs gq_running_def gq_three_defs fun_upd_twist)
qed

lemma demo_mon4_reachable: "gq_mon_reachable demo_mon4"
  using demo_mon0_reachable demo_mon1_step demo_mon2_step demo_mon3_step demo_mon4_step
  by (blast intro: reach_step)

lemma demo_mon3_reachable: "gq_mon_reachable demo_mon3"
  using demo_mon0_reachable demo_mon1_step demo_mon2_step demo_mon3_step
  by (blast intro: reach_step)

section \<open>Properties\<close>

text \<open>
  C1: mutual exclusion. Whatever the threads call and however the scheduler interleaves them, two
  threads that have locked the mutex more often than unlocked it are the same thread; it is the
  recorded owner, and \<open>locked\<close> is the number of its outstanding acquisitions.
\<close>

theorem gq_mutual_exclusion:
  assumes "reachable (mon_init gq_ok) (mon_step gq_runtime gq_running gq_moves) M"
    and "0 < mon_held M t" and "0 < mon_held M u"
  shows "t = u \<and> mutex_owner (mon_mutex M) = Some t \<and>
         mutex_locked (mon_mutex M) = int (mon_held M t)"
  by (rule gq_sched.mon_mutual_exclusion [OF assms])

theorem gq_mutual_exclusion_witness:
  "mutex_owner (mon_mutex demo_mon3) = Some 1 \<and> mutex_locked (mon_mutex demo_mon3) = 1"
  using gq_mutual_exclusion [OF demo_mon3_reachable, of 1 1] by (simp add: demo_mon_defs)

text \<open>
  C2: the mutex and the condition variable together are a monitor. Every step that a program can make on the
  global-queue scheduler is a step of the abstract monitor or invisible to it: the mutex is taken only when
  it is free or the caller's own, a lock call sleeps only when it is not, waiting gives the mutex up and
  joins the waiters in one step, a signal lets go the one that has waited longest, and a call that went
  to sleep ends only by taking the mutex. The waiters are asleep in the scheduler.
\<close>

theorem gq_monitor_refines:
  assumes "reachable (mon_init gq_ok) (mon_step gq_runtime gq_running gq_moves) M"
  shows "reachable absmon_start (abs_mon (mon_recursive M)) (absmon_of M) \<and>
         absmon_ok (mon_recursive M) (absmon_of M) \<and>
         set (am_waiters (absmon_of M)) \<subseteq> blocked_threads (mon_sched M) \<and>
         (\<forall>M'. mon_step gq_runtime gq_running gq_moves M M' \<longrightarrow>
            abs_mon (mon_recursive M) (absmon_of M) (absmon_of M') \<or> absmon_of M' = absmon_of M)"
proof (intro conjI allI impI)
  show r: "reachable absmon_start (abs_mon (mon_recursive M)) (absmon_of M)"
    by (rule gq_sched.mon_refines [OF assms])
  show "absmon_ok (mon_recursive M) (absmon_of M)" by (rule absmon_reachable_ok [OF r])
  have inv: "mon_inv gq_ok blocked_threads M" by (rule gq_sched.mon_reachable_inv [OF assms])
  then show "set (am_waiters (absmon_of M)) \<subseteq> blocked_threads (mon_sched M)"
    by (auto simp: mon_inv_def mon_queues_ok_def asleep_def)
  show "abs_mon (mon_recursive M) (absmon_of M) (absmon_of M') \<or> absmon_of M' = absmon_of M"
    if "mon_step gq_runtime gq_running gq_moves M M'" for M'
    by (rule gq_sched.mon_step_refines [OF that inv])
qed

theorem gq_monitor_refines_witness:
  "abs_mon False (absmon_of demo_mon3) (absmon_of demo_mon4) \<and>
   am_held (absmon_of demo_mon3) 1 = 1 \<and> am_held (absmon_of demo_mon4) 1 = 0"
proof -
  have "mon_recursive demo_mon3 = False" by (simp add: mon_recursive_def demo_mon_defs)
  moreover have "am_held (absmon_of demo_mon3) 1 = 1" "am_held (absmon_of demo_mon4) 1 = 0"
    by (simp_all add: demo_mon_defs)
  moreover have "absmon_of demo_mon4 \<noteq> absmon_of demo_mon3"
  proof
    assume "absmon_of demo_mon4 = absmon_of demo_mon3"
    then have "am_held (absmon_of demo_mon4) 1 = am_held (absmon_of demo_mon3) 1" by simp
    then show False by (simp add: demo_mon_defs)
  qed
  ultimately show ?thesis using gq_monitor_refines [OF demo_mon3_reachable] demo_mon4_step by (metis zero_neq_one)
qed

text \<open>
  C3: no wake-up of a mutex is lost. Whenever the mutex is free while a thread sleeps on it, some
  thread has been taken off its queue and is on its way to the next attempt to lock; so the
  sleepers are never left to themselves.
\<close>

theorem gq_mutex_no_lost_wakeup:
  assumes "reachable (mon_init gq_ok) (mon_step gq_runtime gq_running gq_moves) M"
    and "mutex_locked (mon_mutex M) = 0" and "mon_pc M t = Lock_waiting"
  shows "\<exists>w. mon_pc M w = Lock_retry"
  by (rule gq_sched.mon_no_lost_wakeup [OF assms])

theorem gq_mutex_no_lost_wakeup_witness: "\<exists>w. mon_pc demo_mon4 w = Lock_retry"
  using gq_mutex_no_lost_wakeup [OF demo_mon4_reachable, of 3] by (simp add: demo_mon_defs)

text \<open>
  C27: no blocking or waking call is undefined. In every reachable state a running thread can be
  put on the queue of the mutex and on that of the condition variable (its link is free), every
  thread still to be woken can be woken, and it is asleep in the scheduler until then.
\<close>

theorem gq_sync_defined:
  assumes "reachable (mon_init gq_ok) (mon_step gq_runtime gq_running gq_moves) M"
  shows "(\<forall>t \<in> gq_running (mon_sched M).
            mutex_block gq_runtime t (mon_mutex M) (mon_sched M) \<noteq> None \<and>
            cond_enqueue gq_runtime t (mon_cond M) (mon_sched M) \<noteq> None) \<and>
         (\<forall>w \<in> mon_waking M. gq_pth_thread_runnable w (mon_sched M) \<noteq> None \<and>
            state_of (mon_sched M) w = Some UPTH_BLK_MUTEX)"
proof -
  have "mon_waking M \<subseteq> blocked_threads (mon_sched M)"
    using gq_sched.mon_reachable_inv [OF assms] by (auto simp: mon_inv_def asleep_def)
  then show ?thesis using gq_sched.mon_defined [OF assms] by (auto simp: blocked_threads_def)
qed

theorem gq_sync_defined_witness:
  "mutex_block gq_runtime 1 (mon_mutex demo_mon4) gq_three3 \<noteq> None \<and>
   gq_pth_thread_runnable 2 gq_three3 \<noteq> None"
  using gq_sync_defined [OF demo_mon4_reachable]
  by (simp add: gq_running_def demo_mon_defs gq_three3_def)

lemma gq_broadcast_loop_order:
  assumes "gq_ok s" and "distinct q" and "set q \<subseteq> blocked_threads s"
    and "cond_broadcast_loop gq_runtime q s = Some (q', s')"
  shows "ready_queue s' = ready_queue s @ q"
  using assms
proof (induction q arbitrary: s)
  case (Cons t q)
  from Cons.prems(3) obtain p where p: "tcbs s t = Some p" "tcb_state p = UPTH_BLK_MUTEX"
    by (auto simp: blocked_threads_def state_of_def)
  from gq_runnable_inv [OF _ p(1)] p(2) Cons.prems(1) obtain s1 where
    s1: "gq_pth_thread_runnable t s = Some s1" "ready_queue s1 = ready_queue s @ [t]"
    by (auto simp: gq_ok_def)
  from gq_runnable_spec [of s t] s1(1) Cons.prems(1,3)
  have "gq_ok s1" "blocked_threads s1 = blocked_threads s - {t}" by auto
  with Cons.IH [of s1] Cons.prems s1 show ?case by auto
qed simp

text \<open>
  C36: \<open>upthread_cond_broadcast\<close> returns 0, empties the queue and makes every thread that was on
  it runnable, in the order of the queue, and no other thread, on every consistent state of the
  scheduler in which the waiters are asleep.
\<close>

theorem gq_broadcast_wakes_all:
  assumes "gq_ok s" and "distinct (cond_queue c)" and "set (cond_queue c) \<subseteq> blocked_threads s"
  shows "\<exists>c' s'. upthread_cond_broadcast gq_runtime (Some c) s = Some (0, Some c', s') \<and>
    cond_queue c' = [] \<and> gq_ok s' \<and> ready_queue s' = ready_queue s @ cond_queue c \<and>
    blocked_threads s' = blocked_threads s - set (cond_queue c)"
proof -
  from gq_sched.cond_broadcast_loop_wakes [OF assms] obtain s' where
    s': "cond_broadcast_loop gq_runtime (cond_queue c) s = Some ([], s')" "gq_ok s'"
      "blocked_threads s' = blocked_threads s - set (cond_queue c)" by blast
  from gq_broadcast_loop_order [OF assms s'(1)] s' show ?thesis
    by (simp add: upthread_cond_broadcast_def)
qed

lemma gq_three3_ok: "gq_ok gq_three3"
  using gq_sched.mon_reachable_inv [OF demo_mon3_reachable] by (simp add: mon_inv_def demo_mon_defs)

theorem gq_broadcast_wakes_all_witness:
  "\<exists>c' s'. upthread_cond_broadcast gq_runtime (Some \<lparr>cond_waiting_mutex = None, cond_queue = [3, 2]\<rparr>)
     gq_three3 = Some (0, Some c', s') \<and> ready_queue s' = [3, 2] \<and> cond_queue c' = []"
proof -
  have "set [3, 2] \<subseteq> blocked_threads gq_three3"
    by (simp add: blocked_threads_def state_of_def gq_three_defs)
  with gq_broadcast_wakes_all [OF gq_three3_ok,
      of "\<lparr>cond_waiting_mutex = None, cond_queue = [3, 2]\<rparr>"]
  show ?thesis by (fastforce simp: gq_three_defs)
qed

text \<open>
  Releasing the last acquisition of a mutex wakes exactly the thread at the head of its queue:
  \<open>upthread_mutex_unlock\<close> returns 0, leaves the mutex free with the rest of the queue, and puts
  that thread at the tail of the ready queue. With an empty queue it wakes nobody, and an inner
  unlock of a recursive mutex only counts down.
\<close>

theorem gq_mutex_unlock_wakes_head:
  assumes "gq_ok s" and "0 < mutex_locked m" and "set (mutex_queue m) \<subseteq> blocked_threads s"
  shows "\<exists>m' s'. upthread_mutex_unlock gq_runtime (Some m) s = Some (0, Some m', s') \<and> gq_ok s' \<and>
    mutex_locked m' = mutex_locked m - 1 \<and>
    mutex_owner m' = (if mutex_locked m = 1 then None else mutex_owner m) \<and>
    mutex_queue m' = (if mutex_locked m = 1 then tl (mutex_queue m) else mutex_queue m) \<and>
    ready_queue s' = ready_queue s @ (if mutex_locked m = 1 then take 1 (mutex_queue m) else [])"
proof (cases "mutex_locked m = 1 \<and> mutex_queue m \<noteq> []")
  case True
  then obtain w q where q: "mutex_queue m = w # q" by (cases "mutex_queue m") auto
  with assms(3) have w: "w \<in> blocked_threads s" by simp
  then obtain p where p: "tcbs s w = Some p" "tcb_state p = UPTH_BLK_MUTEX"
    by (auto simp: blocked_threads_def state_of_def)
  from gq_runnable_inv [OF _ p(1)] p(2) gq_runnable_spec [OF assms(1) w] assms(1) obtain s' where
    "gq_pth_thread_runnable w s = Some s'" "ready_queue s' = ready_queue s @ [w]" "gq_ok s'"
    by (auto simp: gq_ok_def)
  with True q show ?thesis
    by (simp add: upthread_mutex_unlock_def mutex_unlock_cs_def int_dec_def wake_opt_def)
next
  case False
  with assms(1,2) show ?thesis
    by (cases "mutex_queue m")
      (auto simp: upthread_mutex_unlock_def mutex_unlock_cs_def int_dec_def wake_opt_def)
qed

theorem gq_mutex_unlock_wakes_head_witness:
  "\<exists>m' s'. upthread_mutex_unlock gq_runtime (Some (mon_mutex demo_mon3)) gq_three3 =
     Some (0, Some m', s') \<and> mutex_queue m' = [3] \<and> ready_queue s' = [2]"
proof -
  have "set (mutex_queue (mon_mutex demo_mon3)) \<subseteq> blocked_threads gq_three3"
    by (simp add: blocked_threads_def state_of_def gq_three_defs demo_mon_defs)
  with gq_mutex_unlock_wakes_head [OF gq_three3_ok, of "mon_mutex demo_mon3"]
  show ?thesis by (fastforce simp: demo_mon_defs gq_three_defs)
qed

text \<open>
  \<open>upthread_mutex_trylock\<close> never sleeps and is exact: on a well-formed mutex below the
  counter's limit it returns 0 and counts one more acquisition for the caller if the mutex is
  free, or is recursive and the caller's; in every other case it returns \<open>EBUSY\<close> and changes
  nothing.
\<close>

theorem mutex_trylock_exact:
  assumes "mutex_wf m" and "mutex_locked m < INT_MAX"
  shows "upthread_mutex_trylock t (Some m) =
    (if mutex_locked m = 0 \<or> (mattr_type (mutex_attr m) = UPTHREAD_MUTEX_RECURSIVE \<and> mutex_owner m = Some t)
     then Some (0, Some (m\<lparr>mutex_owner := Some t, mutex_locked := mutex_locked m + 1\<rparr>))
     else Some (EBUSY, Some m))"
  using assms
  by (cases "mutex_owner m = Some t")
    (auto simp: upthread_mutex_trylock_def mutex_recursive_owner_def mutex_wf_def int_inc_def)

theorem mutex_trylock_exact_witness:
  "upthread_mutex_trylock 7 (Some \<lparr>mutex_attr = \<lparr>mattr_type = 1\<rparr>, mutex_queue = [9], mutex_locked = 1,
       mutex_owner = Some 7\<rparr>) =
     Some (0, Some \<lparr>mutex_attr = \<lparr>mattr_type = 1\<rparr>, mutex_queue = [9], mutex_locked = 2,
       mutex_owner = Some 7\<rparr>) \<and>
   upthread_mutex_trylock 8 (Some (mon_mutex demo_mon3)) = Some (EBUSY, Some (mon_mutex demo_mon3))"
  using mutex_trylock_exact [of "\<lparr>mutex_attr = \<lparr>mattr_type = 1\<rparr>, mutex_queue = [9], mutex_locked = 1,
       mutex_owner = Some 7\<rparr>" 7] mutex_trylock_exact [of "mon_mutex demo_mon3" 8]
  by (simp add: mutex_wf_def demo_mon_defs)

text \<open>
  There is no check that the caller of \<open>upthread_mutex_unlock\<close> holds the mutex. Unlocking a
  free mutex of either type returns 0 and leaves \<open>locked\<close> at -1, and from then on every call of
  \<open>upthread_mutex_lock\<close>, by any thread, goes to sleep.
\<close>

theorem mutex_unlock_free_wedges:
  assumes "mutex_wf m" and "mutex_locked m = 0"
  shows "\<exists>m'. upthread_mutex_unlock rt (Some m) s = Some (0, Some m', s) \<and> mutex_locked m' = -1 \<and>
    (\<forall>t. upthread_mutex_lock t (Some m') = Some (Lock_sleep, Some m'))"
proof -
  have own: "mutex_owner m = None" using assms by (simp add: mutex_wf_def)
  let ?m = "m\<lparr>mutex_locked := -1\<rparr>"
  have "upthread_mutex_unlock rt (Some m) s = Some (0, Some ?m, s)"
    using assms(2) by (simp add: upthread_mutex_unlock_def mutex_unlock_cs_def int_dec_def wake_opt_def)
  moreover have "upthread_mutex_lock t (Some ?m) = Some (Lock_sleep, Some ?m)" for t
    by (simp add: upthread_mutex_lock_def mutex_recursive_owner_def mutex_lock_loop_def own)
  ultimately show ?thesis by (intro exI [of _ ?m]) simp
qed

theorem mutex_unlock_free_wedges_witness:
  "\<exists>m'. upthread_mutex_unlock gq_runtime (Some UPTHREAD_MUTEX_INITIALIZER) gq_three =
     Some (0, Some m', gq_three) \<and> mutex_locked m' = -1 \<and>
     (\<forall>t. upthread_mutex_lock t (Some m') = Some (Lock_sleep, Some m'))"
  by (rule mutex_unlock_free_wedges) (simp_all add: mutex_wf_def UPTHREAD_MUTEX_INITIALIZER_def)

end
