(* ===== verification/Semaphore_Gq.thy ===== *)
theory Semaphore_Gq
  imports Monitor_Gq
begin

text \<open>
  Futexes and semaphores on the global-queue scheduler: the facts of the semaphore system for
  the scheduler's own operations, and the functional behaviour of the wake-up calls.
\<close>

section \<open>Waking the head of a futex queue\<close>

lemma gq_unblock:
  assumes "gq_ok s" and "\<forall>e \<in> set q. fe_upthread e \<noteq> None"
    and "distinct (map fe_upthread q)" and "the ` fe_upthread ` set q \<subseteq> blocked_threads s"
  shows "\<exists>s'. unblock_futex_queue gq_runtime q s = Some (int (length q), s') \<and> gq_ok s' \<and>
           ready_queue s' = ready_queue s @ map (the \<circ> fe_upthread) q \<and>
           blocked_threads s' = blocked_threads s - the ` fe_upthread ` set q"
  using assms
proof (induction q arbitrary: s)
  case Nil
  then show ?case by simp
next
  case (Cons e q)
  then obtain u where u: "fe_upthread e = Some u" by auto
  with Cons.prems have ub: "u \<in> blocked_threads s" by auto
  then obtain p where p: "tcbs s u = Some p" "tcb_state p = UPTH_BLK_MUTEX"
    by (auto simp: blocked_threads_def state_of_def)
  from gq_runnable_inv [OF _ p(1)] p(2) gq_runnable_spec [OF Cons.prems(1) ub] Cons.prems(1)
  obtain s1 where s1: "gq_pth_thread_runnable u s = Some s1" "ready_queue s1 = ready_queue s @ [u]"
    "gq_ok s1" "blocked_threads s1 = blocked_threads s - {u}" by (auto simp: gq_ok_def)
  have "\<forall>x \<in> set q. fe_upthread x \<noteq> Some u" using Cons.prems(3) u by (auto simp: image_iff)
  with Cons.prems u s1(4) have "the ` fe_upthread ` set q \<subseteq> blocked_threads s1" by fastforce
  with Cons.IH [OF s1(3)] Cons.prems u s1 show ?case by fastforce
qed

section \<open>Properties of futexes\<close>

lemma futex_wake_some_gq:
  assumes "fx_ok fx" and "wfl_adds ins" and "\<And>p. malloc = Some p \<Longrightarrow> fx_heap fx p = None"
    and "gq_ok s" and "\<forall>e \<in> set (fx_queue a fx). fe_upthread e \<noteq> None"
    and "distinct (map fe_upthread (fx_queue a fx))"
    and "the ` fe_upthread ` set (fx_queue a fx) \<subseteq> blocked_threads s"
    and "fx_list_of a fx \<noteq> None \<or> malloc \<noteq> None"
  shows "\<exists>fx' s'. futex_wake_some gq_runtime ins malloc a cnt (fx, s) =
      Some (int (min (nat cnt) (length (fx_queue a fx))), fx', s') \<and> fx_ok fx' \<and> gq_ok s' \<and>
    fx_queue a fx' = drop (nat cnt) (fx_queue a fx) \<and> (\<forall>b. b \<noteq> a \<longrightarrow> fx_queue b fx' = fx_queue b fx) \<and>
    ready_queue s' = ready_queue s @ map (the \<circ> fe_upthread) (take (nat cnt) (fx_queue a fx))"
proof -
  have "futex_take ins malloc a cnt fx \<noteq> None"
  proof -
    obtain found where f: "futex_scan (fx_heap fx) a (fx_lists fx) = Some found"
      using futex_scan_defined [of "fx_lists fx" "fx_heap fx" a] assms(1) by (auto simp: fx_ok_def)
    with assms(8) have "get_futex_list ins malloc a fx \<noteq> None"
      by (cases found) (auto simp: get_futex_list_def futex_list_create_def fx_list_of_def)
    then obtain p fx1 where g: "get_futex_list ins malloc a fx = Some (p, fx1)" by auto
    note gs = get_futex_list_spec [OF assms(1-3) g]
    then obtain l where "fx_heap fx1 p = Some l" using fx_list_of_Some [OF gs(1)] by blast
    then show ?thesis using g by (auto simp: futex_take_def set_tailq_def split: prod.splits)
  qed
  then obtain q fx' where tk: "futex_take ins malloc a cnt fx = Some (q, fx')" by auto
  note new = gq_sched.futex_take_spec [OF assms(1-3) tk]
  have q: "q = take (nat cnt) (fx_queue a fx)" by (rule new(2))
  then have sub: "set q \<subseteq> set (fx_queue a fx)" by (simp add: set_take_subset)
  have "distinct (map fe_upthread q)" using assms(6) by (simp add: q flip: take_map)
  moreover have "\<forall>e \<in> set q. fe_upthread e \<noteq> None" using assms(5) sub by blast
  moreover have "the ` fe_upthread ` set q \<subseteq> blocked_threads s" using assms(7) sub by blast
  ultimately obtain s' where s': "unblock_futex_queue gq_runtime q s = Some (int (length q), s')" "gq_ok s'"
    "ready_queue s' = ready_queue s @ map (the \<circ> fe_upthread) q"
    using gq_unblock [OF assms(4)] by blast
  from tk s'(1) have "futex_wake_some gq_runtime ins malloc a cnt (fx, s) = Some (int (length q), fx', s')"
    by (simp add: futex_wake_some_def)
  with new(1,3,4) s'(2,3) show ?thesis by (simp add: q min.commute)
qed

text \<open>
  C34: whichever call the macro \<open>futex_wake\<close> picks, it takes the first \<open>count\<close> sleepers of the address
  off its queue, makes exactly them runnable, in the order they went to sleep, and returns how many
  they were; the other sleepers of the address and those of every other address stay asleep.
\<close>

theorem futex_wake_exact:
  assumes "fx_ok fx" and "wfl_adds ins" and "\<And>p. malloc = Some p \<Longrightarrow> fx_heap fx p = None"
    and "gq_ok s" and "\<forall>e \<in> set (fx_queue a fx). fe_upthread e \<noteq> None"
    and "distinct (map fe_upthread (fx_queue a fx))"
    and "the ` fe_upthread ` set (fx_queue a fx) \<subseteq> blocked_threads s"
    and "fx_list_of a fx \<noteq> None \<or> malloc \<noteq> None" and "int (length (fx_queue a fx)) \<le> INT_MAX"
  shows "\<exists>fx' s'. futex_wake gq_runtime ins malloc constant_p a cnt (fx, s) =
      Some (int (min (nat cnt) (length (fx_queue a fx))), fx', s') \<and> fx_ok fx' \<and> gq_ok s' \<and>
    fx_queue a fx' = drop (nat cnt) (fx_queue a fx) \<and> (\<forall>b. b \<noteq> a \<longrightarrow> fx_queue b fx' = fx_queue b fx) \<and>
    ready_queue s' = ready_queue s @ map (the \<circ> fe_upthread) (take (nat cnt) (fx_queue a fx))"
proof -
  have "futex_wake gq_runtime ins malloc constant_p a cnt (fx, s) =
      futex_wake_some gq_runtime ins malloc a cnt (fx, s)"
    by (rule futex_wake_eq [OF assms(1-3,9)])
  with futex_wake_some_gq [OF assms(1-8)] show ?thesis by simp
qed

definition demo_elem :: "upthread_t \<Rightarrow> futex_element" where
  "demo_elem t = \<lparr>fe_upthread = Some t, fe_list = 500, fe_val = 0\<rparr>"

definition demo_fx :: futexes where
  "demo_fx = \<lparr>fx_lists = [500], fx_heap = [500 \<mapsto> \<lparr>fl_tailq = [demo_elem 3, demo_elem 2], fl_uaddr = 64\<rparr>]\<rparr>"

lemma demo_fx: "fx_ok demo_fx" "fx_queue 64 demo_fx = [demo_elem 3, demo_elem 2]"
  "fx_list_of 64 demo_fx = Some 500"
  by (auto simp: fx_ok_def demo_fx_def fx_queue_def fx_list_of_def)

lemma wfl_adds_Cons: "wfl_adds (\<lambda>ps p. p # ps)"
  by (simp add: wfl_adds_def)

theorem futex_wake_exact_witness:
  "\<exists>fx' s'. futex_wake gq_runtime (\<lambda>ps p. p # ps) None True 64 1 (demo_fx, gq_three3) =
     Some (1, fx', s') \<and> fx_queue 64 fx' = [demo_elem 2] \<and> ready_queue s' = [3]"
proof -
  have "the ` fe_upthread ` set (fx_queue 64 demo_fx) \<subseteq> blocked_threads gq_three3"
    by (simp add: demo_fx demo_elem_def blocked_threads_def state_of_def gq_three_defs)
  from futex_wake_exact [OF demo_fx(1) wfl_adds_Cons _ gq_three3_ok _ _ this, of None True 1]
  show ?thesis by (auto simp: demo_fx demo_elem_def gq_three_defs)
qed

text \<open>
  There is one list for each address. \<open>get_futex_list\<close> keeps the registry free of duplicates,
  returns the list of that address, finds the same list again in every later call, and disturbs no
  queue, whatever else is in the registry and wherever \<open>malloc\<close> places a new list.
\<close>

theorem futex_list_unique:
  assumes "fx_ok fx" and "wfl_adds ins" and "\<And>p. malloc = Some p \<Longrightarrow> fx_heap fx p = None"
    and "get_futex_list ins malloc a fx = Some (p, fx')"
  shows "fx_ok fx' \<and> get_futex_list ins malloc' a fx' = Some (p, fx') \<and>
         (\<forall>b. fx_queue b fx' = fx_queue b fx)"
proof -
  note g = get_futex_list_spec [OF assms]
  then have "futex_scan (fx_heap fx') a (fx_lists fx') = Some (Some p)"
    by (auto simp: fx_list_of_def bind_Some_conv)
  with g show ?thesis by (simp add: get_futex_list_def)
qed

theorem futex_list_unique_witness:
  "\<exists>p fx'. get_futex_list (\<lambda>ps p. p # ps) (Some 600) 68 demo_fx = Some (p, fx') \<and> fx_ok fx' \<and>
     get_futex_list (\<lambda>ps p. p # ps) None 68 fx' = Some (p, fx') \<and>
     fx_queue 64 fx' = [demo_elem 3, demo_elem 2]"
proof -
  have "get_futex_list (\<lambda>ps p. p # ps) (Some 600) 68 demo_fx =
      Some (600, demo_fx\<lparr>fx_heap := (fx_heap demo_fx)(600 \<mapsto> \<lparr>fl_tailq = [], fl_uaddr = 68\<rparr>),
                         fx_lists := [600, 500]\<rparr>)" (is "_ = Some (_, ?fx)")
    by (simp add: get_futex_list_def futex_list_create_def demo_fx_def)
  moreover from futex_list_unique [OF demo_fx(1) wfl_adds_Cons _ this, of None]
  have "fx_ok ?fx" "get_futex_list (\<lambda>ps p. p # ps) None 68 ?fx = Some (600, ?fx)"
    "fx_queue 64 ?fx = fx_queue 64 demo_fx" by (auto simp: demo_fx_def)
  ultimately show ?thesis by (auto simp: demo_fx(2))
qed

section \<open>Properties of semaphores\<close>

text \<open>
  C12: the value of a semaphore is its initial value plus the posts less the waits that returned
  successfully, in every interleaving of their memory accesses, so no wait succeeds without a post
  or an initial token to pay for it; as long as the value stays within an \<open>int\<close> and \<open>nwaiters\<close>,
  which nothing ever decrements, has not wrapped.
\<close>

theorem gq_sem_conservation:
  assumes "reachable (sem_start gq_ok sem n) (sem_step gq_runtime gq_running gq_moves ins sem) M"
    and "wfl_adds ins" and "n + int (sy_posts M) \<le> INT_MAX" and "int (sy_slow M) \<le> INT_MAX"
  shows "sy_mem M sem = Some (n + int (sy_posts M) - int (sy_waits M)) \<and>
         int (sy_waits M) \<le> n + int (sy_posts M)"
  by (rule gq_sched.sem_conservation [OF assms(1,2)]) (use assms(3,4) sem_bounded_def in blast)

text \<open>
  C24: no post is lost. While a thread sleeps on the semaphore, its value is at most the number
  of threads that are still going to look at the value or to take a sleeper off the queue; in
  particular a positive value and a sleeper never coexist at rest.
\<close>

theorem gq_sem_no_lost_wakeup:
  assumes "reachable (sem_start gq_ok sem n) (sem_step gq_runtime gq_running gq_moves ins sem) M"
    and "wfl_adds ins" and "n + int (sy_posts M) \<le> INT_MAX" and "int (sy_slow M) \<le> INT_MAX"
    and "sy_pc M t = SAsleep" and "sy_mem M sem = Some v"
  shows "v \<le> int (card {u. sem_active (sy_pc M u)})"
  by (rule gq_sched.sem_no_lost_wakeup [OF assms(1,2) _ assms(5,6)]) (use assms(3,4) sem_bounded_def in blast)

section \<open>A small execution\<close>

text \<open>Thread 2 waits on a semaphore that was initialised with 0 and falls asleep; thread 1 posts.\<close>

definition demo_sem_mem :: memory where
  "demo_sem_mem = [64 \<mapsto> 0, 68 \<mapsto> 0]"

definition demo_sem0 :: "gq semsys" where
  "demo_sem0 = \<lparr>sy_mem = demo_sem_mem, sy_fx = futexes_init, sy_sched = gq_three,
     sy_pc = (\<lambda>_. SIdle), sy_waking = {}, sy_posts = 0, sy_waits = 0, sy_slow = 0\<rparr>"

definition demo_sem1 :: "gq semsys" where
  "demo_sem1 = demo_sem0\<lparr>sy_pc := (sy_pc demo_sem0)(2 := SFirst_cas 0)\<rparr>"

definition demo_sem2 :: "gq semsys" where
  "demo_sem2 = demo_sem1\<lparr>sy_mem := demo_sem_mem(68 \<mapsto> 1), sy_pc := (sy_pc demo_sem1)(2 := SFutex_check),
     sy_slow := 1\<rparr>"

definition demo_e :: futex_element where
  "demo_e = \<lparr>fe_upthread = None, fe_list = 500, fe_val = 0\<rparr>"

definition demo_fx1 :: "futex_element list \<Rightarrow> futexes" where
  "demo_fx1 q = \<lparr>fx_lists = [500], fx_heap = [500 \<mapsto> \<lparr>fl_tailq = q, fl_uaddr = 64\<rparr>]\<rparr>"

definition demo_sem3 :: "gq semsys" where
  "demo_sem3 = demo_sem2\<lparr>sy_fx := demo_fx1 [], sy_pc := (sy_pc demo_sem2)(2 := SFutex_yield demo_e)\<rparr>"

definition demo_sem4 :: "gq semsys" where
  "demo_sem4 = demo_sem3\<lparr>sy_fx := demo_fx1 [demo_e\<lparr>fe_upthread := Some 2\<rparr>], sy_sched := gq_three2,
     sy_pc := (sy_pc demo_sem3)(2 := SAsleep)\<rparr>"

definition demo_sem5 :: "gq semsys" where
  "demo_sem5 = demo_sem4\<lparr>sy_mem := demo_sem_mem(68 \<mapsto> 1, 64 \<mapsto> 1),
     sy_pc := (sy_pc demo_sem4)(1 := SPost_check), sy_posts := 1\<rparr>"

lemmas demo_sem_defs = demo_sem0_def demo_sem1_def demo_sem2_def demo_sem3_def demo_sem4_def
  demo_sem5_def demo_sem_mem_def demo_e_def demo_fx1_def futexes_init_def gq_running_def

abbreviation demo_ins :: "addr list \<Rightarrow> addr \<Rightarrow> addr list" where
  "demo_ins \<equiv> \<lambda>ps p. p # ps"

abbreviation demo_sem_step :: "gq semsys \<Rightarrow> gq semsys \<Rightarrow> bool" where
  "demo_sem_step \<equiv> sem_step gq_runtime gq_running gq_moves demo_ins 64"

lemma demo_sem_start: "sem_start gq_ok 64 0 demo_sem0"
proof -
  have "upthread_sem_init (Some 64) 0 0 Map.empty = (0, demo_sem_mem)"
    by (simp add: upthread_sem_init_def demo_sem_mem_def)
  then show ?thesis by (auto simp: sem_start_def demo_sem0_def gq_three_ok)
qed

lemma demo_sem_steps:
  "demo_sem_step demo_sem0 demo_sem1" "demo_sem_step demo_sem1 demo_sem2"
  "demo_sem_step demo_sem2 demo_sem3" "demo_sem_step demo_sem3 demo_sem4"
  "demo_sem_step demo_sem4 demo_sem5"
proof -
  have run: "2 \<in> gq_running gq_three" "1 \<in> gq_running gq_three2"
    by (simp_all add: gq_running_def gq_three_defs)
  show "demo_sem_step demo_sem0 demo_sem1" unfolding demo_sem1_def
    by (rule s_first_read) (use run in \<open>simp_all add: demo_sem0_def demo_sem_mem_def\<close>)
  have "adip_pass 64 0 demo_sem_mem = Some (Some 0, demo_sem_mem)" by (simp add: adip_pass_def)
  moreover have "fetch_and_inc (sem_nwaiters_at 64) demo_sem_mem = Some (demo_sem_mem(68 \<mapsto> 1))"
    by (simp add: fetch_and_inc_def demo_sem_mem_def wrap32_def)
  ultimately have "demo_sem_step demo_sem1 (demo_sem1\<lparr>sy_mem := demo_sem_mem(68 \<mapsto> 1),
      sy_pc := (sy_pc demo_sem1)(2 := SFutex_check), sy_slow := Suc (sy_slow demo_sem1)\<rparr>)"
    by (intro s_first_slow [where v = 0 and r = 0 and mem' = demo_sem_mem])
      (use run in \<open>simp_all add: demo_sem1_def demo_sem0_def\<close>)
  then show "demo_sem_step demo_sem1 demo_sem2"
    by (simp add: demo_sem2_def) (simp add: demo_sem1_def demo_sem0_def)
  have "futex_wait demo_ins (Some 500) 64 0 (sy_mem demo_sem2) (sy_fx demo_sem2) = Some (Inr demo_e, demo_fx1 [])"
    by (simp add: futex_wait_def get_futex_list_def futex_list_create_def demo_sem_defs)
  then show "demo_sem_step demo_sem2 demo_sem3" unfolding demo_sem3_def
    by (intro s_futex_yes [where malloc = "Some 500"])
      (use run in \<open>simp_all add: demo_sem2_def demo_sem1_def demo_sem0_def futexes_init_def\<close>)
  have hb: "uthread_has_blocked gq_runtime 2 UTH_EXT_BLK_MUTEX gq_three = Some gq_three2"
    by (simp add: gq_pth_thread_has_blocked_def gq_generic_yield_def gq_three_defs fun_upd_twist)
  have "futex_block gq_runtime 2 demo_e (sy_mem demo_sem3) (sy_fx demo_sem3, gq_three) =
      Some (demo_fx1 [demo_e\<lparr>fe_upthread := Some 2\<rparr>], gq_three2)"
    using hb by (simp add: futex_block_def set_tailq_def demo_sem_defs)
  then have "demo_sem_step demo_sem3
     (demo_sem3\<lparr>sy_fx := demo_fx1 [demo_e\<lparr>fe_upthread := Some 2\<rparr>], sy_sched := gq_three2,
        sy_pc := (sy_pc demo_sem3)(2 := (if sy_mem demo_sem3 64 = Some (fe_val demo_e) then SAsleep else SRetry))\<rparr>)"
    by (intro s_futex_block) (use run in \<open>simp_all add: demo_sem3_def demo_sem2_def demo_sem1_def demo_sem0_def\<close>)
  then show "demo_sem_step demo_sem3 demo_sem4"
    by (simp add: demo_sem4_def) (simp add: demo_sem3_def demo_sem2_def demo_sem_mem_def demo_e_def)
  have "fetch_and_inc 64 (demo_sem_mem(68 \<mapsto> 1)) = Some (demo_sem_mem(68 \<mapsto> 1, 64 \<mapsto> 1))"
    by (simp add: fetch_and_inc_def demo_sem_mem_def wrap32_def)
  then have "demo_sem_step demo_sem4 (demo_sem4\<lparr>sy_mem := demo_sem_mem(68 \<mapsto> 1, 64 \<mapsto> 1),
      sy_pc := (sy_pc demo_sem4)(1 := SPost_check), sy_posts := Suc (sy_posts demo_sem4)\<rparr>)"
    by (intro s_post) (use run in \<open>simp_all add: demo_sem4_def demo_sem3_def demo_sem2_def demo_sem1_def demo_sem0_def\<close>)
  then show "demo_sem_step demo_sem4 demo_sem5"
    by (simp add: demo_sem5_def) (simp add: demo_sem4_def demo_sem3_def demo_sem2_def demo_sem1_def demo_sem0_def)
qed

lemma demo_sem5_reachable:
  "reachable (sem_start gq_ok 64 0) (sem_step gq_runtime gq_running gq_moves demo_ins 64) demo_sem5"
  by (rule reach_step, rule reach_step, rule reach_step, rule reach_step, rule reach_step,
      rule reach_init) (rule demo_sem_start demo_sem_steps)+

theorem gq_sem_conservation_witness: "sy_mem demo_sem5 64 = Some 1"
  using gq_sem_conservation [OF demo_sem5_reachable wfl_adds_Cons]
  by (simp add: demo_sem5_def demo_sem4_def demo_sem3_def demo_sem2_def demo_sem1_def demo_sem0_def)

theorem gq_sem_no_lost_wakeup_witness:
  "1 \<le> int (card {u. sem_active (sy_pc demo_sem5 u)})"
  by (rule gq_sem_no_lost_wakeup [OF demo_sem5_reachable wfl_adds_Cons, of 2])
    (simp_all add: demo_sem5_def demo_sem4_def demo_sem3_def demo_sem2_def demo_sem1_def demo_sem0_def)

section \<open>The calls themselves\<close>

text \<open>
  \<open>upthread_sem_post\<close> does not always return 0. On a semaphore with \<open>nwaiters\<close> above 0 it
  returns what the futex call returns, the number of sleepers it woke: 1 when a thread was asleep
  on the semaphore, 0 otherwise. The value goes up by one and at most the first sleeper is made
  runnable.
\<close>

theorem sem_post_returns_woken:
  assumes "fx_ok fx" and "wfl_adds ins" and "\<And>p. malloc = Some p \<Longrightarrow> fx_heap fx p = None"
    and "gq_ok s" and "\<forall>e \<in> set (fx_queue a fx). fe_upthread e \<noteq> None"
    and "distinct (map fe_upthread (fx_queue a fx))"
    and "the ` fe_upthread ` set (fx_queue a fx) \<subseteq> blocked_threads s"
    and "fx_list_of a fx \<noteq> None \<or> malloc \<noteq> None"
    and "sem_at mem a = Some \<lparr>sem_value = v, sem_nwaiters = n\<rparr>" and "0 < n"
  shows "\<exists>fx' s'. upthread_sem_post gq_runtime ins malloc (Some a) mem (fx, s) =
      Some (int (min 1 (length (fx_queue a fx))), mem(a \<mapsto> wrap32 (v + 1)), fx', s') \<and>
    ready_queue s' = ready_queue s @ map (the \<circ> fe_upthread) (take 1 (fx_queue a fx))"
proof -
  from assms(9) have mem: "mem a = Some v" "mem (sem_nwaiters_at a) = Some n"
    by (auto simp: sem_at_def bind_Some_conv)
  from futex_wake_some_gq [OF assms(1-8), of 1] mem assms(10) show ?thesis
    by (auto simp: upthread_sem_post_def futex_def)
qed

theorem sem_post_returns_woken_witness:
  "\<exists>mem fx' s'. upthread_sem_post gq_runtime demo_ins None (Some 64) (demo_sem_mem(68 \<mapsto> 2)) (demo_fx, gq_three3) =
     Some (1, mem, fx', s') \<and> ready_queue s' = [3]"
proof -
  have "the ` fe_upthread ` set (fx_queue 64 demo_fx) \<subseteq> blocked_threads gq_three3"
    by (simp add: demo_fx demo_elem_def blocked_threads_def state_of_def gq_three_defs)
  moreover have "sem_at (demo_sem_mem(68 \<mapsto> 2)) 64 = Some \<lparr>sem_value = 0, sem_nwaiters = 2\<rparr>"
    by (simp add: sem_at_def demo_sem_mem_def)
  ultimately show ?thesis
    using sem_post_returns_woken [OF demo_fx(1) wfl_adds_Cons _ gq_three3_ok,
        where malloc = None and a = 64 and mem = "demo_sem_mem(68 \<mapsto> 2)" and v = 0 and n = 2]
    by (fastforce simp: demo_fx demo_elem_def gq_three_defs)
qed

text \<open>
  The decrement loop is lock-free. Whatever other threads do to the value in the earlier
  passes, the first pass during which nobody touches it is the last: the call returns the value it
  read, and has taken one off it exactly when it was positive.
\<close>

theorem adip_lock_free:
  assumes "mem a = Some v0" and "\<And>k m. m a \<noteq> None \<Longrightarrow> env k m a \<noteq> None"
    and "\<And>m. env n m a = m a" and "n < fuel"
  shows "\<exists>v mem'. atomic_decrement_if_positive env fuel 0 a mem = Some (v, mem') \<and>
    (if v > 0 then mem' a = Some (v - 1) else \<exists>k mem0. mem' = env k mem0 \<and> mem0 a = Some v)"
proof -
  have "\<exists>v mem'. atomic_decrement_if_positive env (Suc d + e) j a mem = Some (v, mem') \<and>
    (if v > 0 then mem' a = Some (v - 1) else \<exists>k mem0. mem' = env k mem0 \<and> mem0 a = Some v)"
    if "mem a = Some v0" "j + d = n" for d e j mem v0
    using that
  proof (induction d arbitrary: j mem v0)
    case 0
    then show ?case using assms(3) [of mem] by (auto simp: adip_pass_def)
  next
    case (Suc d)
    from assms(2) [of mem j] Suc.prems(1) obtain v1 where v1: "env j mem a = Some v1" by auto
    show ?case
    proof (cases "v0 > 0 \<and> v1 \<noteq> v0")
      case True
      with Suc.IH [of "env j mem" v1 "Suc j"] Suc.prems v1 show ?thesis
        by (simp add: adip_pass_def)
    next
      case False
      with Suc.prems v1 show ?thesis by (auto simp: adip_pass_def)
    qed
  qed
  from this [of mem v0 0 n "fuel - Suc n"] assms(1,4) show ?thesis by simp
qed

theorem adip_lock_free_witness:
  "\<exists>v mem'. atomic_decrement_if_positive (\<lambda>k m. if k = 0 then m(64 \<mapsto> 7) else m) 2 0 64 [64 \<mapsto> 3] =
     Some (v, mem')"
proof -
  let ?env = "\<lambda>k m. if k = (0 :: nat) then m(64 \<mapsto> 7) else m :: memory"
  have "?env k m 64 \<noteq> None" if "m 64 \<noteq> None" for k m using that by simp
  from adip_lock_free [of "[64 \<mapsto> 3]" 64 3 ?env 1 2, OF _ this] show ?thesis by auto
qed

end
