(* ===== verification/Attr.thy ===== *)
theory Attr
  imports Gq_Correct
begin

text \<open>
  Thread attribute objects and the identity of the running thread, \<^verbatim>\<open>src/common/common.c\<close>,
  the calls that are declared and not supported, \<^verbatim>\<open>src/common/unsupported.c\<close>, and how the
  attributes travel through \<open>upthread_create\<close> and \<open>upthread_getattr_np\<close>. Each function returns
  its status and the values it stores.
\<close>

section \<open>Attribute objects\<close>

definition upthread_attr_init :: "64 word \<Rightarrow> upthread_attr_t \<Rightarrow> int \<times> upthread_attr_t" where
  "upthread_attr_init pgsize a =
     (0, a\<lparr>attr_stacksize := UPTHREAD_STACK_SIZE pgsize,
          attr_detachstate := UPTHREAD_CREATE_JOINABLE, attr_stackaddr := 0\<rparr>)"

definition upthread_attr_destroy :: "upthread_attr_t \<Rightarrow> int" where
  "upthread_attr_destroy a = 0"

definition upthread_attr_setstacksize :: "64 word \<Rightarrow> upthread_attr_t \<Rightarrow> int \<times> upthread_attr_t" where
  "upthread_attr_setstacksize stacksize a = (0, a\<lparr>attr_stacksize := stacksize\<rparr>)"

definition upthread_attr_getstacksize :: "upthread_attr_t \<Rightarrow> int \<times> 64 word" where
  "upthread_attr_getstacksize a = (0, attr_stacksize a)"

definition upthread_attr_setdetachstate :: "int \<Rightarrow> upthread_attr_t \<Rightarrow> int \<times> upthread_attr_t" where
  "upthread_attr_setdetachstate detachstate a = (0, a\<lparr>attr_detachstate := detachstate\<rparr>)"

definition upthread_attr_getstack :: "upthread_attr_t \<Rightarrow> int \<times> addr \<times> 64 word" where
  "upthread_attr_getstack a = (0, attr_stackaddr a, attr_stacksize a)"

section \<open>Identity\<close>

definition upthread_self :: "upthread_t option \<Rightarrow> upthread_t option" where
  "upthread_self current_uthread = current_uthread"

definition upthread_equal :: "upthread_t \<Rightarrow> upthread_t \<Rightarrow> int" where
  "upthread_equal thread1 thread2 = (if thread1 = thread2 then 1 else 0)"

section \<open>Unsupported calls\<close>

text \<open>They print to \<open>stderr\<close> and abort: the call does not return.\<close>

definition unsupported :: "string \<Rightarrow> string \<times> int option" where
  "unsupported name = (''Unsupported '' @ name @ ''!'', None)"

definition upthread_once :: "string \<times> int option" where
  "upthread_once = unsupported ''upthread_once''"

definition upthread_cancel :: "string \<times> int option" where
  "upthread_cancel = unsupported ''upthread_cancel''"

definition pthread_mutex_timedlock :: "string \<times> int option" where
  "pthread_mutex_timedlock = unsupported ''pthread_mutex_timedlock''"

definition pthread_cond_timedwait :: "string \<times> int option" where
  "pthread_cond_timedwait = unsupported ''pthread_cond_timedwait''"

section \<open>Attributes through the life of a thread\<close>

text \<open>The attribute object a client prepares with the setters.\<close>

definition prepared :: "64 word \<Rightarrow> 64 word \<Rightarrow> int \<Rightarrow> upthread_attr_t \<Rightarrow> upthread_attr_t" where
  "prepared pgsize stacksize detachstate a =
     snd (upthread_attr_setdetachstate detachstate
            (snd (upthread_attr_setstacksize stacksize (snd (upthread_attr_init pgsize a)))))"

lemma gq_create_tcb_attr:
  assumes "z \<noteq> 0" and "z < 2 ^ 32" and "mmap z = Some stackbot"
  shows "upthread_getattr_np (snd (gq_create_tcb mmap pgsize pid (Some (prepared pgsize z d a))) \<lparr>
      tcb_start_routine := start, tcb_arg := arg, tcb_state := UPTH_RUNNABLE\<rparr>) =
    (0, \<lparr>attr_stackaddr = stackbot, attr_stacksize = z, attr_detachstate = (if d = 1 then 1 else 0)\<rparr>)"
proof -
  have z: "requested_stacksize pgsize (Some (prepared pgsize z d a)) = z"
    using assms(1) by (simp add: requested_stacksize_def prepared_def upthread_attr_setdetachstate_def
        upthread_attr_setstacksize_def)
  have d: "attr_detachstate (prepared pgsize z d a) = d"
    by (simp add: prepared_def upthread_attr_setdetachstate_def)
  show ?thesis
    using gq_create_tcb_stack [of mmap pgsize "Some (prepared pgsize z d a)" stackbot pid] z d assms
    by (simp add: upthread_getattr_np_def ucast_down_up)
qed

text \<open>
  C39: attributes survive the trip through a thread. An attribute object that was initialised, given
  a stack size \<open>z\<close> and a detach state, passed to \<open>upthread_create\<close> and read back from the running
  thread with \<open>upthread_getattr_np\<close> and \<open>upthread_attr_getstack\<close> gives the stack \<open>mmap\<close> returned and
  the size \<open>z\<close>, whatever bytes the object held before it was initialised; \<open>z\<close> has to be nonzero
  and to fit 32 bits.
\<close>

theorem attr_roundtrip:
  assumes "z \<noteq> 0" and "z < 2 ^ 32" and "mmap z = Some stackbot"
    and "gq_upthread_create gq_pth_thread_runnable mmap pgsize t (Some (prepared pgsize z d a)) start arg s =
           Some (r, t', s')"
  shows "\<exists>p. tcbs s' t = Some p \<and> tcb_detached p = (d = 1) \<and>
    upthread_attr_getstack (snd (upthread_getattr_np p)) = (0, stackbot, z) \<and>
    upthread_attr_getstacksize (snd (upthread_getattr_np p)) = (0, z)"
proof -
  let ?attr = "Some (prepared pgsize z d a)"
  have z: "requested_stacksize pgsize ?attr = z" and d: "attr_detachstate (prepared pgsize z d a) = d"
    using assms(1) by (simp_all add: requested_stacksize_def prepared_def
        upthread_attr_setdetachstate_def upthread_attr_setstacksize_def)
  from gq_create_tcb_stack(4) [of mmap pgsize ?attr stackbot "next_pid s"] z d assms(2,3)
  have "tcb_detached (snd (gq_create_tcb mmap pgsize (next_pid s) ?attr)) = (d = 1)"
    by (simp add: ucast_down_up)
  with gq_create_tcb_result [OF assms(4)] gq_create_tcb_attr [of z mmap stackbot] assms(1-3) show ?thesis
    by (simp add: upthread_attr_getstack_def upthread_attr_getstacksize_def)
qed

theorem attr_roundtrip_witness:
  "\<exists>r t' s' p. gq_upthread_create gq_pth_thread_runnable (\<lambda>_. Some 1048576) 4096 8192
       (Some (prepared 4096 65536 1 \<lparr>attr_stackaddr = 9, attr_stacksize = 9, attr_detachstate = 9\<rparr>))
       1 2 gq_demo0 = Some (r, t', s') \<and> tcbs s' 8192 = Some p \<and> tcb_detached p \<and>
     upthread_attr_getstack (snd (upthread_getattr_np p)) = (0, 1048576, 65536)"
proof -
  let ?a = "\<lparr>attr_stackaddr = 9, attr_stacksize = 9, attr_detachstate = 9\<rparr>"
  have "gq_inv gq_demo0" using gq_demo0_ok by (simp add: gq_ok_def)
  moreover have "tcbs gq_demo0 8192 = None" by (simp add: gq_demo0)
  ultimately obtain s' where s': "gq_upthread_create gq_pth_thread_runnable (\<lambda>_. Some 1048576) 4096 8192
      (Some (prepared 4096 65536 1 ?a)) 1 2 gq_demo0 = Some (0, 8192, s')"
    using gq_create_inv by blast
  from attr_roundtrip [OF _ _ _ this, of 1048576] s' show ?thesis by auto
qed

end
