(* ===== verification/Pvcq_Sched.thy ===== *)
theory Pvcq_Sched
  imports Sched_Base "HOL-Library.Signed_Division"
begin

text \<open>
  The scheduler with one run queue for each vcore, \<^verbatim>\<open>src/pvcq/upthread.c\<close>: placement of new
  threads, the queues, work stealing and the search loop. \<open>me\<close> is \<open>vcore_id()\<close> of the vcore
  that runs the code; \<open>max_vcores()\<close> is the length of the array \<open>vc_mgmt\<close>. The code under
  \<open>tqlock(i)\<close> is one step. \<open>rand_r\<close> is libc's: a number that is not negative, and the next
  seed.
\<close>

section \<open>State\<close>

record vc_mgmt =
  vc_tqueue :: "upthread_t list"
  vc_tqsize :: int
  vc_rseed :: "32 word"

text \<open>\<open>zombie_list\<close> holds the control blocks that wait to be used again.\<close>

record pvcq = sched_globals +
  vc_mgmts :: "vc_mgmt list"
  zombie_list :: "upthread_t list"
  can_steal :: bool
  ss_yield :: bool
  nr_vcores :: int
  next_queue_id :: int

definition max_vcores :: "pvcq \<Rightarrow> int" where
  "max_vcores s = int (length (vc_mgmts s))"

text \<open>Reading and writing an element of the array \<open>vc_mgmt\<close>.\<close>

definition vc_get :: "int \<Rightarrow> pvcq \<Rightarrow> vc_mgmt option" where
  "vc_get i s = (if 0 \<le> i \<and> i < max_vcores s then Some (vc_mgmts s ! nat i) else None)"

definition vc_put :: "int \<Rightarrow> vc_mgmt \<Rightarrow> pvcq \<Rightarrow> pvcq" where
  "vc_put i v s = s\<lparr>vc_mgmts := (vc_mgmts s)[nat i := v]\<rparr>"

text \<open>All queued threads, queue by queue; their links are in use.\<close>

definition pvcq_queued :: "pvcq \<Rightarrow> upthread_t list" where
  "pvcq_queued s = concat (map vc_tqueue (vc_mgmts s))"

definition pvcq_links :: "pvcq \<Rightarrow> upthread_t set" where
  "pvcq_links s = set (pvcq_queued s)"

section \<open>Placement of new threads\<close>

text \<open>One pass of the loop of \<open>get_next_queue_id_basic\<close>, after \<open>next_queue_id\<close> was read as
  \<open>i\<close>: \<open>Some i\<close> is a return, \<open>None\<close> goes round again.\<close>

definition next_queue_pass :: "int \<Rightarrow> pvcq \<Rightarrow> (int option \<times> pvcq) option" where
  "next_queue_pass i s = do {
     succ \<leftarrow> int_inc i;
     let next_id = (if succ = nr_vcores s then 0 else succ);
     Some (if next_queue_id s = i then (Some i, s\<lparr>next_queue_id := next_id\<rparr>) else (None, s))
   }"

text \<open>\<open>env k\<close> is what other vcores do between the read and the compare and swap of pass \<open>k\<close>.\<close>

fun get_next_queue_id_basic ::
  "(nat \<Rightarrow> pvcq \<Rightarrow> pvcq) \<Rightarrow> nat \<Rightarrow> nat \<Rightarrow> pvcq \<Rightarrow> (int \<times> pvcq) option" where
  "get_next_queue_id_basic env 0 k s = None"
| "get_next_queue_id_basic env (Suc fuel) k s = do {
     (r, s) \<leftarrow> next_queue_pass (next_queue_id s) (env k s);
     (case r of
        Some i \<Rightarrow> Some (i, s)
      | None \<Rightarrow> get_next_queue_id_basic env fuel (Suc k) s)
   }"

section \<open>The queues\<close>

definition pvcq_enqueue :: "upthread_t \<Rightarrow> bool \<Rightarrow> pvcq \<Rightarrow> (int \<times> pvcq) option" where
  "pvcq_enqueue t athead s = do {
     p \<leftarrow> tcbs s t;
     let state = tcb_state p;
     s \<leftarrow> set_state t UPTH_RUNNABLE s;
     s \<leftarrow> (if state = UPTH_CREATED then do {
             (qid, s) \<leftarrow> get_next_queue_id_basic (\<lambda>_ s. s) 1 0 s;
             tcb_upd t (\<lambda>p. p\<lparr>tcb_preferred_vcq := qid\<rparr>) s
           }
           else Some s);
     p \<leftarrow> tcbs s t;
     let vcoreid = tcb_preferred_vcq p;
     v \<leftarrow> vc_get vcoreid s;
     q \<leftarrow> (if athead then stailq_insert_head (pvcq_links s) t (vc_tqueue v)
           else stailq_insert_tail (pvcq_links s) t (vc_tqueue v));
     Some (vcoreid, vc_put vcoreid (v\<lparr>vc_tqueue := q, vc_tqsize := vc_tqsize v + 1\<rparr>) s)
   }"

text \<open>The local function \<open>tdequeue\<close> of \<open>__pth_thread_dequeue\<close>.\<close>

definition tdequeue :: "int \<Rightarrow> int \<Rightarrow> pvcq \<Rightarrow> (upthread_t option \<times> pvcq) option" where
  "tdequeue me vcoreid s = do {
     v \<leftarrow> vc_get vcoreid s;
     if vc_tqsize v \<noteq> 0 then
       (case stailq_pop (vc_tqueue v) of
          (None, _) \<Rightarrow> Some (None, s)
        | (Some t, q) \<Rightarrow> do {
            let s = vc_put vcoreid (v\<lparr>vc_tqueue := q, vc_tqsize := vc_tqsize v - 1\<rparr>) s;
            s \<leftarrow> tcb_upd t (\<lambda>p. p\<lparr>tcb_preferred_vcq := me\<rparr>) s;
            Some (Some t, s)
          })
     else Some (None, s)
   }"

section \<open>Stealing\<close>

text \<open>The for loop of \<open>steal_threads\<close>, with \<open>n\<close> passes to go.\<close>

fun steal_loop :: "int \<Rightarrow> int \<Rightarrow> nat \<Rightarrow> pvcq \<Rightarrow> pvcq option" where
  "steal_loop me vcoreid 0 s = Some s"
| "steal_loop me vcoreid (Suc n) s = do {
     (u, s) \<leftarrow> tdequeue me vcoreid s;
     (case u of
        None \<Rightarrow> Some s
      | Some u \<Rightarrow> do {
          (_, s) \<leftarrow> pvcq_enqueue u False s;
          steal_loop me vcoreid n s
        })
   }"

definition steal_threads :: "int \<Rightarrow> int \<Rightarrow> pvcq \<Rightarrow> (upthread_t option \<times> pvcq) option" where
  "steal_threads me vcoreid s = do {
     v \<leftarrow> vc_get vcoreid s;
     let num_to_steal = (vc_tqsize v + 1) sdiv 2;
     if num_to_steal \<noteq> 0 then do {
       (u, s) \<leftarrow> tdequeue me vcoreid s;
       (case u of
          None \<Rightarrow> Some (None, s)
        | Some t \<Rightarrow> do {
            s \<leftarrow> steal_loop me vcoreid (nat (num_to_steal - 1)) s;
            Some (Some t, s)
          })
     }
     else Some (None, s)
   }"

text \<open>The while loop over all vcores, from \<open>i\<close>; the fuel is one more than the number of other
  vcores.\<close>

fun steal_scan :: "int \<Rightarrow> nat \<Rightarrow> int \<Rightarrow> pvcq \<Rightarrow> (upthread_t option \<times> pvcq) option" where
  "steal_scan me 0 i s = None"
| "steal_scan me (Suc fuel) i s =
     (if i = me then Some (None, s)
      else do {
        (u, s) \<leftarrow> steal_threads me i s;
        (case u of
           Some t \<Rightarrow> Some (Some t, s)
         | None \<Rightarrow> steal_scan me fuel ((i + 1) mod max_vcores s) s)
      })"

text \<open>A number below \<open>num_vcores\<close>, which must not be 0, from the seed of vcore \<open>i\<close>.\<close>

definition rand_vcore ::
  "(32 word \<Rightarrow> int \<times> 32 word) \<Rightarrow> int \<Rightarrow> int \<Rightarrow> pvcq \<Rightarrow> (int \<times> pvcq) option" where
  "rand_vcore rand_r n i s = do {
     v \<leftarrow> vc_get i s;
     (case rand_r (vc_rseed v) of
        (r, seed) \<Rightarrow>
          if n = 0 then None else Some (r smod n, vc_put i (v\<lparr>vc_rseed := seed\<rparr>) s))
   }"

text \<open>\<open>num_vcores\<close> is parlib's count of the vcores in use.\<close>

definition pvcq_dequeue ::
  "(32 word \<Rightarrow> int \<times> 32 word) \<Rightarrow> int \<Rightarrow> int \<Rightarrow> pvcq \<Rightarrow> (upthread_t option \<times> pvcq) option" where
  "pvcq_dequeue rand_r num_vcores me s = do {
     (u, s) \<leftarrow> tdequeue me me s;
     if can_steal s \<and> u = None then do {
       (choice0, s) \<leftarrow> rand_vcore rand_r num_vcores me s;
       (choice1, s) \<leftarrow> rand_vcore rand_r num_vcores me s;
       v0 \<leftarrow> vc_get choice0 s;
       v1 \<leftarrow> vc_get choice1 s;
       let (best, other) = (if vc_tqsize v0 > vc_tqsize v1 then (choice0, choice1)
                            else (choice1, choice0));
       (u, s) \<leftarrow> (if me \<noteq> best then steal_threads me best s else steal_threads me other s);
       (case u of
          Some t \<Rightarrow> Some (Some t, s)
        | None \<Rightarrow>
            steal_scan me (length (vc_mgmts s)) ((me + 1) mod max_vcores s) s)
     }
     else Some (u, s)
   }"

section \<open>The search loop\<close>

text \<open>As in the global-queue variant; the thread found is marked running.\<close>

fun pvcq_sched_loop ::
  "(nat \<Rightarrow> pvcq \<Rightarrow> pvcq) \<Rightarrow> (32 word \<Rightarrow> int \<times> 32 word) \<Rightarrow> int \<Rightarrow> int \<Rightarrow> nat \<Rightarrow> nat \<Rightarrow> int \<Rightarrow> pvcq \<Rightarrow>
   (upthread_t \<times> pvcq) option" where
  "pvcq_sched_loop env rand_r num_vcores me 0 k spin s = None"
| "pvcq_sched_loop env rand_r num_vcores me (Suc fuel) k spin s = do {
     (u, s) \<leftarrow> pvcq_dequeue rand_r num_vcores me s;
     (case u of
        Some t \<Rightarrow> Some (t, s)
      | None \<Rightarrow> do {
          (give_up, spin) \<leftarrow> spin_step (can_adjust_vcores s) spin;
          let s = (if give_up then ext VcoreYield s else s);
          pvcq_sched_loop env rand_r num_vcores me fuel (Suc k) spin
            (env k (ext CpuRelax (ext HandleEvents s)))
        })
   }"

definition pvcq_pth_sched_entry ::
  "(nat \<Rightarrow> pvcq \<Rightarrow> pvcq) \<Rightarrow> (32 word \<Rightarrow> int \<times> 32 word) \<Rightarrow> int \<Rightarrow> int \<Rightarrow> nat \<Rightarrow> upthread_t option \<Rightarrow>
   pvcq \<Rightarrow> (upthread_t \<times> pvcq) option" where
  "pvcq_pth_sched_entry env rand_r num_vcores me fuel current_uthread s =
     (case current_uthread of
        Some t \<Rightarrow> Some (t, ext RunCurrentUthread s)
      | None \<Rightarrow> do {
          (t, s) \<leftarrow> pvcq_sched_loop env rand_r num_vcores me fuel 0 (max_spin_count s) s;
          s \<leftarrow> set_state t UPTH_RUNNING s;
          Some (t, ext (RunUthread t) s)
        })"

section \<open>Operations registered with parlib\<close>

definition pvcq_pth_thread_runnable :: "upthread_t \<Rightarrow> pvcq \<Rightarrow> pvcq option" where
  "pvcq_pth_thread_runnable t s = do {
     p \<leftarrow> tcbs s t;
     let state = tcb_state p;
     (qid, s) \<leftarrow>
       (if state = UPTH_BLK_SYSC then pvcq_enqueue t True s
        else if wakeable state then pvcq_enqueue t False s
        else Some (0, ext (PrintfOddState (upth_state_code state) t) s));
     Some (if can_adjust_vcores s then ext (VcoreRequestSpecific qid) s else s)
   }"

definition pvcq_generic_yield :: "upthread_t \<Rightarrow> pvcq \<Rightarrow> pvcq option" where
  "pvcq_generic_yield t s = Some s"

definition pvcq_pth_thread_paused ::
  "(upthread_t \<Rightarrow> pvcq \<Rightarrow> pvcq option) \<Rightarrow> upthread_t \<Rightarrow> pvcq \<Rightarrow> pvcq option" where
  "pvcq_pth_thread_paused ur t s = do {
     s \<leftarrow> pvcq_generic_yield t s;
     s \<leftarrow> set_state t UPTH_BLK_PAUSED s;
     ur t s
   }"

definition pvcq_pth_thread_has_blocked ::
  "upthread_t \<Rightarrow> ext_blk_flag \<Rightarrow> pvcq \<Rightarrow> pvcq option" where
  "pvcq_pth_thread_has_blocked t flags s = do {
     s \<leftarrow> pvcq_generic_yield t s;
     s \<leftarrow> set_state t UPTH_BLK_MUTEX s;
     Some (if flags = UTH_EXT_BLK_JUSTICE then ext (PrintfMsg ''For great justice!'') s else s)
   }"

definition pvcq_pth_blockon_syscall :: "upthread_t \<Rightarrow> addr \<Rightarrow> pvcq \<Rightarrow> pvcq option" where
  "pvcq_pth_blockon_syscall t sysc s = do {
     s \<leftarrow> pvcq_generic_yield t s;
     s \<leftarrow> set_state t UPTH_BLK_SYSC s;
     Some (s\<lparr>u_data := (u_data s)(sysc := Some t)\<rparr>)
   }"

definition pvcq_upthread_sched_ops ::
  "(upthread_t \<Rightarrow> pvcq \<Rightarrow> pvcq option) \<Rightarrow> pvcq schedule_ops" where
  "pvcq_upthread_sched_ops ur =
     \<lparr>thread_runnable = pvcq_pth_thread_runnable,
      thread_paused = pvcq_pth_thread_paused ur,
      thread_blockon_syscall = pvcq_pth_blockon_syscall,
      thread_has_blocked = pvcq_pth_thread_has_blocked\<rparr>"

section \<open>System calls\<close>

definition pvcq_restart_thread :: "addr \<Rightarrow> pvcq \<Rightarrow> pvcq option" where
  "pvcq_restart_thread sysc s = do {
     t \<leftarrow> u_data s sysc;
     s \<leftarrow> tcb_upd t (\<lambda>p. p\<lparr>uth_sysc := None\<rparr>) s;
     pvcq_pth_thread_runnable t s
   }"

definition pvcq_pth_handle_syscall :: "addr option \<Rightarrow> pvcq \<Rightarrow> pvcq option" where
  "pvcq_pth_handle_syscall ev_msg s =
     (case ev_msg of None \<Rightarrow> Some s | Some sysc \<Rightarrow> pvcq_restart_thread sysc s)"

section \<open>Settings\<close>

definition pvcq_upthread_can_vcore_request :: "bool \<Rightarrow> pvcq \<Rightarrow> pvcq" where
  "pvcq_upthread_can_vcore_request can s = s\<lparr>can_adjust_vcores := can\<rparr>"

definition pvcq_upthread_can_vcore_steal :: "bool \<Rightarrow> pvcq \<Rightarrow> pvcq" where
  "pvcq_upthread_can_vcore_steal can s = s\<lparr>can_steal := can\<rparr>"

definition pvcq_upthread_set_num_vcores :: "int \<Rightarrow> pvcq \<Rightarrow> pvcq" where
  "pvcq_upthread_set_num_vcores num s =
     (let s = s\<lparr>nr_vcores := min num (max_vcores s)\<rparr>
      in s\<lparr>next_queue_id := (if nr_vcores s > 1 then 1 else 0)\<rparr>)"

definition pvcq_upthread_short_circuit_yield :: "bool \<Rightarrow> pvcq \<Rightarrow> pvcq" where
  "pvcq_upthread_short_circuit_yield ss s = s\<lparr>ss_yield := ss\<rparr>"

end
