(* ===== verification/Pvcq_Threads.thy ===== *)
theory Pvcq_Threads
  imports Pvcq_Sched
begin

text \<open>
  The thread interface of \<^verbatim>\<open>src/pvcq/upthread.c\<close>: the pool of control blocks, initialisation,
  creation, join, exit, detach and yield. As in the global-queue variant, a call that leaves the
  thread is split at the call of \<open>uthread_yield\<close>.
\<close>

section \<open>What the platform supplies\<close>

text \<open>
  Constants and routines of parlib and libc: the page size, the size of a cache line, of a
  control block, rounding up to a multiple, \<open>rand_r\<close>, and the operations of the wait-free list:
  inserting, and removing some element (\<open>None\<close> when it is empty).
\<close>

record platform =
  pl_pgsize :: "64 word"
  pl_clsize :: "64 word"
  pl_tcbsize :: "64 word"
  pl_roundup :: "64 word \<Rightarrow> 64 word \<Rightarrow> 64 word"
  pl_rand_r :: "32 word \<Rightarrow> int \<times> 32 word"
  pl_wfl_insert :: "upthread_t list \<Rightarrow> upthread_t \<Rightarrow> upthread_t list"
  pl_wfl_remove :: "upthread_t list \<Rightarrow> (upthread_t \<times> upthread_t list) option"

section \<open>Control blocks and stacks\<close>

text \<open>
  The control block sits at the top of its stack, a random number of cache lines below the end of
  the mapping. \<open>mmap\<close> gives the start of a new mapping of that size; \<open>None\<close> is \<open>MAP_FAILED\<close>,
  on which the process aborts. New memory is zero.
\<close>

definition pvcq_upthread_alloc ::
  "platform \<Rightarrow> (64 word \<Rightarrow> addr option) \<Rightarrow> 64 word \<Rightarrow> pvcq \<Rightarrow> (upthread_t \<times> pvcq) option" where
  "pvcq_upthread_alloc pl mmap stacksize s =
     (case pl_wfl_remove pl (zombie_list s) of
        Some (t, zombies) \<Rightarrow> Some (t, s\<lparr>zombie_list := zombies\<rparr>)
      | None \<Rightarrow> do {
          (r, s) \<leftarrow> rand_vcore (pl_rand_r pl) (max_vcores s) 0 s;
          let offset = pl_roundup pl (pl_tcbsize pl) (pl_clsize pl) + word_of_int r * pl_clsize pl;
          let stacksize = pl_roundup pl (stacksize + offset) (pl_pgsize pl);
          stackbot \<leftarrow> mmap stacksize;
          let t = stackbot + stacksize - offset;
          let p = tcb_zero\<lparr>tcb_stack_offset := uint offset, tcb_stacktop := t,
                    tcb_stacksize := ucast (stacksize - offset)\<rparr>;
          Some (t, s\<lparr>tcbs := (tcbs s)(t \<mapsto> p)\<rparr>)
        })"

definition pvcq_upthread_free :: "platform \<Rightarrow> upthread_t \<Rightarrow> pvcq \<Rightarrow> pvcq option" where
  "pvcq_upthread_free pl t s =
     (if length (zombie_list s) < 1000
      then Some (s\<lparr>zombie_list := pl_wfl_insert pl (zombie_list s) t\<rparr>)
      else do {
        p \<leftarrow> tcbs s t;
        let stacksize = scast (tcb_stacksize p + word_of_int (tcb_stack_offset p));
        Some (ext (Munmap (tcb_stacktop p - ucast (tcb_stacksize p)) stacksize)
                (s\<lparr>tcbs := (tcbs s)(t := None)\<rparr>))
      })"

section \<open>Initialisation\<close>

text \<open>The zeroed and statically initialised globals, for \<open>n\<close> vcores.\<close>

definition pvcq_globals :: "nat \<Rightarrow> pvcq" where
  "pvcq_globals n =
     \<lparr>tcbs = Map.empty, u_data = (\<lambda>_. None), can_adjust_vcores = True, max_spin_count = 100,
      next_pid = 0, calls = [],
      vc_mgmts = replicate n \<lparr>vc_tqueue = [], vc_tqsize = 0, vc_rseed = 0\<rparr>,
      zombie_list = [], can_steal = True, ss_yield = True, nr_vcores = 0, next_queue_id = 0\<rparr>"

text \<open>The loop that initialises the array, from element \<open>i\<close>.\<close>

fun vc_mgmt_init :: "nat \<Rightarrow> vc_mgmt list \<Rightarrow> vc_mgmt list" where
  "vc_mgmt_init i [] = []"
| "vc_mgmt_init i (v # vs) =
     v\<lparr>vc_tqueue := [], vc_tqsize := 0, vc_rseed := of_nat i\<rparr> # vc_mgmt_init (Suc i) vs"

definition pvcq_upthread_lib_init ::
  "platform \<Rightarrow> (64 word \<Rightarrow> addr option) \<Rightarrow> int option \<Rightarrow> addr \<Rightarrow> 64 word \<Rightarrow> pvcq \<Rightarrow>
   (upthread_t \<times> pvcq) option" where
  "pvcq_upthread_lib_init pl mmap spin_count_env stackbottom stacksize s = do {
     let s = s\<lparr>vc_mgmts := vc_mgmt_init 0 (vc_mgmts s)\<rparr>;
     let s = pvcq_upthread_set_num_vcores (max_vcores s) s;
     let s = (case spin_count_env of None \<Rightarrow> s | Some n \<Rightarrow> s\<lparr>max_spin_count := n\<rparr>);
     (t, s) \<leftarrow> pvcq_upthread_alloc pl mmap 0 s;
     let (pid, s) = get_next_pid s;
     s \<leftarrow> tcb_upd t (\<lambda>p. p\<lparr>tcb_id := pid, tcb_stacktop := stackbottom + stacksize,
            tcb_stacksize := ucast stacksize, tcb_detached := True, tcb_state := UPTH_RUNNING,
            tcb_joiner := None\<rparr>) s;
     Some (t, s)
   }"

section \<open>Creation\<close>

definition pvcq_upthread_create ::
  "(upthread_t \<Rightarrow> pvcq \<Rightarrow> pvcq option) \<Rightarrow> platform \<Rightarrow> (64 word \<Rightarrow> addr option) \<Rightarrow>
   upthread_attr_t option \<Rightarrow> addr \<Rightarrow> addr \<Rightarrow> pvcq \<Rightarrow> (int \<times> upthread_t \<times> pvcq) option" where
  "pvcq_upthread_create ur pl mmap attr start_routine arg s = do {
     let stacksize = (case attr of
                        None \<Rightarrow> UPTHREAD_STACK_SIZE (pl_pgsize pl)
                      | Some a \<Rightarrow> if attr_stacksize a \<noteq> 0 then attr_stacksize a
                                  else UPTHREAD_STACK_SIZE (pl_pgsize pl));
     (t, s) \<leftarrow> pvcq_upthread_alloc pl mmap stacksize s;
     let (pid, s) = get_next_pid s;
     s \<leftarrow> tcb_upd t (\<lambda>p. p\<lparr>tcb_state := UPTH_CREATED, tcb_id := pid,
            tcb_detached := (case attr of None \<Rightarrow> False
                             | Some a \<Rightarrow> attr_detachstate a = UPTHREAD_CREATE_DETACHED),
            tcb_joiner := None\<rparr>) s;
     p \<leftarrow> tcbs s t;
     let s = ext (InitUthreadTf t (tcb_stacktop p - ucast (tcb_stacksize p)) (tcb_stacksize p)) s;
     s \<leftarrow> tcb_upd t (\<lambda>p. p\<lparr>tcb_start_routine := start_routine, tcb_arg := arg\<rparr>) s;
     s \<leftarrow> ur t (ext (UthreadInit t) s);
     Some (0, t, s)
   }"

section \<open>Join\<close>

datatype pvcq_join_start = Pvcq_join_refused int | Pvcq_join_block | Pvcq_join_ready

definition pvcq_upthread_join :: "upthread_t \<Rightarrow> pvcq \<Rightarrow> (pvcq_join_start \<times> pvcq) option" where
  "pvcq_upthread_join join_target s = do {
     p \<leftarrow> tcbs s join_target;
     Some (if tcb_detached p
           then (Pvcq_join_refused (-1),
                 ext (PrintfMsg ''[upthread] trying to join on a detached upthread'') s)
           else if tcb_joiner p = None then (Pvcq_join_block, s)
           else (Pvcq_join_ready, s))
   }"

definition pvcq_pth_join_cb ::
  "(upthread_t \<Rightarrow> pvcq \<Rightarrow> pvcq option) \<Rightarrow> upthread_t \<Rightarrow> upthread_t \<Rightarrow> pvcq \<Rightarrow> pvcq option" where
  "pvcq_pth_join_cb ur t join_target s = do {
     s \<leftarrow> pvcq_generic_yield t s;
     s \<leftarrow> set_state t UPTH_BLK_JOINING s;
     p \<leftarrow> tcbs s join_target;
     s \<leftarrow> tcb_upd join_target (\<lambda>p. p\<lparr>tcb_joiner := Some t\<rparr>) s;
     (case tcb_joiner p of None \<Rightarrow> Some s | Some _ \<Rightarrow> ur t s)
   }"

definition pvcq_join_finish :: "platform \<Rightarrow> upthread_t \<Rightarrow> pvcq \<Rightarrow> (int \<times> addr \<times> pvcq) option" where
  "pvcq_join_finish pl join_target s = do {
     p \<leftarrow> tcbs s join_target;
     s \<leftarrow> pvcq_upthread_free pl join_target s;
     Some (0, tcb_retval p, s)
   }"

section \<open>Exit\<close>

definition pvcq_upthread_exit :: "addr \<Rightarrow> upthread_t \<Rightarrow> pvcq \<Rightarrow> pvcq option" where
  "pvcq_upthread_exit ret t s = do {
     s \<leftarrow> tcb_upd t (\<lambda>p. p\<lparr>tcb_retval := ret\<rparr>) s;
     Some (ext DestroyDtls s)
   }"

definition pvcq_pth_exit_cb ::
  "(upthread_t \<Rightarrow> pvcq \<Rightarrow> pvcq option) \<Rightarrow> platform \<Rightarrow> upthread_t \<Rightarrow> pvcq \<Rightarrow> pvcq option" where
  "pvcq_pth_exit_cb ur pl t s = do {
     s \<leftarrow> pvcq_generic_yield t s;
     s \<leftarrow> set_state t UPTH_EXITING s;
     let s = ext (UthreadCleanup t) s;
     p \<leftarrow> tcbs s t;
     if tcb_detached p then pvcq_upthread_free pl t s
     else do {
       s \<leftarrow> tcb_upd t (\<lambda>p. p\<lparr>tcb_joiner := Some t\<rparr>) s;
       (case tcb_joiner p of None \<Rightarrow> Some s | Some joiner \<Rightarrow> ur joiner s)
     }
   }"

section \<open>Yield and detach\<close>

definition pvcq_upthread_yield :: "int \<Rightarrow> pvcq \<Rightarrow> int outcome option" where
  "pvcq_upthread_yield me s =
     (if ss_yield s then do {
        v \<leftarrow> vc_get me s;
        Some (if vc_tqsize v = 0 then Return 0 else Yield_then 1)
      }
      else Some (Yield_then 1))"

definition pvcq_pth_yield_cb ::
  "(upthread_t \<Rightarrow> pvcq \<Rightarrow> pvcq option) \<Rightarrow> upthread_t \<Rightarrow> pvcq \<Rightarrow> pvcq option" where
  "pvcq_pth_yield_cb ur t s = do {
     s \<leftarrow> pvcq_generic_yield t s;
     s \<leftarrow> set_state t UPTH_BLK_YIELDING s;
     ur t s
   }"

definition pvcq_upthread_detach :: "upthread_t \<Rightarrow> pvcq \<Rightarrow> (int \<times> pvcq) option" where
  "pvcq_upthread_detach t s = do {
     s \<leftarrow> tcb_upd t (\<lambda>p. p\<lparr>tcb_detached := True\<rparr>) s;
     Some (0, s)
   }"

definition pvcq_upthread_tid :: "upthread_t \<Rightarrow> pvcq \<Rightarrow> (32 word) option" where
  "pvcq_upthread_tid current_uthread s = map_option tcb_id (tcbs s current_uthread)"

end
