(* ===== verification/Pvcq_Inv.thy ===== *)
theory Pvcq_Inv
  imports Pvcq_Threads Join_State
begin

text \<open>
  The invariant of the per-vcore queues and what every queue operation does to it. The control
  blocks in the zombie list are memory, not threads: the invariant and the views of
  \<^verbatim>\<open>Join_State\<close> are about the live ones.
\<close>

section \<open>The invariant\<close>

definition pvcq_live :: "pvcq \<Rightarrow> pvcq" where
  "pvcq_live s = s\<lparr>tcbs := tcbs s |` (- set (zombie_list s))\<rparr>"

lemma pvcq_live_tcbs: "tcbs (pvcq_live s) = tcbs s |` (- set (zombie_list s))"
  by (simp add: pvcq_live_def)

definition vc_wf :: "vc_mgmt \<Rightarrow> bool" where
  "vc_wf v \<longleftrightarrow> vc_tqsize v = int (length (vc_tqueue v))"

definition queues_ok :: "pvcq \<Rightarrow> bool" where
  "queues_ok s \<longleftrightarrow>
     0 < nr_vcores s \<and> nr_vcores s \<le> max_vcores s \<and> max_vcores s \<le> INT_MAX \<and>
     0 \<le> next_queue_id s \<and> next_queue_id s < nr_vcores s \<and>
     (\<forall>v \<in> set (vc_mgmts s). vc_wf v)"

text \<open>\<open>H\<close> is the set of threads a vcore has taken off a queue and not yet put anywhere.\<close>

definition pvcq_inv :: "upthread_t set \<Rightarrow> pvcq \<Rightarrow> bool" where
  "pvcq_inv H s \<longleftrightarrow>
     queues_ok s \<and> distinct (pvcq_queued s) \<and> H \<inter> pvcq_links s = {} \<and>
     (\<forall>t. t \<in> pvcq_links s \<union> H \<longleftrightarrow> state_of (pvcq_live s) t = Some UPTH_RUNNABLE) \<and>
     (\<forall>t p. tcbs (pvcq_live s) t = Some p \<longrightarrow> tcb_state p \<noteq> UPTH_CREATED \<longrightarrow>
        0 \<le> tcb_preferred_vcq p \<and> tcb_preferred_vcq p < max_vcores s) \<and>
     distinct (zombie_list s) \<and> (\<forall>z \<in> set (zombie_list s). tcbs s z \<noteq> None)"

section \<open>Array accesses\<close>

lemma vc_get_Some: "vc_get i s = Some v \<longleftrightarrow> 0 \<le> i \<and> i < max_vcores s \<and> v = vc_mgmts s ! nat i"
  by (auto simp: vc_get_def)

lemma vc_get_defined: "0 \<le> i \<Longrightarrow> i < max_vcores s \<Longrightarrow> \<exists>v. vc_get i s = Some v"
  by (simp add: vc_get_def)

lemma vc_get_in: "vc_get i s = Some v \<Longrightarrow> v \<in> set (vc_mgmts s)"
  by (auto simp: vc_get_def max_vcores_def split: if_splits)

lemma vc_put_simps [simp]:
  "tcbs (vc_put i v s) = tcbs s" "zombie_list (vc_put i v s) = zombie_list s"
  "nr_vcores (vc_put i v s) = nr_vcores s" "next_queue_id (vc_put i v s) = next_queue_id s"
  "can_steal (vc_put i v s) = can_steal s" "can_adjust_vcores (vc_put i v s) = can_adjust_vcores s"
  "max_vcores (vc_put i v s) = max_vcores s" "u_data (vc_put i v s) = u_data s"
  "calls (vc_put i v s) = calls s"
  by (simp_all add: vc_put_def max_vcores_def)

lemma pvcq_upd_simps [simp]:
  "vc_mgmts (ext c s) = vc_mgmts s" "zombie_list (ext c s) = zombie_list s"
  "nr_vcores (ext c s) = nr_vcores s" "next_queue_id (ext c s) = next_queue_id s"
  "can_steal (ext c s) = can_steal s" "max_vcores (ext c s) = max_vcores s"
  "max_vcores (s\<lparr>tcbs := f\<rparr>) = max_vcores s" "max_vcores (s\<lparr>next_queue_id := n\<rparr>) = max_vcores s"
  "max_vcores (s\<lparr>zombie_list := z\<rparr>) = max_vcores s"
  "pvcq_queued (ext c s) = pvcq_queued s" "pvcq_queued (s\<lparr>tcbs := f\<rparr>) = pvcq_queued s"
  "pvcq_queued (s\<lparr>next_queue_id := n\<rparr>) = pvcq_queued s"
  "pvcq_queued (s\<lparr>zombie_list := z\<rparr>) = pvcq_queued s"
  "vc_get i (ext c s) = vc_get i s" "vc_get i (s\<lparr>tcbs := f\<rparr>) = vc_get i s"
  "vc_get i (s\<lparr>next_queue_id := n\<rparr>) = vc_get i s"
  by (simp_all add: ext_def max_vcores_def pvcq_queued_def vc_get_def)

lemma pvcq_links_upd_simps [simp]:
  "pvcq_links (ext c s) = pvcq_links s" "pvcq_links (s\<lparr>tcbs := f\<rparr>) = pvcq_links s"
  "pvcq_links (s\<lparr>next_queue_id := n\<rparr>) = pvcq_links s"
  by (simp_all add: pvcq_links_def)

lemma mset_concat_update:
  "i < length xs \<Longrightarrow>
   mset (concat (map f (xs[i := x]))) + mset (f (xs ! i)) = mset (concat (map f xs)) + mset (f x)"
proof (induction xs arbitrary: i)
  case (Cons a xs)
  then show ?case by (cases i) (auto simp: ac_simps)
qed simp

text \<open>Replacing a queue: what the other queues and the whole hold afterwards.\<close>

lemma vc_put_queued:
  assumes "vc_get i s = Some v"
  shows "mset (pvcq_queued (vc_put i w s)) + mset (vc_tqueue v) =
         mset (pvcq_queued s) + mset (vc_tqueue w)"
  using assms mset_concat_update [of "nat i" "vc_mgmts s" vc_tqueue w]
  by (simp add: vc_get_Some pvcq_queued_def vc_put_def max_vcores_def nat_less_iff)

lemma vc_put_queues_ok:
  "queues_ok s \<Longrightarrow> vc_wf w \<Longrightarrow> queues_ok (vc_put i w s)"
  using set_update_subset_insert [of "vc_mgmts s" "nat i" w]
  by (auto simp: queues_ok_def vc_put_def max_vcores_def)

lemma vc_get_put:
  "vc_get i s = Some v \<Longrightarrow> vc_get j (vc_put i w s) = (if j = i then Some w else vc_get j s)"
  by (auto simp: vc_get_def vc_put_def max_vcores_def nat_eq_iff2 nth_list_update nat_less_iff)

lemma vc_queue_subset: "vc_get i s = Some v \<Longrightarrow> set (vc_tqueue v) \<subseteq> pvcq_links s"
  using vc_get_in by (fastforce simp: pvcq_links_def pvcq_queued_def)

section \<open>Changes that only move threads between queues\<close>

definition pvcq_same :: "pvcq \<Rightarrow> pvcq \<Rightarrow> bool" where
  "pvcq_same s s' \<longleftrightarrow>
     zombie_list s' = zombie_list s \<and> max_vcores s' = max_vcores s \<and> can_steal s' = can_steal s \<and>
     can_adjust_vcores s' = can_adjust_vcores s \<and> calls s' = calls s \<and> u_data s' = u_data s \<and>
     (\<forall>t. \<exists>v. tcbs s' t = map_option (\<lambda>p. p\<lparr>tcb_preferred_vcq := v\<rparr>) (tcbs s t))"

lemma preferred_refl [simp]: "\<exists>v. x = map_option (\<lambda>p. p\<lparr>tcb_preferred_vcq := v\<rparr>) x"
proof (cases x)
  case (Some p)
  then show ?thesis by (intro exI [of _ "tcb_preferred_vcq p"]) (cases p, simp)
qed simp

lemma pvcq_same_refl [simp]: "pvcq_same s s"
  by (simp add: pvcq_same_def)

lemma pvcq_same_trans:
  assumes "pvcq_same s s1" and "pvcq_same s1 s2"
  shows "pvcq_same s s2"
proof -
  have "\<exists>v. tcbs s2 t = map_option (\<lambda>p. p\<lparr>tcb_preferred_vcq := v\<rparr>) (tcbs s t)" for t
  proof -
    from assms obtain v1 v2 where "tcbs s1 t = map_option (\<lambda>p. p\<lparr>tcb_preferred_vcq := v1\<rparr>) (tcbs s t)"
      "tcbs s2 t = map_option (\<lambda>p. p\<lparr>tcb_preferred_vcq := v2\<rparr>) (tcbs s1 t)"
      unfolding pvcq_same_def by metis
    then have "tcbs s2 t = map_option (\<lambda>p. p\<lparr>tcb_preferred_vcq := v2\<rparr>) (tcbs s t)"
      by (cases "tcbs s t") simp_all
    then show ?thesis by blast
  qed
  with assms show ?thesis by (simp add: pvcq_same_def)
qed

lemma pvcq_same_views:
  assumes "pvcq_same s s'"
  shows "state_of (pvcq_live s') = state_of (pvcq_live s)"
    and "joiner_of (pvcq_live s') = joiner_of (pvcq_live s)"
    and "detached_threads (pvcq_live s') = detached_threads (pvcq_live s)"
    and "tcbs s' t = None \<longleftrightarrow> tcbs s t = None"
proof -
  have z: "zombie_list s' = zombie_list s" using assms by (simp add: pvcq_same_def)
  have v: "\<exists>v. tcbs s' t = map_option (\<lambda>p. p\<lparr>tcb_preferred_vcq := v\<rparr>) (tcbs s t)" for t
    using assms by (simp add: pvcq_same_def)
  have l: "\<exists>v. tcbs (pvcq_live s') t = map_option (\<lambda>p. p\<lparr>tcb_preferred_vcq := v\<rparr>) (tcbs (pvcq_live s) t)" for t
    using v [of t] by (auto simp: pvcq_live_tcbs z restrict_map_def)
  show "state_of (pvcq_live s') = state_of (pvcq_live s)"
  proof
    fix t show "state_of (pvcq_live s') t = state_of (pvcq_live s) t"
      using l [of t] by (cases "tcbs (pvcq_live s) t") (auto simp: state_of_def)
  qed
  show "joiner_of (pvcq_live s') = joiner_of (pvcq_live s)"
  proof
    fix t show "joiner_of (pvcq_live s') t = joiner_of (pvcq_live s) t"
      using l [of t] by (cases "tcbs (pvcq_live s) t") (auto simp: joiner_of_def)
  qed
  have "t \<in> detached_threads (pvcq_live s') \<longleftrightarrow> t \<in> detached_threads (pvcq_live s)" for t
    using l [of t] by (cases "tcbs (pvcq_live s) t") (auto simp: detached_threads_def)
  then show "detached_threads (pvcq_live s') = detached_threads (pvcq_live s)" by blast
  show "tcbs s' t = None \<longleftrightarrow> tcbs s t = None" using v [of t] by auto
qed

lemma pvcq_same_put [simp]: "pvcq_same s (vc_put i w s)"
  by (simp add: pvcq_same_def)

lemma pvcq_same_preferred:
  "tcbs s t = Some p \<Longrightarrow> tcbs s' = (tcbs s)(t \<mapsto> p\<lparr>tcb_preferred_vcq := v\<rparr>) \<Longrightarrow>
   zombie_list s' = zombie_list s \<Longrightarrow> max_vcores s' = max_vcores s \<Longrightarrow> can_steal s' = can_steal s \<Longrightarrow>
   can_adjust_vcores s' = can_adjust_vcores s \<Longrightarrow> calls s' = calls s \<Longrightarrow> u_data s' = u_data s \<Longrightarrow>
   pvcq_same s s'"
  by (auto simp: pvcq_same_def)

section \<open>Taking a thread off a queue\<close>

lemma pvcq_runnable_tcb:
  assumes "pvcq_inv H s" and "t \<in> pvcq_links s \<union> H"
  obtains p where "tcbs s t = Some p" and "tcbs (pvcq_live s) t = Some p"
    and "tcb_state p = UPTH_RUNNABLE" and "t \<notin> set (zombie_list s)"
proof -
  from assms have "state_of (pvcq_live s) t = Some UPTH_RUNNABLE" by (simp add: pvcq_inv_def)
  then obtain p where "tcbs (pvcq_live s) t = Some p" "tcb_state p = UPTH_RUNNABLE"
    by (auto simp: state_of_def)
  with that show thesis by (auto simp: pvcq_live_tcbs restrict_map_def split: if_splits)
qed

lemma tdequeue_spec:
  assumes inv: "pvcq_inv H s" and me: "0 \<le> me" "me < max_vcores s" and i: "vc_get i s = Some v"
  shows "(vc_tqueue v = [] \<and> tdequeue me i s = Some (None, s)) \<or>
    (\<exists>t q s'. vc_tqueue v = t # q \<and> tdequeue me i s = Some (Some t, s') \<and> pvcq_same s s' \<and>
       t \<notin> H \<and> pvcq_inv (insert t H) s' \<and>
       mset (pvcq_queued s) = add_mset t (mset (pvcq_queued s')))"
proof (cases "vc_tqueue v")
  case Nil
  have "vc_wf v" using inv i vc_get_in [OF i] by (simp add: pvcq_inv_def queues_ok_def)
  with Nil i show ?thesis by (simp add: tdequeue_def vc_wf_def)
next
  case (Cons t q)
  have wf: "vc_wf v" using inv i vc_get_in [OF i] by (simp add: pvcq_inv_def queues_ok_def)
  have t: "t \<in> pvcq_links s" using vc_queue_subset [OF i] Cons by auto
  with inv obtain p where p: "tcbs s t = Some p" "tcbs (pvcq_live s) t = Some p"
    "tcb_state p = UPTH_RUNNABLE" "t \<notin> set (zombie_list s)" by (elim pvcq_runnable_tcb) blast+
  let ?v = "v\<lparr>vc_tqueue := q, vc_tqsize := vc_tqsize v - 1\<rparr>"
  let ?s1 = "vc_put i ?v s"
  let ?s = "?s1\<lparr>tcbs := (tcbs ?s1)(t \<mapsto> p\<lparr>tcb_preferred_vcq := me\<rparr>)\<rparr>"
  have eq: "tdequeue me i s = Some (Some t, ?s)"
    using i Cons wf p(1) by (simp add: tdequeue_def vc_wf_def)
  have wf': "vc_wf ?v" using wf Cons by (simp add: vc_wf_def)
  have same: "pvcq_same s ?s" by (rule pvcq_same_preferred [OF p(1)]) simp_all
  have ms: "mset (pvcq_queued s) = add_mset t (mset (pvcq_queued ?s1))"
    using vc_put_queued [OF i, of ?v] Cons by simp
  have th: "t \<notin> H" using inv t by (auto simp: pvcq_inv_def)
  have links: "pvcq_links s = insert t (pvcq_links ?s1)"
    using arg_cong [OF ms, of set_mset] by (simp add: pvcq_links_def)
  have d: "distinct (pvcq_queued s) = distinct (t # pvcq_queued ?s1)"
    by (rule mset_eq_imp_distinct_iff) (simp add: ms)
  then have dist: "distinct (pvcq_queued ?s1)" "t \<notin> pvcq_links ?s1"
    using inv by (simp_all add: pvcq_inv_def pvcq_links_def)
  have live: "tcbs (pvcq_live ?s) = (tcbs (pvcq_live s))(t \<mapsto> p\<lparr>tcb_preferred_vcq := me\<rparr>)"
    using p(4) by (auto simp: pvcq_live_tcbs restrict_map_def fun_eq_iff)
  have "queues_ok ?s" using inv vc_put_queues_ok [OF _ wf', of s i]
    by (simp add: pvcq_inv_def queues_ok_def vc_put_def max_vcores_def)
  moreover have "state_of (pvcq_live ?s) = state_of (pvcq_live s)" by (rule pvcq_same_views(1) [OF same])
  ultimately have "pvcq_inv (insert t H) ?s"
    using inv dist links me th p(2) unfolding pvcq_inv_def live by auto
  with eq same ms th Cons show ?thesis by (intro disjI2 exI [of _ t] exI [of _ q] exI [of _ ?s]) simp
qed

section \<open>Putting a thread on a queue\<close>

lemma next_queue_basic:
  assumes "queues_ok s"
  shows "\<exists>s'. get_next_queue_id_basic (\<lambda>_ s. s) (Suc fuel) k s = Some (next_queue_id s, s') \<and>
    s' = s\<lparr>next_queue_id := (if next_queue_id s + 1 = nr_vcores s then 0 else next_queue_id s + 1)\<rparr>"
  using assms by (simp add: next_queue_pass_def int_inc_def queues_ok_def)

text \<open>The part of the enqueue after the queue has been chosen.\<close>

lemma enqueue_put:
  assumes ok: "queues_ok s" and t: "t \<notin> pvcq_links s" and i: "vc_get i s = Some v"
    and w: "w = v\<lparr>vc_tqueue := (if a then t # vc_tqueue v else vc_tqueue v @ [t]),
                 vc_tqsize := vc_tqsize v + 1\<rparr>"
  shows "queues_ok (vc_put i w s)" and
    "mset (pvcq_queued (vc_put i w s)) = add_mset t (mset (pvcq_queued s))"
proof -
  have "vc_wf v" using ok vc_get_in [OF i] by (simp add: queues_ok_def)
  then have "vc_wf w" by (simp add: w vc_wf_def)
  with ok show "queues_ok (vc_put i w s)" by (rule vc_put_queues_ok)
  show "mset (pvcq_queued (vc_put i w s)) = add_mset t (mset (pvcq_queued s))"
    using vc_put_queued [OF i, of w] by (simp add: w split: if_splits)
qed

definition enqueued :: "upthread_t \<Rightarrow> bool \<Rightarrow> upthread_tcb \<Rightarrow> int \<Rightarrow> pvcq \<Rightarrow> pvcq \<Rightarrow> bool" where
  "enqueued t a p i s s' \<longleftrightarrow>
     0 \<le> i \<and> i < max_vcores s \<and>
     tcbs s' = (tcbs s)(t \<mapsto> p\<lparr>tcb_state := UPTH_RUNNABLE, tcb_preferred_vcq := i\<rparr>) \<and>
     mset (pvcq_queued s') = add_mset t (mset (pvcq_queued s)) \<and> queues_ok s' \<and>
     zombie_list s' = zombie_list s \<and> max_vcores s' = max_vcores s \<and> can_steal s' = can_steal s \<and>
     can_adjust_vcores s' = can_adjust_vcores s \<and> calls s' = calls s \<and> u_data s' = u_data s \<and>
     (\<forall>v. vc_get i s = Some v \<longrightarrow> (\<exists>w. vc_get i s' = Some w \<and>
        vc_tqueue w = (if a then t # vc_tqueue v else vc_tqueue v @ [t]))) \<and>
     (tcb_state p = UPTH_CREATED \<longrightarrow> i = next_queue_id s) \<and>
     (tcb_state p \<noteq> UPTH_CREATED \<longrightarrow> i = tcb_preferred_vcq p)"

lemma enqueue_eq:
  assumes ok: "queues_ok s" and p: "tcbs s t = Some p" and t: "t \<notin> pvcq_links s"
    and pref: "tcb_state p \<noteq> UPTH_CREATED \<Longrightarrow> 0 \<le> tcb_preferred_vcq p \<and> tcb_preferred_vcq p < max_vcores s"
  shows "\<exists>i s'. pvcq_enqueue t a s = Some (i, s') \<and> enqueued t a p i s s'"
proof (cases "tcb_state p = UPTH_CREATED")
  case True
  let ?n = "if next_queue_id s + 1 = nr_vcores s then 0 else next_queue_id s + 1"
  let ?i = "next_queue_id s"
  let ?s = "s\<lparr>next_queue_id := ?n,
              tcbs := (tcbs s)(t \<mapsto> p\<lparr>tcb_state := UPTH_RUNNABLE, tcb_preferred_vcq := ?i\<rparr>)\<rparr>"
  have ok': "queues_ok ?s" using ok by (auto simp: queues_ok_def max_vcores_def)
  from ok obtain v where v: "vc_get ?i s = Some v"
    using vc_get_defined [of ?i s] by (auto simp: queues_ok_def)
  let ?w = "v\<lparr>vc_tqueue := (if a then t # vc_tqueue v else vc_tqueue v @ [t]), vc_tqsize := vc_tqsize v + 1\<rparr>"
  have v': "vc_get ?i ?s = Some v" using v by (simp add: vc_get_def max_vcores_def split: if_splits)
  have links: "t \<notin> pvcq_links ?s" using t by simp
  have rng: "0 \<le> ?i" "?i < max_vcores s" using ok by (auto simp: queues_ok_def)
  note put = enqueue_put [OF ok' links v' refl, of a]
  have next_id: "get_next_queue_id_basic (\<lambda>_ s. s) 1 0
      (s\<lparr>tcbs := (tcbs s)(t \<mapsto> p\<lparr>tcb_state := UPTH_RUNNABLE\<rparr>)\<rparr>) =
      Some (?i, s\<lparr>tcbs := (tcbs s)(t \<mapsto> p\<lparr>tcb_state := UPTH_RUNNABLE\<rparr>), next_queue_id := ?n\<rparr>)"
    using ok by (simp add: next_queue_pass_def int_inc_def queues_ok_def)
  have "pvcq_enqueue t a s = Some (?i, vc_put ?i ?w ?s)"
    using p True t next_id v
    by (simp add: pvcq_enqueue_def Let_def del: get_next_queue_id_basic.simps)
  moreover have "enqueued t a p ?i s (vc_put ?i ?w ?s)"
    using put v rng True vc_get_put [OF v', of ?i ?w] by (simp add: enqueued_def)
  ultimately show ?thesis by blast
next
  case False
  let ?i = "tcb_preferred_vcq p"
  let ?s = "s\<lparr>tcbs := (tcbs s)(t \<mapsto> p\<lparr>tcb_state := UPTH_RUNNABLE\<rparr>)\<rparr>"
  have ok': "queues_ok ?s" using ok by (simp add: queues_ok_def max_vcores_def)
  from pref [OF False] obtain v where v: "vc_get ?i s = Some v" using vc_get_defined by blast
  let ?w = "v\<lparr>vc_tqueue := (if a then t # vc_tqueue v else vc_tqueue v @ [t]), vc_tqsize := vc_tqsize v + 1\<rparr>"
  have v': "vc_get ?i ?s = Some v" using v by simp
  have links: "t \<notin> pvcq_links ?s" using t by simp
  note put = enqueue_put [OF ok' links v' refl, of a]
  have "pvcq_enqueue t a s = Some (?i, vc_put ?i ?w ?s)"
    using p False t v' by (simp add: pvcq_enqueue_def Let_def)
  moreover have "p\<lparr>tcb_state := UPTH_RUNNABLE, tcb_preferred_vcq := ?i\<rparr> = p\<lparr>tcb_state := UPTH_RUNNABLE\<rparr>"
    by (cases p) simp
  then have "enqueued t a p ?i s (vc_put ?i ?w ?s)"
    using put v pref [OF False] False vc_get_put [OF v', of ?i ?w] by (simp add: enqueued_def)
  ultimately show ?thesis by blast
qed

text \<open>A live thread that is on no queue, and is not marked runnable unless it is in hand, becomes a
  queued thread.\<close>

lemma enqueue_inv:
  assumes inv: "pvcq_inv H s" and e: "enqueued t a p i s s'" and p: "tcbs (pvcq_live s) t = Some p"
    and t: "t \<notin> pvcq_links s" and st: "t \<in> H \<or> tcb_state p \<noteq> UPTH_RUNNABLE"
  shows "pvcq_inv (H - {t}) s'"
    and "tcbs (pvcq_live s') = (tcbs (pvcq_live s))(t \<mapsto> p\<lparr>tcb_state := UPTH_RUNNABLE, tcb_preferred_vcq := i\<rparr>)"
proof -
  have tz: "t \<notin> set (zombie_list s)" and raw: "tcbs s t = Some p"
    using p by (auto simp: pvcq_live_tcbs restrict_map_def split: if_splits)
  show live: "tcbs (pvcq_live s') =
      (tcbs (pvcq_live s))(t \<mapsto> p\<lparr>tcb_state := UPTH_RUNNABLE, tcb_preferred_vcq := i\<rparr>)"
    using e tz by (auto simp: enqueued_def pvcq_live_tcbs restrict_map_def fun_eq_iff)
  have ms: "mset (pvcq_queued s') = add_mset t (mset (pvcq_queued s))"
    using e by (simp add: enqueued_def)
  have links: "pvcq_links s' = insert t (pvcq_links s)"
    using arg_cong [OF ms, of set_mset] by (simp add: pvcq_links_def)
  have "distinct (pvcq_queued s') = distinct (t # pvcq_queued s)"
    by (rule mset_eq_imp_distinct_iff) (simp add: ms)
  then have dist: "distinct (pvcq_queued s')" using inv t by (simp add: pvcq_inv_def pvcq_links_def)
  have states: "state_of (pvcq_live s') x = (if x = t then Some UPTH_RUNNABLE else state_of (pvcq_live s) x)" for x
    by (simp add: state_of_def live)
  have run: "x \<in> pvcq_links s' \<union> (H - {t}) \<longleftrightarrow> state_of (pvcq_live s') x = Some UPTH_RUNNABLE" for x
    using inv by (cases "x = t") (auto simp: states links pvcq_inv_def)
  have z: "zombie_list s' = zombie_list s" "max_vcores s' = max_vcores s" "0 \<le> i" "i < max_vcores s"
    "queues_ok s'" using e by (simp_all add: enqueued_def)
  have "\<forall>x q. tcbs (pvcq_live s') x = Some q \<longrightarrow> tcb_state q \<noteq> UPTH_CREATED \<longrightarrow>
      0 \<le> tcb_preferred_vcq q \<and> tcb_preferred_vcq q < max_vcores s'"
    using inv z by (auto simp: live pvcq_inv_def)
  moreover have "\<forall>x \<in> set (zombie_list s'). tcbs s' x \<noteq> None"
    using inv e z by (auto simp: enqueued_def pvcq_inv_def)
  moreover have "(H - {t}) \<inter> pvcq_links s' = {}" using inv by (auto simp: links pvcq_inv_def)
  ultimately show "pvcq_inv (H - {t}) s'"
    using dist run z inv by (simp add: pvcq_inv_def)
qed

lemma enqueue_in_hand:
  assumes inv: "pvcq_inv (insert t H) s" and "t \<notin> H"
  shows "\<exists>i s'. pvcq_enqueue t a s = Some (i, s') \<and> pvcq_inv H s' \<and> pvcq_same s s' \<and>
           mset (pvcq_queued s') = add_mset t (mset (pvcq_queued s))"
proof -
  from inv have "t \<in> pvcq_links s \<union> insert t H" by simp
  with inv obtain p where p: "tcbs s t = Some p" "tcbs (pvcq_live s) t = Some p"
    "tcb_state p = UPTH_RUNNABLE" "t \<notin> set (zombie_list s)" by (elim pvcq_runnable_tcb) blast+
  have t: "t \<notin> pvcq_links s" and ok: "queues_ok s" using inv by (auto simp: pvcq_inv_def)
  have pref: "0 \<le> tcb_preferred_vcq p \<and> tcb_preferred_vcq p < max_vcores s"
    using inv p by (auto simp: pvcq_inv_def)
  from enqueue_eq [OF ok p(1) t, of a] pref obtain i s' where e: "pvcq_enqueue t a s = Some (i, s')"
    "enqueued t a p i s s'" by blast
  have "pvcq_inv (insert t H - {t}) s'" by (rule enqueue_inv(1) [OF inv e(2) p(2) t]) simp
  moreover have "insert t H - {t} = H" using assms(2) by auto
  moreover have "p\<lparr>tcb_state := UPTH_RUNNABLE, tcb_preferred_vcq := i\<rparr> = p\<lparr>tcb_preferred_vcq := i\<rparr>"
    using p(3) by (cases p) simp
  then have "pvcq_same s s'" using e(2) by (intro pvcq_same_preferred [OF p(1)]) (simp_all add: enqueued_def)
  ultimately show ?thesis using e by (auto simp: enqueued_def)
qed

section \<open>Stealing\<close>

lemma sdiv_pos: "0 \<le> n \<Longrightarrow> (n :: int) sdiv 2 = n div 2"
  by (cases "n = 0") (simp_all add: signed_divide_int_def)

lemma pvcq_same_max: "pvcq_same s s' \<Longrightarrow> max_vcores s' = max_vcores s"
  by (simp add: pvcq_same_def)

lemma steal_loop_spec:
  assumes "pvcq_inv H s" and "0 \<le> me" "me < max_vcores s" and "0 \<le> i" "i < max_vcores s"
  shows "\<exists>s'. steal_loop me i n s = Some s' \<and> pvcq_inv H s' \<and> pvcq_same s s' \<and>
           mset (pvcq_queued s') = mset (pvcq_queued s)"
  using assms
proof (induction n arbitrary: s)
  case 0
  then show ?case by simp
next
  case (Suc n)
  from Suc.prems obtain v where v: "vc_get i s = Some v" using vc_get_defined by blast
  from tdequeue_spec [OF Suc.prems(1-3) v] show ?case
  proof (elim disjE exE conjE)
    assume "tdequeue me i s = Some (None, s)"
    with Suc.prems show ?thesis by auto
  next
    fix t q s1
    assume t: "tdequeue me i s = Some (Some t, s1)" "pvcq_same s s1" "t \<notin> H" "pvcq_inv (insert t H) s1"
      "mset (pvcq_queued s) = add_mset t (mset (pvcq_queued s1))"
    from enqueue_in_hand [OF t(4,3), of False] obtain j s2 where s2:
      "pvcq_enqueue t False s1 = Some (j, s2)" "pvcq_inv H s2" "pvcq_same s1 s2"
      "mset (pvcq_queued s2) = add_mset t (mset (pvcq_queued s1))" by blast
    have m: "max_vcores s2 = max_vcores s" using pvcq_same_max t(2) s2(3) by simp
    from Suc.IH [OF s2(2)] Suc.prems m obtain s3 where
      "steal_loop me i n s2 = Some s3" "pvcq_inv H s3" "pvcq_same s2 s3"
      "mset (pvcq_queued s3) = mset (pvcq_queued s2)" by auto
    moreover have "pvcq_same s s3"
      using pvcq_same_trans [OF pvcq_same_trans [OF t(2) s2(3)] calculation(3)] .
    ultimately show ?thesis using t s2 by simp
  qed
qed

definition stole :: "upthread_t set \<Rightarrow> pvcq \<Rightarrow> upthread_t option \<Rightarrow> pvcq \<Rightarrow> bool" where
  "stole H s r s' \<longleftrightarrow> pvcq_same s s' \<and>
     (case r of
        None \<Rightarrow> pvcq_inv H s' \<and> pvcq_queued s' = pvcq_queued s
      | Some t \<Rightarrow> t \<notin> H \<and> pvcq_inv (insert t H) s' \<and>
          mset (pvcq_queued s) = add_mset t (mset (pvcq_queued s')))"

lemma steal_threads_spec:
  assumes inv: "pvcq_inv H s" and me: "0 \<le> me" "me < max_vcores s" and i: "vc_get i s = Some v"
  shows "(vc_tqueue v = [] \<and> steal_threads me i s = Some (None, s)) \<or>
         (\<exists>t s'. vc_tqueue v \<noteq> [] \<and> steal_threads me i s = Some (Some t, s') \<and> stole H s (Some t) s')"
proof -
  have wf: "vc_tqsize v = int (length (vc_tqueue v))"
    using inv vc_get_in [OF i] by (simp add: pvcq_inv_def queues_ok_def vc_wf_def)
  have i': "0 \<le> i" "i < max_vcores s" using i by (simp_all add: vc_get_Some)
  from tdequeue_spec [OF inv me i] show ?thesis
  proof (elim disjE exE conjE)
    assume "vc_tqueue v = []" "tdequeue me i s = Some (None, s)"
    with wf i show ?thesis by (simp add: steal_threads_def sdiv_pos)
  next
    fix t q s1
    assume t: "vc_tqueue v = t # q" "tdequeue me i s = Some (Some t, s1)" "pvcq_same s s1" "t \<notin> H"
      "pvcq_inv (insert t H) s1" "mset (pvcq_queued s) = add_mset t (mset (pvcq_queued s1))"
    let ?n = "(vc_tqsize v + 1) sdiv 2"
    have n: "?n \<noteq> 0" using wf t(1) by (simp add: sdiv_pos)
    have m: "max_vcores s1 = max_vcores s" by (rule pvcq_same_max [OF t(3)])
    from steal_loop_spec [OF t(5), of me i "nat (?n - 1)"] me i' m obtain s2 where
      s2: "steal_loop me i (nat (?n - 1)) s1 = Some s2" "pvcq_inv (insert t H) s2" "pvcq_same s1 s2"
      "mset (pvcq_queued s2) = mset (pvcq_queued s1)" by auto
    have "steal_threads me i s = Some (Some t, s2)"
      using i n t(2) s2(1) by (simp add: steal_threads_def)
    moreover have "stole H s (Some t) s2"
      using t s2 pvcq_same_trans [OF t(3) s2(3)] by (simp add: stole_def)
    ultimately show ?thesis using t(1) by simp
  qed
qed

end
