(* ===== verification/Pvcq_Steal.thy ===== *)
theory Pvcq_Steal
  imports Pvcq_Inv
begin

text \<open>
  Work stealing: the random choices, the scan over all vcores, and what a call of
  \<open>__pth_thread_dequeue\<close> guarantees as a whole.
\<close>

section \<open>Random choices\<close>

lemma pvcq_inv_cong:
  assumes "tcbs s' = tcbs s" and "zombie_list s' = zombie_list s" and "pvcq_queued s' = pvcq_queued s"
    and "max_vcores s' = max_vcores s" and "queues_ok s' = queues_ok s"
  shows "pvcq_inv H s' = pvcq_inv H s"
proof -
  have "tcbs (pvcq_live s') = tcbs (pvcq_live s)" using assms by (simp add: pvcq_live_tcbs)
  moreover from this have "state_of (pvcq_live s') = state_of (pvcq_live s)"
    by (simp add: state_of_def fun_eq_iff)
  ultimately show ?thesis using assms by (simp add: pvcq_inv_def pvcq_links_def)
qed

lemma smod_pos: "0 \<le> r \<Longrightarrow> 0 < n \<Longrightarrow> (r :: int) smod n = r mod n"
  by (cases "r = 0") (simp_all add: signed_modulo_int_def)

lemma vc_put_same_queue:
  assumes i: "vc_get i s = Some v" and w: "vc_tqueue w = vc_tqueue v"
  shows "pvcq_queued (vc_put i w s) = pvcq_queued s"
proof -
  have "map vc_tqueue (vc_mgmts (vc_put i w s)) = map vc_tqueue (vc_mgmts s)"
    using i w by (auto simp: vc_get_Some vc_put_def max_vcores_def map_update list_update_same_conv
        nat_less_iff)
  then show ?thesis by (simp add: pvcq_queued_def)
qed

lemma rand_vcore_spec:
  assumes inv: "pvcq_inv H s" and i: "0 \<le> i" "i < max_vcores s" and n: "0 < n"
    and rnd: "\<forall>x. 0 \<le> fst (rand_r x)"
  shows "\<exists>c s'. rand_vcore rand_r n i s = Some (c, s') \<and> 0 \<le> c \<and> c < n \<and> pvcq_same s s' \<and>
           pvcq_inv H s' \<and> pvcq_queued s' = pvcq_queued s \<and>
           (\<forall>j v. vc_get j s = Some v \<longrightarrow> (\<exists>v'. vc_get j s' = Some v' \<and> vc_tqueue v' = vc_tqueue v))"
proof -
  from i obtain v where v: "vc_get i s = Some v" using vc_get_defined by blast
  obtain r seed where r: "rand_r (vc_rseed v) = (r, seed)" by force
  let ?w = "v\<lparr>vc_rseed := seed\<rparr>"
  have c: "r smod n = r mod n" "0 \<le> r mod n" "r mod n < n"
    using rnd [rule_format, of "vc_rseed v"] r n by (simp_all add: smod_pos)
  have q: "pvcq_queued (vc_put i ?w s) = pvcq_queued s" by (rule vc_put_same_queue [OF v]) simp
  have "vc_wf ?w" using inv vc_get_in [OF v] by (simp add: pvcq_inv_def queues_ok_def vc_wf_def)
  moreover have "queues_ok s" using inv by (simp add: pvcq_inv_def)
  ultimately have "queues_ok (vc_put i ?w s)" by (intro vc_put_queues_ok)
  then have "pvcq_inv H (vc_put i ?w s)"
    using pvcq_inv_cong [of "vc_put i ?w s" s H] q inv by (simp add: pvcq_inv_def)
  moreover have "rand_vcore rand_r n i s = Some (r mod n, vc_put i ?w s)"
    using v r n c(1) by (simp add: rand_vcore_def)
  ultimately show ?thesis using c q by (auto simp: vc_get_put [OF v] v)
qed

section \<open>The scan\<close>

lemma mod_pred: "0 < m \<Longrightarrow> (x :: int) mod m \<noteq> 0 \<Longrightarrow> (x - 1) mod m = x mod m - 1"
proof -
  assume m: "0 < m" "x mod m \<noteq> 0"
  from m(1) have "0 \<le> x mod m" "x mod m < m" by simp_all
  with m(2) have "(x mod m - 1) mod m = x mod m - 1" by (intro mod_pos_pos_trivial) linarith+
  then show ?thesis by (simp add: mod_diff_left_eq)
qed

lemma mod_diff_0D:
  assumes "0 \<le> a" "a < (m :: int)" and "0 \<le> b" "b < m" and "(a - b) mod m = 0"
  shows "a = b"
proof -
  have "a mod m = b mod m" using assms(5) by (simp add: mod_eq_dvd_iff dvd_eq_mod_eq_0)
  with assms show ?thesis by simp
qed

lemma steal_scan_spec:
  assumes "pvcq_inv H s" and "0 \<le> me" "me < max_vcores s" and "0 \<le> i" "i < max_vcores s"
    and "(me - i) mod max_vcores s < int fuel"
  shows "\<exists>r s'. steal_scan me fuel i s = Some (r, s') \<and> stole H s r s' \<and>
    (r = None \<longrightarrow> s' = s \<and> (\<forall>j v. vc_get j s = Some v \<longrightarrow>
       (j - i) mod max_vcores s < (me - i) mod max_vcores s \<longrightarrow> vc_tqueue v = []))"
  using assms(4-)
proof (induction fuel arbitrary: i)
  case 0
  have "0 \<le> (me - i) mod max_vcores s" using assms(2,3) by (intro pos_mod_sign) linarith
  with 0 show ?case by simp
next
  case (Suc fuel)
  let ?m = "max_vcores s"
  have m: "0 < ?m" using assms(2,3) by linarith
  show ?case
  proof (cases "i = me")
    case True
    have "\<not> (j - me) mod ?m < 0" for j using m by (simp add: not_less)
    with True show ?thesis using assms(1) by (auto simp: stole_def)
  next
    case False
    from Suc.prems obtain v where v: "vc_get i s = Some v" using vc_get_defined by blast
    from steal_threads_spec [OF assms(1-3) v] show ?thesis
    proof (elim disjE exE conjE)
      fix t s'
      assume "vc_tqueue v \<noteq> []" "steal_threads me i s = Some (Some t, s')" "stole H s (Some t) s'"
      with False show ?thesis by (intro exI [of _ "Some t"] exI [of _ s']) simp
    next
      assume e: "vc_tqueue v = []" "steal_threads me i s = Some (None, s)"
      let ?i = "(i + 1) mod ?m"
      have ne: "(me - i) mod ?m \<noteq> 0"
      proof
        assume "(me - i) mod ?m = 0"
        from mod_diff_0D [OF assms(2,3) Suc.prems(1,2) this] False show False by simp
      qed
      have step: "(j - ?i) mod ?m = ((j - i) - 1) mod ?m" for j
        by (simp add: mod_diff_right_eq algebra_simps)
      have d: "(me - ?i) mod ?m = (me - i) mod ?m - 1" using mod_pred [OF m ne] step by simp
      with Suc.IH [of ?i] Suc.prems m obtain r s' where
        ih: "steal_scan me fuel ?i s = Some (r, s')" "stole H s r s'"
          "r = None \<longrightarrow> s' = s \<and> (\<forall>j v. vc_get j s = Some v \<longrightarrow>
             (j - ?i) mod ?m < (me - ?i) mod ?m \<longrightarrow> vc_tqueue v = [])"
        by auto
      have "vc_tqueue w = []" if "r = None" "vc_get j s = Some w" "(j - i) mod ?m < (me - i) mod ?m" for j w
      proof (cases "(j - i) mod ?m = 0")
        case True
        from that(2) have "0 \<le> j" "j < ?m" by (simp_all add: vc_get_Some)
        from mod_diff_0D [OF this Suc.prems(1,2) True] have "j = i" .
        with that(2) v e(1) show ?thesis by simp
      next
        case False
        then have "(j - ?i) mod ?m < (me - ?i) mod ?m" using mod_pred [OF m False] step that(3) d by simp
        with ih(3) that show ?thesis by blast
      qed
      with ih e(2) False show ?thesis by auto
    qed
  qed
qed

section \<open>The whole dequeue\<close>

text \<open>
  The result of a call: nothing was there, or the thread in hand. With stealing on, nothing means
  that every queue was empty; and a thread on the vcore's own queue is preferred, oldest first.
\<close>

lemma all_empty_queued:
  assumes "\<And>j v. vc_get j s = Some v \<Longrightarrow> vc_tqueue v = []"
  shows "pvcq_queued s = []"
proof -
  have "vc_tqueue v = []" if v: "v \<in> set (vc_mgmts s)" for v
  proof -
    from v obtain k where "k < length (vc_mgmts s)" "v = vc_mgmts s ! k" by (auto simp: in_set_conv_nth)
    with assms [of "int k"] show ?thesis by (simp add: vc_get_Some max_vcores_def)
  qed
  then show ?thesis by (simp add: pvcq_queued_def)
qed

lemma stole_after_same:
  assumes "stole H s1 r s2" and "pvcq_same s s1" and "pvcq_queued s1 = pvcq_queued s"
  shows "stole H s r s2"
  using assms pvcq_same_trans [of s s1 s2] by (auto simp: stole_def split: option.splits)

lemma steal_spec:
  assumes inv: "pvcq_inv H s" and me: "0 \<le> me" "me < max_vcores s" and b: "0 \<le> b" "b < max_vcores s"
    and own: "\<And>v. vc_get me s = Some v \<Longrightarrow> vc_tqueue v = []"
  shows "\<exists>r s'. (do {
      (u, s) \<leftarrow> steal_threads me b s;
      (case u of
         Some t \<Rightarrow> Some (Some t, s)
       | None \<Rightarrow> steal_scan me (length (vc_mgmts s)) ((me + 1) mod max_vcores s) s)
    }) = Some (r, s') \<and> stole H s r s' \<and> (r = None \<longrightarrow> pvcq_queued s = [])"
proof -
  let ?m = "max_vcores s"
  have m: "0 < ?m" using me by linarith
  from b obtain v where v: "vc_get b s = Some v" using vc_get_defined by blast
  from steal_threads_spec [OF inv me v] show ?thesis
  proof (elim disjE exE conjE)
    fix t s'
    assume "vc_tqueue v \<noteq> []" "steal_threads me b s = Some (Some t, s')" "stole H s (Some t) s'"
    then show ?thesis by (intro exI [of _ "Some t"] exI [of _ s']) simp
  next
    assume e: "steal_threads me b s = Some (None, s)"
    let ?i = "(me + 1) mod ?m"
    have step: "(j - ?i) mod ?m = ((j - me) - 1) mod ?m" for j
      by (simp add: mod_diff_right_eq algebra_simps)
    have "(me - ?i) mod ?m = (- 1) mod ?m" using step [of me] by simp
    also have "\<dots> = ?m - 1" using m by (simp add: zmod_minus1)
    finally have d: "(me - ?i) mod ?m = ?m - 1" .
    from steal_scan_spec [OF inv me, of ?i "length (vc_mgmts s)"] m d obtain r s' where
      r: "steal_scan me (length (vc_mgmts s)) ?i s = Some (r, s')" "stole H s r s'"
        "r = None \<longrightarrow> s' = s \<and> (\<forall>j v. vc_get j s = Some v \<longrightarrow> (j - ?i) mod ?m < ?m - 1 \<longrightarrow> vc_tqueue v = [])"
      by (auto simp: max_vcores_def)
    have "pvcq_queued s = []" if "r = None"
    proof (rule all_empty_queued)
      fix j w assume w: "vc_get j s = Some w"
      then have j: "0 \<le> j" "j < ?m" by (simp_all add: vc_get_Some)
      show "vc_tqueue w = []"
      proof (cases "j = me")
        case True
        with own w show ?thesis by simp
      next
        case False
        have "(j - me) mod ?m \<noteq> 0"
        proof
          assume "(j - me) mod ?m = 0"
          from mod_diff_0D [OF j me this] False show False by simp
        qed
        from mod_pred [OF m this] step have "(j - ?i) mod ?m = (j - me) mod ?m - 1" by simp
        moreover have "(j - me) mod ?m < ?m" using m by simp
        ultimately have "(j - ?i) mod ?m < ?m - 1" by linarith
        with r(3) that w show ?thesis by blast
      qed
    qed
    with r e show ?thesis by auto
  qed
qed

lemma pvcq_dequeue_spec:
  assumes inv: "pvcq_inv H s" and me: "0 \<le> me" "me < max_vcores s"
    and n: "0 < num_vcores" "num_vcores \<le> max_vcores s" and rnd: "\<forall>x. 0 \<le> fst (rand_r x)"
    and own: "vc_get me s = Some v"
  shows "\<exists>r s'. pvcq_dequeue rand_r num_vcores me s = Some (r, s') \<and> stole H s r s' \<and>
    (r = None \<longrightarrow> can_steal s \<longrightarrow> pvcq_queued s = []) \<and>
    (vc_tqueue v \<noteq> [] \<longrightarrow> r = Some (hd (vc_tqueue v)))"
  using tdequeue_spec [OF inv me own]
proof (elim disjE exE conjE)
  fix t q s'
  assume t: "vc_tqueue v = t # q" "tdequeue me me s = Some (Some t, s')" "pvcq_same s s'" "t \<notin> H"
    "pvcq_inv (insert t H) s'" "mset (pvcq_queued s) = add_mset t (mset (pvcq_queued s'))"
  then have "pvcq_dequeue rand_r num_vcores me s = Some (Some t, s')" by (simp add: pvcq_dequeue_def)
  with t show ?thesis by (simp add: stole_def)
next
  assume e: "vc_tqueue v = []" "tdequeue me me s = Some (None, s)"
  show ?thesis
  proof (cases "can_steal s")
    case False
    with e have "pvcq_dequeue rand_r num_vcores me s = Some (None, s)" by (simp add: pvcq_dequeue_def)
    with e inv False show ?thesis by (simp add: stole_def)
  next
    case True
    from rand_vcore_spec [OF inv me n(1) rnd] obtain c0 s1 where
      s1: "rand_vcore rand_r num_vcores me s = Some (c0, s1)" "0 \<le> c0" "c0 < num_vcores" "pvcq_same s s1"
        "pvcq_inv H s1" "pvcq_queued s1 = pvcq_queued s"
        "\<And>j v. vc_get j s = Some v \<Longrightarrow> \<exists>v'. vc_get j s1 = Some v' \<and> vc_tqueue v' = vc_tqueue v" by blast
    have m1: "max_vcores s1 = max_vcores s" by (rule pvcq_same_max [OF s1(4)])
    from rand_vcore_spec [OF s1(5), of me] me m1 n(1) rnd obtain c1 s2 where
      s2: "rand_vcore rand_r num_vcores me s1 = Some (c1, s2)" "0 \<le> c1" "c1 < num_vcores" "pvcq_same s1 s2"
        "pvcq_inv H s2" "pvcq_queued s2 = pvcq_queued s1"
        "\<And>j v. vc_get j s1 = Some v \<Longrightarrow> \<exists>v'. vc_get j s2 = Some v' \<and> vc_tqueue v' = vc_tqueue v"
      by (metis (no_types, lifting))
    have m2: "max_vcores s2 = max_vcores s" using pvcq_same_max [OF s2(4)] m1 by simp
    from s1(2,3) s2(2,3) n(2) m2 obtain v0 v1 where
      v: "vc_get c0 s2 = Some v0" "vc_get c1 s2 = Some v1"
      using vc_get_defined [of c0 s2] vc_get_defined [of c1 s2] by auto
    define best where "best = (if vc_tqsize v0 > vc_tqsize v1 then c0 else c1)"
    define other where "other = (if vc_tqsize v0 > vc_tqsize v1 then c1 else c0)"
    let ?b = "if me \<noteq> best then best else other"
    have b: "0 \<le> ?b" "?b < max_vcores s2"
      using s1(2,3) s2(2,3) n(2) m2 by (auto simp: best_def other_def)
    have own2: "vc_tqueue w = []" if "vc_get me s2 = Some w" for w
      using that s1(7) [OF own] s2(7) e(1) by fastforce
    from steal_spec [OF s2(5) _ _ b own2, of me] me m2 obtain r s' where
      r: "(do {
        (u, s) \<leftarrow> steal_threads me ?b s2;
        (case u of
           Some t \<Rightarrow> Some (Some t, s)
         | None \<Rightarrow> steal_scan me (length (vc_mgmts s)) ((me + 1) mod max_vcores s) s)
      }) = Some (r, s')" "stole H s2 r s'" "r = None \<longrightarrow> pvcq_queued s2 = []" by auto
    have "(if vc_tqsize v0 > vc_tqsize v1 then (c0, c1) else (c1, c0)) = (best, other)"
      by (simp add: best_def other_def)
    moreover have "(if me \<noteq> best then steal_threads me best s2 else steal_threads me other s2) =
        steal_threads me ?b s2" by simp
    ultimately have "pvcq_dequeue rand_r num_vcores me s = Some (r, s')"
      using True e(2) s1(1) s2(1) v r(1) by (simp add: pvcq_dequeue_def)
    moreover have "stole H s r s'"
      using stole_after_same [OF r(2)] pvcq_same_trans [OF s1(4) s2(4)] s1(6) s2(6) by simp
    ultimately show ?thesis using r(3) s1(6) s2(6) e(1) by auto
  qed
qed

end
