(* ===== verification/Pvcq_Ops.thy ===== *)
theory Pvcq_Ops
  imports Pvcq_Steal
begin

text \<open>
  Every operation of the per-vcore-queue scheduler keeps the invariant of the queues, and what it
  does to the live control blocks.
\<close>

section \<open>Updates of one control block\<close>

lemma pvcq_inv_upd:
  assumes inv: "pvcq_inv H s" and p: "tcbs (pvcq_live s) t = Some p"
    and s': "tcbs s' = (tcbs s)(t \<mapsto> q)" "zombie_list s' = zombie_list s"
      "pvcq_queued s' = pvcq_queued s" "max_vcores s' = max_vcores s" "queues_ok s'"
    and st: "tcb_state p \<noteq> UPTH_RUNNABLE" "tcb_state q \<noteq> UPTH_RUNNABLE"
    and pref: "tcb_state q \<noteq> UPTH_CREATED \<Longrightarrow> 0 \<le> tcb_preferred_vcq q \<and> tcb_preferred_vcq q < max_vcores s"
  shows "pvcq_inv H s'" and "tcbs (pvcq_live s') = (tcbs (pvcq_live s))(t \<mapsto> q)"
proof -
  have tz: "t \<notin> set (zombie_list s)"
    using p by (auto simp: pvcq_live_tcbs restrict_map_def split: if_splits)
  then show live: "tcbs (pvcq_live s') = (tcbs (pvcq_live s))(t \<mapsto> q)"
    using s' by (auto simp: pvcq_live_tcbs restrict_map_def fun_eq_iff)
  have "(state_of (pvcq_live s') x = Some UPTH_RUNNABLE) = (state_of (pvcq_live s) x = Some UPTH_RUNNABLE)" for x
    using st p by (auto simp: state_of_def live)
  then show "pvcq_inv H s'" using inv s' pref unfolding pvcq_inv_def live pvcq_links_def by auto
qed

text \<open>A field that is neither the state nor the preferred queue.\<close>

lemma pvcq_inv_field:
  assumes inv: "pvcq_inv H s" and p: "tcbs (pvcq_live s) t = Some p"
    and s': "tcbs s' = (tcbs s)(t \<mapsto> q)" "zombie_list s' = zombie_list s"
      "pvcq_queued s' = pvcq_queued s" "max_vcores s' = max_vcores s" "queues_ok s'"
    and q: "tcb_state q = tcb_state p" "tcb_preferred_vcq q = tcb_preferred_vcq p"
  shows "pvcq_inv H s'" and "tcbs (pvcq_live s') = (tcbs (pvcq_live s))(t \<mapsto> q)"
proof -
  have tz: "t \<notin> set (zombie_list s)"
    using p by (auto simp: pvcq_live_tcbs restrict_map_def split: if_splits)
  then show live: "tcbs (pvcq_live s') = (tcbs (pvcq_live s))(t \<mapsto> q)"
    using s' by (auto simp: pvcq_live_tcbs restrict_map_def fun_eq_iff)
  have "state_of (pvcq_live s') = state_of (pvcq_live s)"
    using q p by (auto simp: state_of_def live fun_eq_iff)
  then show "pvcq_inv H s'" using inv s' p q unfolding pvcq_inv_def live pvcq_links_def by auto
qed

lemma pvcq_live_Some:
  "tcbs (pvcq_live s) t = Some p \<longleftrightarrow> tcbs s t = Some p \<and> t \<notin> set (zombie_list s)"
  by (auto simp: pvcq_live_tcbs restrict_map_def)

lemma pvcq_inv_pref:
  "pvcq_inv H s \<Longrightarrow> tcbs (pvcq_live s) t = Some p \<Longrightarrow> tcb_state p \<noteq> UPTH_CREATED \<Longrightarrow>
   0 \<le> tcb_preferred_vcq p \<and> tcb_preferred_vcq p < max_vcores s"
  by (simp add: pvcq_inv_def)

lemma pvcq_inv_not_linked:
  "pvcq_inv H s \<Longrightarrow> tcbs (pvcq_live s) t = Some p \<Longrightarrow> tcb_state p \<noteq> UPTH_RUNNABLE \<Longrightarrow> t \<notin> pvcq_links s"
  by (erule contrapos_nn, erule pvcq_runnable_tcb [OF _ UnI1]) auto

lemma pvcq_inv_not_held:
  "pvcq_inv H s \<Longrightarrow> tcbs (pvcq_live s) t = Some p \<Longrightarrow> tcb_state p \<noteq> UPTH_RUNNABLE \<Longrightarrow> t \<notin> H"
  by (erule contrapos_nn, erule pvcq_runnable_tcb [OF _ UnI2]) auto

lemma pvcq_inv_queues_ok: "pvcq_inv H s \<Longrightarrow> queues_ok s"
  by (simp add: pvcq_inv_def)

lemma queues_ok_upd [simp]:
  "queues_ok (ext c s) = queues_ok s" "queues_ok (s\<lparr>tcbs := f\<rparr>) = queues_ok s"
  "queues_ok (s\<lparr>u_data := u\<rparr>) = queues_ok s" "queues_ok (s\<lparr>next_pid := n\<rparr>) = queues_ok s"
  "queues_ok (s\<lparr>zombie_list := z\<rparr>) = queues_ok s" "queues_ok (s\<lparr>can_adjust_vcores := b\<rparr>) = queues_ok s"
  "queues_ok (s\<lparr>can_steal := b\<rparr>) = queues_ok s" "queues_ok (s\<lparr>ss_yield := b\<rparr>) = queues_ok s"
  by (simp_all add: queues_ok_def max_vcores_def ext_def)

lemma pvcq_frame_upd [simp]:
  "pvcq_queued (s\<lparr>u_data := u\<rparr>) = pvcq_queued s" "max_vcores (s\<lparr>u_data := u\<rparr>) = max_vcores s"
  "pvcq_queued (s\<lparr>next_pid := n\<rparr>) = pvcq_queued s" "max_vcores (s\<lparr>next_pid := n\<rparr>) = max_vcores s"
  by (simp_all add: pvcq_queued_def max_vcores_def)

section \<open>Waking\<close>

lemma pvcq_runnable_inv:
  assumes inv: "pvcq_inv H s" and p: "tcbs (pvcq_live s) t = Some p" and w: "wakeable (tcb_state p)"
  shows "\<exists>i s'. pvcq_pth_thread_runnable t s = Some s' \<and> pvcq_inv H s' \<and> 0 \<le> i \<and> i < max_vcores s \<and>
    tcbs (pvcq_live s') = (tcbs (pvcq_live s))(t \<mapsto> p\<lparr>tcb_state := UPTH_RUNNABLE, tcb_preferred_vcq := i\<rparr>) \<and>
    zombie_list s' = zombie_list s \<and> u_data s' = u_data s \<and> max_vcores s' = max_vcores s \<and>
    t \<in> pvcq_links s' \<and> mset (pvcq_queued s') = add_mset t (mset (pvcq_queued s)) \<and>
    i = (if tcb_state p = UPTH_CREATED then next_queue_id s else tcb_preferred_vcq p) \<and>
    (\<forall>v. vc_get i s = Some v \<longrightarrow> (\<exists>w. vc_get i s' = Some w \<and>
       vc_tqueue w = (if tcb_state p = UPTH_BLK_SYSC then t # vc_tqueue v else vc_tqueue v @ [t])))"
proof -
  let ?a = "tcb_state p = UPTH_BLK_SYSC"
  have st: "tcb_state p \<noteq> UPTH_RUNNABLE" using w by auto
  have t: "t \<notin> pvcq_links s" by (rule pvcq_inv_not_linked [OF inv p st])
  have raw: "tcbs s t = Some p" using p by (simp add: pvcq_live_Some)
  from enqueue_eq [OF pvcq_inv_queues_ok [OF inv] raw t pvcq_inv_pref [OF inv p], of ?a]
  obtain i s1 where e: "pvcq_enqueue t ?a s = Some (i, s1)" "enqueued t ?a p i s s1" by blast
  have "H - {t} = H" using pvcq_inv_not_held [OF inv p st] by auto
  note en = enqueue_inv [OF inv e(2) p t disjI2 [OF st], unfolded this]
  let ?s = "if can_adjust_vcores s1 then ext (VcoreRequestSpecific i) s1 else s1"
  have eq: "pvcq_pth_thread_runnable t s = Some ?s"
    using raw e(1) w by (cases ?a) (simp_all add: pvcq_pth_thread_runnable_def Let_def)
  have frame: "tcbs ?s = tcbs s1" "zombie_list ?s = zombie_list s1" "pvcq_queued ?s = pvcq_queued s1"
    "max_vcores ?s = max_vcores s1" "queues_ok ?s = queues_ok s1" "u_data ?s = u_data s1"
    "\<And>j. vc_get j ?s = vc_get j s1" by simp_all
  have "pvcq_inv H ?s" using en(1) pvcq_inv_cong [OF frame(1-5)] by simp
  moreover have "tcbs (pvcq_live ?s) = tcbs (pvcq_live s1)" by (simp add: pvcq_live_tcbs frame)
  moreover have "t \<in> pvcq_links s1"
    using e(2) by (metis enqueued_def pvcq_links_def set_mset_mset union_single_eq_member)
  ultimately show ?thesis using eq en(2) e(2) frame
    by (intro exI [of _ i] exI [of _ ?s]) (simp add: enqueued_def pvcq_links_def)
qed

text \<open>A running thread stops in state \<open>st\<close>.\<close>

lemma pvcq_stop_inv:
  assumes inv: "pvcq_inv H s" and p: "tcbs (pvcq_live s) t = Some p" and run: "tcb_state p = UPTH_RUNNING"
    and st: "st \<noteq> UPTH_RUNNABLE"
  shows "\<exists>s'. set_state t st s = Some s' \<and> pvcq_inv H s' \<and> s' = s\<lparr>tcbs := (tcbs s)(t \<mapsto> p\<lparr>tcb_state := st\<rparr>)\<rparr> \<and>
    tcbs (pvcq_live s') = (tcbs (pvcq_live s))(t \<mapsto> p\<lparr>tcb_state := st\<rparr>)"
proof -
  let ?s = "s\<lparr>tcbs := (tcbs s)(t \<mapsto> p\<lparr>tcb_state := st\<rparr>)\<rparr>"
  have raw: "tcbs s t = Some p" using p by (simp add: pvcq_live_Some)
  have "pvcq_inv H ?s" "tcbs (pvcq_live ?s) = (tcbs (pvcq_live s))(t \<mapsto> p\<lparr>tcb_state := st\<rparr>)"
    using pvcq_inv_upd [OF inv p, of ?s "p\<lparr>tcb_state := st\<rparr>"] run st pvcq_inv_pref [OF inv p]
      pvcq_inv_queues_ok [OF inv] by simp_all
  then show ?thesis using raw by simp
qed

text \<open>\<open>pth_thread_paused\<close> and the callback of \<open>upthread_yield\<close>.\<close>

lemma pvcq_stop_and_go:
  assumes inv: "pvcq_inv H s" and p: "tcbs (pvcq_live s) t = Some p" and run: "tcb_state p = UPTH_RUNNING"
    and st: "wakeable st" "st \<noteq> UPTH_CREATED"
  shows "\<exists>s'. Option.bind (set_state t st s) (pvcq_pth_thread_runnable t) = Some s' \<and> pvcq_inv H s' \<and>
    tcbs (pvcq_live s') = (tcbs (pvcq_live s))(t \<mapsto> p\<lparr>tcb_state := UPTH_RUNNABLE\<rparr>) \<and>
    t \<in> pvcq_links s' \<and> zombie_list s' = zombie_list s"
proof -
  have "st \<noteq> UPTH_RUNNABLE" using st by auto
  from pvcq_stop_inv [OF inv p run this] obtain s1 where s1: "set_state t st s = Some s1" "pvcq_inv H s1"
    "tcbs (pvcq_live s1) = (tcbs (pvcq_live s))(t \<mapsto> p\<lparr>tcb_state := st\<rparr>)"
    "s1 = s\<lparr>tcbs := (tcbs s)(t \<mapsto> p\<lparr>tcb_state := st\<rparr>)\<rparr>" by blast
  from pvcq_runnable_inv [OF s1(2), of t "p\<lparr>tcb_state := st\<rparr>"] s1(3) st obtain s' where
    s': "pvcq_pth_thread_runnable t s1 = Some s'" "pvcq_inv H s'" "t \<in> pvcq_links s'"
      "zombie_list s' = zombie_list s1"
      "tcbs (pvcq_live s') = (tcbs (pvcq_live s1))(t \<mapsto> p\<lparr>tcb_state := UPTH_RUNNABLE,
          tcb_preferred_vcq := tcb_preferred_vcq p\<rparr>)" by auto
  have "p\<lparr>tcb_state := UPTH_RUNNABLE, tcb_preferred_vcq := tcb_preferred_vcq p\<rparr> = p\<lparr>tcb_state := UPTH_RUNNABLE\<rparr>"
    by (cases p) simp
  with s1 s' show ?thesis by simp
qed

section \<open>Dispatching\<close>

text \<open>The platform's routines do what their documentation says.\<close>

definition platform_ok :: "platform \<Rightarrow> bool" where
  "platform_ok pl \<longleftrightarrow>
     (\<forall>x. 0 \<le> fst (pl_rand_r pl x)) \<and>
     (\<forall>zs t. mset (pl_wfl_insert pl zs t) = add_mset t (mset zs)) \<and>
     (\<forall>zs. pl_wfl_remove pl zs = None \<longleftrightarrow> zs = []) \<and>
     (\<forall>zs t zs'. pl_wfl_remove pl zs = Some (t, zs') \<longrightarrow> mset zs = add_mset t (mset zs'))"

text \<open>A thread in hand is made to run.\<close>

lemma pvcq_run_inv:
  assumes inv: "pvcq_inv (insert t H) s" and t: "t \<notin> H"
  shows "\<exists>p s'. tcbs (pvcq_live s) t = Some p \<and> tcb_state p = UPTH_RUNNABLE \<and>
    set_state t UPTH_RUNNING s = Some s' \<and> pvcq_inv H s' \<and> zombie_list s' = zombie_list s \<and>
    tcbs (pvcq_live s') = (tcbs (pvcq_live s))(t \<mapsto> p\<lparr>tcb_state := UPTH_RUNNING\<rparr>)"
proof -
  have "t \<in> pvcq_links s \<union> insert t H" by simp
  with inv obtain p where p: "tcbs s t = Some p" "tcbs (pvcq_live s) t = Some p"
    "tcb_state p = UPTH_RUNNABLE" "t \<notin> set (zombie_list s)" by (elim pvcq_runnable_tcb) blast+
  let ?q = "p\<lparr>tcb_state := UPTH_RUNNING\<rparr>"
  let ?s = "s\<lparr>tcbs := (tcbs s)(t \<mapsto> ?q)\<rparr>"
  have live: "tcbs (pvcq_live ?s) = (tcbs (pvcq_live s))(t \<mapsto> ?q)"
    using p(4) by (auto simp: pvcq_live_tcbs restrict_map_def fun_eq_iff)
  have "(state_of (pvcq_live ?s) x = Some UPTH_RUNNABLE) = (x \<noteq> t \<and> state_of (pvcq_live s) x = Some UPTH_RUNNABLE)" for x
    by (auto simp: state_of_def live)
  moreover have "t \<notin> pvcq_links s" using inv by (simp add: pvcq_inv_def)
  ultimately have "pvcq_inv H ?s"
    using t inv p(2) pvcq_inv_pref [OF inv p(2)] p(3) unfolding pvcq_inv_def live by (auto simp: pvcq_links_def)
  with p live show ?thesis by simp
qed

lemma pvcq_dispatch_inv:
  assumes inv: "pvcq_inv H s" and "pvcq_dequeue rand_r num_vcores me s = Some (Some t, s1)"
    and "0 \<le> me" "me < max_vcores s" "0 < num_vcores" "num_vcores \<le> max_vcores s" "\<forall>x. 0 \<le> fst (rand_r x)"
  shows "\<exists>p s'. set_state t UPTH_RUNNING s1 = Some s' \<and> pvcq_inv H s' \<and> pvcq_same s s1 \<and>
    tcbs (pvcq_live s1) t = Some p \<and> tcb_state p = UPTH_RUNNABLE \<and> zombie_list s' = zombie_list s \<and>
    tcbs (pvcq_live s') = (tcbs (pvcq_live s1))(t \<mapsto> p\<lparr>tcb_state := UPTH_RUNNING\<rparr>)"
proof -
  from assms(3,4) obtain v where v: "vc_get me s = Some v" using vc_get_defined by blast
  from pvcq_dequeue_spec [OF inv assms(3-7) v] assms(2)
  have st: "pvcq_same s s1" "t \<notin> H" "pvcq_inv (insert t H) s1" by (auto simp: stole_def)
  from pvcq_run_inv [OF st(3,2)] st(1) show ?thesis by (fastforce simp: pvcq_same_def)
qed

end
