(* ===== verification/Pvcq_Memory.thy ===== *)
theory Pvcq_Memory
  imports Pvcq_Ops
begin

text \<open>
  The pool of control blocks of \<^verbatim>\<open>src/pvcq/upthread.c\<close>: freeing takes a block out of the live
  ones, allocating puts one there that no live thread uses, and neither disturbs the queues.
\<close>

section \<open>Freeing\<close>

lemma pvcq_free_inv:
  assumes pl: "platform_ok pl" and inv: "pvcq_inv H s" and p: "tcbs (pvcq_live s) t = Some p"
    and st: "tcb_state p \<noteq> UPTH_RUNNABLE"
  shows "\<exists>s'. pvcq_upthread_free pl t s = Some s' \<and> pvcq_inv H s' \<and>
    tcbs (pvcq_live s') = (tcbs (pvcq_live s))(t := None) \<and> pvcq_queued s' = pvcq_queued s \<and>
    (length (zombie_list s) < 1000 \<longrightarrow> t \<in> set (zombie_list s'))"
proof -
  have raw: "tcbs s t = Some p" "t \<notin> set (zombie_list s)" using p by (simp_all add: pvcq_live_Some)
  have t: "t \<notin> pvcq_links s" by (rule pvcq_inv_not_linked [OF inv p st])
  have core: "pvcq_inv H s'" if s': "tcbs (pvcq_live s') = (tcbs (pvcq_live s))(t := None)"
      "pvcq_queued s' = pvcq_queued s" "max_vcores s' = max_vcores s" "queues_ok s'"
      "distinct (zombie_list s')" "\<forall>z \<in> set (zombie_list s'). tcbs s' z \<noteq> None" for s'
  proof -
    have "(state_of (pvcq_live s') x = Some UPTH_RUNNABLE) = (state_of (pvcq_live s) x = Some UPTH_RUNNABLE)" for x
      using p st by (auto simp: state_of_def s'(1))
    with inv s' show ?thesis unfolding pvcq_inv_def pvcq_links_def by auto
  qed
  show ?thesis
  proof (cases "length (zombie_list s) < 1000")
    case True
    let ?z = "pl_wfl_insert pl (zombie_list s) t"
    let ?s = "s\<lparr>zombie_list := ?z\<rparr>"
    have ms: "mset ?z = add_mset t (mset (zombie_list s))" using pl by (simp add: platform_ok_def)
    have z: "set ?z = insert t (set (zombie_list s))" using arg_cong [OF ms, of set_mset] by simp
    have "distinct ?z = distinct (t # zombie_list s)" by (rule mset_eq_imp_distinct_iff) (simp add: ms)
    moreover have "distinct (zombie_list s)" using inv by (simp add: pvcq_inv_def)
    ultimately have d: "distinct ?z" using raw(2) by simp
    have live: "tcbs (pvcq_live ?s) = (tcbs (pvcq_live s))(t := None)"
      by (auto simp: pvcq_live_tcbs restrict_map_def z fun_eq_iff)
    have "pvcq_inv H ?s"
      by (rule core [OF live]) (use inv raw z d in \<open>auto simp: pvcq_inv_def\<close>)
    with True live z show ?thesis by (simp add: pvcq_upthread_free_def)
  next
    case False
    let ?s = "ext (Munmap (tcb_stacktop p - ucast (tcb_stacksize p))
        (scast (tcb_stacksize p + word_of_int (tcb_stack_offset p)))) (s\<lparr>tcbs := (tcbs s)(t := None)\<rparr>)"
    have live: "tcbs (pvcq_live ?s) = (tcbs (pvcq_live s))(t := None)"
      by (auto simp: pvcq_live_tcbs restrict_map_def fun_eq_iff)
    have "pvcq_inv H ?s"
      by (rule core [OF live]) (use inv raw in \<open>auto simp: pvcq_inv_def\<close>)
    with False live raw show ?thesis by (simp add: pvcq_upthread_free_def)
  qed
qed

section \<open>Allocating\<close>

lemma rand_vcore_put:
  assumes "rand_vcore rand_r n i s = Some (c, s')"
  shows "\<exists>w. s' = vc_put i w s"
proof -
  from assms obtain v where "vc_get i s = Some v" by (auto simp: rand_vcore_def bind_eq_Some_conv)
  with assms show ?thesis
    by (cases "rand_r (vc_rseed v)") (auto simp: rand_vcore_def split: if_splits)
qed

text \<open>The block is a zombie or new memory; its user then writes its state.\<close>

lemma pvcq_alloc_inv:
  assumes pl: "platform_ok pl" and inv: "pvcq_inv H s"
    and alloc: "pvcq_upthread_alloc pl mmap n s = Some (t, s1)"
    and fresh: "tcbs s t = None \<or> t \<in> set (zombie_list s)"
  shows "\<exists>p. tcbs s1 t = Some p \<and> tcbs (pvcq_live s) t = None \<and>
    max_vcores s1 = max_vcores s \<and> queues_ok s1 \<and>
    (zombie_list s = [] \<longrightarrow> tcb_preferred_vcq p = 0) \<and>
    (\<forall>s2 q. tcbs s2 = (tcbs s1)(t \<mapsto> q) \<longrightarrow> zombie_list s2 = zombie_list s1 \<longrightarrow>
       pvcq_queued s2 = pvcq_queued s1 \<longrightarrow> max_vcores s2 = max_vcores s1 \<longrightarrow> queues_ok s2 \<longrightarrow>
       tcb_state q \<noteq> UPTH_RUNNABLE \<longrightarrow>
       (tcb_state q \<noteq> UPTH_CREATED \<longrightarrow> 0 \<le> tcb_preferred_vcq q \<and> tcb_preferred_vcq q < max_vcores s) \<longrightarrow>
       pvcq_inv H s2 \<and> tcbs (pvcq_live s2) = (tcbs (pvcq_live s))(t \<mapsto> q))"
proof -
  have none: "tcbs (pvcq_live s) t = None" using fresh by (auto simp: pvcq_live_tcbs restrict_map_def)
  have core: "pvcq_inv H s2 \<and> tcbs (pvcq_live s2) = (tcbs (pvcq_live s))(t \<mapsto> q)"
    if s2: "tcbs s2 = (tcbs s)(t \<mapsto> q)" "mset (zombie_list s) = mset (zombie_list s2) + m"
      "m = {#t#} \<or> m = {#} \<and> t \<notin> set (zombie_list s)"
      "pvcq_queued s2 = pvcq_queued s" "max_vcores s2 = max_vcores s" "queues_ok s2"
      "tcb_state q \<noteq> UPTH_RUNNABLE"
      "tcb_state q \<noteq> UPTH_CREATED \<longrightarrow> 0 \<le> tcb_preferred_vcq q \<and> tcb_preferred_vcq q < max_vcores s"
    for s2 q m
  proof -
    have dz: "distinct (zombie_list s)" using inv by (simp add: pvcq_inv_def)
    have zz: "distinct (zombie_list s2) \<and> set (zombie_list s2) = set (zombie_list s) - {t}"
    proof (cases "m = {#t#}")
      case True
      have ms: "mset (zombie_list s) = mset (t # zombie_list s2)" using s2(2) True by simp
      have "distinct (zombie_list s) = distinct (t # zombie_list s2)" by (rule mset_eq_imp_distinct_iff [OF ms])
      moreover have "set (zombie_list s) = insert t (set (zombie_list s2))"
        using arg_cong [OF ms, of set_mset] by simp
      ultimately show ?thesis using dz by auto
    next
      case False
      with s2(2,3) have ms: "mset (zombie_list s2) = mset (zombie_list s)" and "t \<notin> set (zombie_list s)" by auto
      moreover have "distinct (zombie_list s2) = distinct (zombie_list s)" by (rule mset_eq_imp_distinct_iff [OF ms])
      moreover have "set (zombie_list s2) = set (zombie_list s)" using arg_cong [OF ms, of set_mset] by simp
      ultimately show ?thesis using dz by auto
    qed
    have live: "tcbs (pvcq_live s2) = (tcbs (pvcq_live s))(t \<mapsto> q)"
      using s2(1) zz by (auto simp: pvcq_live_tcbs restrict_map_def fun_eq_iff)
    have "(state_of (pvcq_live s2) x = Some UPTH_RUNNABLE) = (state_of (pvcq_live s) x = Some UPTH_RUNNABLE)" for x
      using none s2(7) by (auto simp: state_of_def live)
    moreover have "\<forall>z \<in> set (zombie_list s2). tcbs s2 z \<noteq> None"
      using zz inv s2(1) by (simp add: pvcq_inv_def)
    ultimately have "pvcq_inv H s2"
      using inv s2 zz unfolding pvcq_inv_def pvcq_links_def live by auto
    with live show ?thesis by simp
  qed
  show ?thesis
  proof (cases "pl_wfl_remove pl (zombie_list s)")
    case (Some r)
    then obtain t' zs where "r = (t', zs)" by (cases r)
    with Some alloc have r: "pl_wfl_remove pl (zombie_list s) = Some (t, zs)" "s1 = s\<lparr>zombie_list := zs\<rparr>"
      by (simp_all add: pvcq_upthread_alloc_def)
    then have ms: "mset (zombie_list s) = add_mset t (mset zs)" using pl by (auto simp: platform_ok_def)
    then have "t \<in> set (zombie_list s)" by (metis set_mset_mset union_single_eq_member)
    then obtain p where p: "tcbs s t = Some p" using inv by (auto simp: pvcq_inv_def)
    have ne: "zombie_list s \<noteq> []" using ms by auto
    show ?thesis
      using p none r ne pvcq_inv_queues_ok [OF inv] core [of _ _ "{#t#}"] ms by auto
  next
    case None
    then have z: "zombie_list s = []" using pl by (simp add: platform_ok_def)
    have rnd: "\<forall>x. 0 \<le> fst (pl_rand_r pl x)" using pl by (simp add: platform_ok_def)
    have m: "0 < max_vcores s" using inv by (auto simp: pvcq_inv_def queues_ok_def)
    from rand_vcore_spec [OF inv _ m m rnd] obtain c sr where
      sr: "rand_vcore (pl_rand_r pl) (max_vcores s) 0 s = Some (c, sr)" "pvcq_same s sr" "pvcq_inv H sr"
        "pvcq_queued sr = pvcq_queued s" by auto
    from rand_vcore_put [OF sr(1)] obtain w where "sr = vc_put 0 w s" by blast
    then have tcbs_sr: "tcbs sr = tcbs s" and zsr: "zombie_list sr = zombie_list s"
      and msr: "max_vcores sr = max_vcores s" by simp_all
    from alloc None sr(1) obtain p where p: "s1 = sr\<lparr>tcbs := (tcbs sr)(t \<mapsto> p)\<rparr>" "tcb_preferred_vcq p = 0"
      by (auto simp: pvcq_upthread_alloc_def Let_def bind_eq_Some_conv tcb_zero_def)
    show ?thesis
      using p none z sr(4) tcbs_sr zsr msr pvcq_inv_queues_ok [OF sr(3)] core [of _ _ "{#}"] by auto
  qed
qed

end
