(* ===== verification/Pvcq_Moves.thy ===== *)
theory Pvcq_Moves
  imports Pvcq_Memory Sync_Objects
begin

text \<open>
  The per-vcore-queue scheduler as a step relation, and the proof that it meets the contract the
  synchronisation primitives rely on.
\<close>

section \<open>State of the scheduler\<close>

text \<open>\<open>H\<close> are the threads that vcores have in hand; between whole calls nobody has any.\<close>

definition pvcq_held :: "upthread_t set \<Rightarrow> pvcq \<Rightarrow> bool" where
  pvcq_ok_def: "pvcq_held H s \<longleftrightarrow> pvcq_inv H s \<and> join_ok (pvcq_live s)"

abbreviation pvcq_ok :: "pvcq \<Rightarrow> bool" where
  "pvcq_ok \<equiv> pvcq_held {}"

definition pvcq_running :: "pvcq \<Rightarrow> upthread_t set" where
  "pvcq_running s = {t. state_of (pvcq_live s) t = Some UPTH_RUNNING}"

definition pvcq_blocked :: "pvcq \<Rightarrow> upthread_t set" where
  "pvcq_blocked s = blocked_threads (pvcq_live s)"

section \<open>Steps\<close>

text \<open>
  One rule for each entry into \<^verbatim>\<open>src/pvcq/upthread.c\<close> other than the two that block and wake a
  thread for a primitive. The premises on join and detach are those of their documented use: the
  target of a join is not detached, is not the caller and has no other thread waiting for it; a
  thread is detached while nobody waits for it.
\<close>

inductive pvcq_moves :: "pvcq \<Rightarrow> pvcq \<Rightarrow> bool" where
  pv_dispatch: "0 \<le> me \<Longrightarrow> me < max_vcores s \<Longrightarrow> 0 < n \<Longrightarrow> n \<le> max_vcores s \<Longrightarrow>
    \<forall>x. 0 \<le> fst (rand_r x) \<Longrightarrow> pvcq_dequeue rand_r n me s = Some (Some t, s1) \<Longrightarrow>
    set_state t UPTH_RUNNING s1 = Some s' \<Longrightarrow> pvcq_moves s s'"
| pv_search: "0 \<le> me \<Longrightarrow> me < max_vcores s \<Longrightarrow> 0 < n \<Longrightarrow> n \<le> max_vcores s \<Longrightarrow>
    \<forall>x. 0 \<le> fst (rand_r x) \<Longrightarrow> pvcq_dequeue rand_r n me s = Some (None, s') \<Longrightarrow> pvcq_moves s s'"
| pv_yields: "t \<in> pvcq_running s \<Longrightarrow> pvcq_pth_yield_cb pvcq_pth_thread_runnable t s = Some s' \<Longrightarrow>
    pvcq_moves s s'"
| pv_syscall: "t \<in> pvcq_running s \<Longrightarrow> pvcq_pth_blockon_syscall t sysc s = Some s' \<Longrightarrow> pvcq_moves s s'"
| pv_sysdone: "u_data s sysc = Some t \<Longrightarrow> state_of (pvcq_live s) t = Some UPTH_BLK_SYSC \<Longrightarrow>
    pvcq_pth_handle_syscall (Some sysc) s = Some s' \<Longrightarrow> pvcq_moves s s'"
| pv_creates: "platform_ok pl \<Longrightarrow> tcbs s t = None \<or> t \<in> set (zombie_list s) \<Longrightarrow>
    pvcq_upthread_create pvcq_pth_thread_runnable pl mmap attr start arg s = Some (r, t, s') \<Longrightarrow>
    pvcq_moves s s'"
| pv_joins: "t \<in> pvcq_running s \<Longrightarrow> x \<noteq> t \<Longrightarrow> tcbs (pvcq_live s) x = Some q \<Longrightarrow> \<not> tcb_detached q \<Longrightarrow>
    tcb_joiner q = None \<or> tcb_state q = UPTH_EXITING \<Longrightarrow>
    pvcq_pth_join_cb pvcq_pth_thread_runnable t x s = Some s' \<Longrightarrow> pvcq_moves s s'"
| pv_joined: "platform_ok pl \<Longrightarrow> t \<in> pvcq_running s \<Longrightarrow> state_of (pvcq_live s) x = Some UPTH_EXITING \<Longrightarrow>
    pvcq_join_finish pl x s = Some (r, v, s') \<Longrightarrow> pvcq_moves s s'"
| pv_exits: "platform_ok pl \<Longrightarrow> t \<in> pvcq_running s \<Longrightarrow> pvcq_upthread_exit ret t s = Some s1 \<Longrightarrow>
    pvcq_pth_exit_cb pvcq_pth_thread_runnable pl t s1 = Some s' \<Longrightarrow> pvcq_moves s s'"
| pv_detaches: "tcbs (pvcq_live s) x = Some q \<Longrightarrow> tcb_joiner q = None \<Longrightarrow>
    pvcq_upthread_detach x s = Some (r, s') \<Longrightarrow> pvcq_moves s s'"
| pv_can_request: "pvcq_moves s (pvcq_upthread_can_vcore_request can s)"
| pv_can_steal: "pvcq_moves s (pvcq_upthread_can_vcore_steal can s)"
| pv_set_num: "1 \<le> num \<Longrightarrow> pvcq_moves s (pvcq_upthread_set_num_vcores num s)"
| pv_short_circuit: "pvcq_moves s (pvcq_upthread_short_circuit_yield ss s)"

lemma pvcq_runningE:
  assumes "t \<in> pvcq_running s"
  obtains p where "tcbs (pvcq_live s) t = Some p" and "tcbs s t = Some p" and "tcb_state p = UPTH_RUNNING"
    and "t \<notin> set (zombie_list s)"
  using assms by (auto simp: pvcq_running_def state_of_def pvcq_live_Some)

lemma pvcq_okI: "pvcq_inv H s \<Longrightarrow> join_ok (pvcq_live s) \<Longrightarrow> pvcq_held H s"
  by (simp add: pvcq_ok_def)

section \<open>Queue steps\<close>

lemma pvcq_same_ok:
  assumes "pvcq_same s s'" and "join_ok (pvcq_live s)"
  shows "join_ok (pvcq_live s')" and "pvcq_blocked s' = pvcq_blocked s" and "pvcq_running s' = pvcq_running s"
  using assms(2) pvcq_same_views(1-3) [OF assms(1)]
  by (simp_all add: join_ok_def pvcq_blocked_def blocked_threads_def pvcq_running_def)

lemma pvcq_ok_dispatch:
  assumes "pvcq_held H s" and "0 \<le> me" "me < max_vcores s" "0 < n" "n \<le> max_vcores s"
    and "\<forall>x. 0 \<le> fst (rand_r x)" and deq: "pvcq_dequeue rand_r n me s = Some (Some t, s1)"
    and run: "set_state t UPTH_RUNNING s1 = Some s'"
  shows "pvcq_held H s' \<and> pvcq_blocked s' = pvcq_blocked s"
proof -
  have inv: "pvcq_inv H s" and jok: "join_ok (pvcq_live s)" using assms(1) by (simp_all add: pvcq_ok_def)
  from pvcq_dispatch_inv [OF inv deq assms(2-6)] run obtain p where
    d: "pvcq_inv H s'" "pvcq_same s s1" "tcbs (pvcq_live s1) t = Some p" "tcb_state p = UPTH_RUNNABLE"
    "tcbs (pvcq_live s') = (tcbs (pvcq_live s1))(t \<mapsto> p\<lparr>tcb_state := UPTH_RUNNING\<rparr>)" by auto
  note same = pvcq_same_ok [OF d(2) jok]
  have "join_ok (pvcq_live s') \<and> blocked_threads (pvcq_live s') = blocked_threads (pvcq_live s1)"
    by (rule neutral_step [OF same(1) d(3,5)]) (use d(4) in simp_all)
  with d(1) same(2) show ?thesis by (simp add: pvcq_ok_def pvcq_blocked_def)
qed

lemma pvcq_ok_search:
  assumes "pvcq_held H s" and "0 \<le> me" "me < max_vcores s" "0 < n" "n \<le> max_vcores s"
    and "\<forall>x. 0 \<le> fst (rand_r x)" and deq: "pvcq_dequeue rand_r n me s = Some (None, s')"
  shows "pvcq_held H s' \<and> pvcq_blocked s' = pvcq_blocked s"
proof -
  have inv: "pvcq_inv H s" and jok: "join_ok (pvcq_live s)" using assms(1) by (simp_all add: pvcq_ok_def)
  from assms(2,3) obtain v where v: "vc_get me s = Some v" using vc_get_defined by blast
  from pvcq_dequeue_spec [OF inv assms(2-6) v] deq have "stole H s None s'" by force
  then have s': "pvcq_same s s'" "pvcq_inv H s'" by (simp_all add: stole_def)
  from pvcq_same_ok [OF s'(1) jok] s'(2) show ?thesis by (simp add: pvcq_ok_def)
qed

section \<open>Steps of one thread\<close>

text \<open>The live blocks change at one thread, from a neutral state to a neutral state.\<close>

lemma pvcq_ok_neutral:
  assumes "pvcq_held H s" and "tcbs (pvcq_live s) t = Some p" and "pvcq_inv H s'"
    and "tcbs (pvcq_live s') = (tcbs (pvcq_live s))(t \<mapsto> q)"
    and "tcb_joiner q = tcb_joiner p" and "tcb_detached q = tcb_detached p"
    and "join_neutral (tcb_state p)" and "join_neutral (tcb_state q)"
    and "tcb_state p \<noteq> UPTH_BLK_MUTEX" and "tcb_state q \<noteq> UPTH_BLK_MUTEX"
  shows "pvcq_held H s' \<and> pvcq_blocked s' = pvcq_blocked s"
proof -
  have jok: "join_ok (pvcq_live s)" using assms(1) by (simp add: pvcq_ok_def)
  from neutral_step [OF jok assms(2,4-10)] assms(3) show ?thesis
    by (simp add: pvcq_ok_def pvcq_blocked_def)
qed

lemma pvcq_ok_yield:
  assumes "pvcq_held H s" and "t \<in> pvcq_running s"
    and "pvcq_pth_yield_cb pvcq_pth_thread_runnable t s = Some s'"
  shows "pvcq_held H s' \<and> pvcq_blocked s' = pvcq_blocked s"
proof -
  from assms(1) have inv: "pvcq_inv H s" by (simp add: pvcq_ok_def)
  from assms(2) obtain p where p: "tcbs (pvcq_live s) t = Some p" "tcb_state p = UPTH_RUNNING"
    by (elim pvcq_runningE)
  from pvcq_stop_and_go [OF inv p, of UPTH_BLK_YIELDING] assms(3) have s': "pvcq_inv H s'"
    "tcbs (pvcq_live s') = (tcbs (pvcq_live s))(t \<mapsto> p\<lparr>tcb_state := UPTH_RUNNABLE\<rparr>)"
    by (auto simp: pvcq_pth_yield_cb_def pvcq_generic_yield_def)
  show ?thesis by (rule pvcq_ok_neutral [OF assms(1) p(1) s']) (use p(2) in simp_all)
qed

lemma pvcq_ok_syscall:
  assumes "pvcq_held H s" and "t \<in> pvcq_running s" and "pvcq_pth_blockon_syscall t sysc s = Some s'"
  shows "pvcq_held H s' \<and> pvcq_blocked s' = pvcq_blocked s"
proof -
  from assms(1) have inv: "pvcq_inv H s" by (simp add: pvcq_ok_def)
  from assms(2) obtain p where p: "tcbs (pvcq_live s) t = Some p" "tcb_state p = UPTH_RUNNING"
    by (elim pvcq_runningE)
  have "UPTH_BLK_SYSC \<noteq> UPTH_RUNNABLE" by simp
  from pvcq_stop_inv [OF inv p this] obtain s1 where s1: "set_state t UPTH_BLK_SYSC s = Some s1"
    "pvcq_inv H s1" "tcbs (pvcq_live s1) = (tcbs (pvcq_live s))(t \<mapsto> p\<lparr>tcb_state := UPTH_BLK_SYSC\<rparr>)" by blast
  have s': "s' = s1\<lparr>u_data := (u_data s1)(sysc := Some t)\<rparr>"
    using assms(3) s1(1) by (simp add: pvcq_pth_blockon_syscall_def pvcq_generic_yield_def)
  have inv': "pvcq_inv H s'" using s1(2) pvcq_inv_cong [of s' s1 "H"] by (simp add: s')
  have live: "tcbs (pvcq_live s') = tcbs (pvcq_live s1)" by (simp add: s' pvcq_live_tcbs)
  show ?thesis
    by (rule pvcq_ok_neutral [OF assms(1) p(1) inv', unfolded live, OF s1(3)]) (use p(2) in simp_all)
qed

lemma pvcq_ok_sysdone:
  assumes "pvcq_held H s" and "u_data s sysc = Some t" and "state_of (pvcq_live s) t = Some UPTH_BLK_SYSC"
    and "pvcq_pth_handle_syscall (Some sysc) s = Some s'"
  shows "pvcq_held H s' \<and> pvcq_blocked s' = pvcq_blocked s"
proof -
  from assms(1) have inv: "pvcq_inv H s" by (simp add: pvcq_ok_def)
  from assms(3) obtain p where p: "tcbs (pvcq_live s) t = Some p" "tcb_state p = UPTH_BLK_SYSC"
    by (auto simp: state_of_def)
  let ?q = "p\<lparr>uth_sysc := None\<rparr>"
  let ?s = "s\<lparr>tcbs := (tcbs s)(t \<mapsto> ?q)\<rparr>"
  have raw: "tcbs s t = Some p" using p(1) by (simp add: pvcq_live_Some)
  have s1: "pvcq_inv H ?s" "tcbs (pvcq_live ?s) = (tcbs (pvcq_live s))(t \<mapsto> ?q)"
    using pvcq_inv_field [OF inv p(1), of ?s ?q] pvcq_inv_queues_ok [OF inv] by simp_all
  have q: "tcbs (pvcq_live ?s) t = Some ?q" "wakeable (tcb_state ?q)" using s1(2) p(2) by simp_all
  obtain i s2 where s2: "pvcq_pth_thread_runnable t ?s = Some s2" "pvcq_inv H s2"
      "tcbs (pvcq_live s2) = (tcbs (pvcq_live ?s))(t \<mapsto> ?q\<lparr>tcb_state := UPTH_RUNNABLE, tcb_preferred_vcq := i\<rparr>)"
    using pvcq_runnable_inv [OF s1(1) q] by blast
  have "s' = s2" using assms(2,4) raw s2(1)
    by (simp add: pvcq_pth_handle_syscall_def pvcq_restart_thread_def)
  then have s': "pvcq_inv H s'"
    "tcbs (pvcq_live s') = (tcbs (pvcq_live s))(t \<mapsto> ?q\<lparr>tcb_state := UPTH_RUNNABLE, tcb_preferred_vcq := i\<rparr>)"
    using s2(2,3) s1(2) by simp_all
  show ?thesis by (rule pvcq_ok_neutral [OF assms(1) p(1) s']) (use p(2) in simp_all)
qed

section \<open>Creation\<close>

text \<open>The new thread is queued on the vcore next in turn, with the attributes asked for.\<close>

lemma pvcq_create_inv:
  assumes pl: "platform_ok pl" and inv: "pvcq_inv H s"
    and fresh: "tcbs s t = None \<or> t \<in> set (zombie_list s)"
    and run: "pvcq_upthread_create pvcq_pth_thread_runnable pl mmap attr start arg s = Some (r, t, s')"
  shows "\<exists>q. pvcq_inv H s' \<and> tcbs (pvcq_live s) t = None \<and>
    tcbs (pvcq_live s') = (tcbs (pvcq_live s))(t \<mapsto> q) \<and>
    tcb_state q = UPTH_RUNNABLE \<and> tcb_joiner q = None \<and> r = 0 \<and>
    tcb_detached q = (case attr of None \<Rightarrow> False | Some a \<Rightarrow> attr_detachstate a = UPTHREAD_CREATE_DETACHED) \<and>
    tcb_start_routine q = start \<and> tcb_arg q = arg"
proof -
  define n where "n = (case attr of None \<Rightarrow> UPTHREAD_STACK_SIZE (pl_pgsize pl)
      | Some a \<Rightarrow> if attr_stacksize a \<noteq> 0 then attr_stacksize a else UPTHREAD_STACK_SIZE (pl_pgsize pl))"
  from run obtain t0 s1 where alloc: "pvcq_upthread_alloc pl mmap n s = Some (t0, s1)"
    unfolding pvcq_upthread_create_def n_def [symmetric] Let_def by (auto simp: bind_eq_Some_conv)
  have "t0 = t"
    using run alloc unfolding pvcq_upthread_create_def n_def [symmetric] Let_def
    by (auto simp: bind_eq_Some_conv get_next_pid_def)
  note alloc = alloc [unfolded this]
  from pvcq_alloc_inv [OF pl inv alloc fresh] obtain p where p: "tcbs s1 t = Some p"
      "tcbs (pvcq_live s) t = None" "queues_ok s1" and adopt:
      "\<And>s2 q. tcbs s2 = (tcbs s1)(t \<mapsto> q) \<Longrightarrow> zombie_list s2 = zombie_list s1 \<Longrightarrow>
         pvcq_queued s2 = pvcq_queued s1 \<Longrightarrow> max_vcores s2 = max_vcores s1 \<Longrightarrow> queues_ok s2 \<Longrightarrow>
         tcb_state q = UPTH_CREATED \<Longrightarrow>
         pvcq_inv H s2 \<and> tcbs (pvcq_live s2) = (tcbs (pvcq_live s))(t \<mapsto> q)" by auto
  define q where "q = p\<lparr>tcb_state := UPTH_CREATED, tcb_id := next_pid s1,
    tcb_detached := (case attr of None \<Rightarrow> False | Some a \<Rightarrow> attr_detachstate a = UPTHREAD_CREATE_DETACHED),
    tcb_joiner := None, tcb_start_routine := start, tcb_arg := arg\<rparr>"
  obtain s2 where s2: "pvcq_pth_thread_runnable t s2 = Some s'" "tcbs s2 = (tcbs s1)(t \<mapsto> q)"
      "zombie_list s2 = zombie_list s1" "pvcq_queued s2 = pvcq_queued s1" "max_vcores s2 = max_vcores s1"
      "queues_ok s2" and r: "r = 0"
    using run alloc p(1,3) unfolding pvcq_upthread_create_def n_def [symmetric] Let_def
    by (auto simp: bind_eq_Some_conv get_next_pid_def q_def)
  have q: "tcb_state q = UPTH_CREATED" by (simp add: q_def)
  from adopt [OF s2(2-6) q] have inv2: "pvcq_inv H s2"
    and live2: "tcbs (pvcq_live s2) = (tcbs (pvcq_live s))(t \<mapsto> q)" by simp_all
  have "tcbs (pvcq_live s2) t = Some q" "wakeable (tcb_state q)" by (simp_all add: live2 q)
  from pvcq_runnable_inv [OF inv2 this] s2(1) obtain i where i: "pvcq_inv H s'"
    "tcbs (pvcq_live s') = (tcbs (pvcq_live s2))(t \<mapsto> q\<lparr>tcb_state := UPTH_RUNNABLE, tcb_preferred_vcq := i\<rparr>)"
    by (metis (no_types, lifting) option.inject)
  then have "tcbs (pvcq_live s') = (tcbs (pvcq_live s))(t \<mapsto> q\<lparr>tcb_state := UPTH_RUNNABLE, tcb_preferred_vcq := i\<rparr>)"
    by (simp add: live2)
  with i(1) p(2) r show ?thesis
    by (intro exI [of _ "q\<lparr>tcb_state := UPTH_RUNNABLE, tcb_preferred_vcq := i\<rparr>"]) (simp add: q_def)
qed

lemma pvcq_ok_create:
  assumes "platform_ok pl" and "pvcq_held H s" and "tcbs s t = None \<or> t \<in> set (zombie_list s)"
    and "pvcq_upthread_create pvcq_pth_thread_runnable pl mmap attr start arg s = Some (r, t, s')"
  shows "pvcq_held H s' \<and> pvcq_blocked s' = pvcq_blocked s"
proof -
  have inv: "pvcq_inv H s" and jok: "join_ok (pvcq_live s)" using assms(2) by (simp_all add: pvcq_ok_def)
  from pvcq_create_inv [OF assms(1) inv assms(3,4)] obtain q where q: "pvcq_inv H s'"
    "tcbs (pvcq_live s) t = None" "tcbs (pvcq_live s') = (tcbs (pvcq_live s))(t \<mapsto> q)"
    "tcb_state q = UPTH_RUNNABLE" "tcb_joiner q = None" by blast
  have "join_ok (pvcq_live s')" by (rule join_ok_new [OF jok q(2,3,5)]) (simp add: q(4))
  moreover have "blocked_threads (pvcq_live s') = blocked_threads (pvcq_live s)"
    by (rule blocked_threads_upd [OF q(3)]) (use q(2,4) in \<open>simp_all add: state_of_def\<close>)
  ultimately show ?thesis using q(1) by (simp add: pvcq_ok_def pvcq_blocked_def)
qed

section \<open>Join\<close>

text \<open>The caller sleeps in the empty slot of the target, or is queued again when the target has
  exited meanwhile.\<close>

lemma pvcq_join_cb_inv:
  assumes inv: "pvcq_inv H s" and t: "tcbs (pvcq_live s) t = Some p" "tcb_state p = UPTH_RUNNING"
    and x: "tcbs (pvcq_live s) x = Some q" "x \<noteq> t"
  shows "\<exists>s' st. pvcq_pth_join_cb pvcq_pth_thread_runnable t x s = Some s' \<and> pvcq_inv H s' \<and>
    st = (if tcb_joiner q = None then UPTH_BLK_JOINING else UPTH_RUNNABLE) \<and>
    tcbs (pvcq_live s') = (tcbs (pvcq_live s))(t \<mapsto> p\<lparr>tcb_state := st\<rparr>, x \<mapsto> q\<lparr>tcb_joiner := Some t\<rparr>)"
proof -
  have "UPTH_BLK_JOINING \<noteq> UPTH_RUNNABLE" by simp
  from pvcq_stop_inv [OF inv t this] obtain s1 where s1: "set_state t UPTH_BLK_JOINING s = Some s1"
    "pvcq_inv H s1" "tcbs (pvcq_live s1) = (tcbs (pvcq_live s))(t \<mapsto> p\<lparr>tcb_state := UPTH_BLK_JOINING\<rparr>)"
    by blast
  let ?q = "q\<lparr>tcb_joiner := Some t\<rparr>" and ?p = "p\<lparr>tcb_state := UPTH_BLK_JOINING\<rparr>"
  have x1: "tcbs (pvcq_live s1) x = Some q" using x s1(3) by simp
  then have raw: "tcbs s1 x = Some q" by (simp add: pvcq_live_Some)
  let ?s2 = "s1\<lparr>tcbs := (tcbs s1)(x \<mapsto> ?q)\<rparr>"
  have s2: "pvcq_inv H ?s2" "tcbs (pvcq_live ?s2) = (tcbs (pvcq_live s1))(x \<mapsto> ?q)"
    using pvcq_inv_field [OF s1(2) x1, of ?s2 ?q] pvcq_inv_queues_ok [OF s1(2)] by simp_all
  show ?thesis
  proof (cases "tcb_joiner q")
    case None
    with s1(1) raw have "pvcq_pth_join_cb pvcq_pth_thread_runnable t x s = Some ?s2"
      by (simp add: pvcq_pth_join_cb_def pvcq_generic_yield_def)
    with s2 s1(3) None show ?thesis by simp
  next
    case (Some w)
    have t2: "tcbs (pvcq_live ?s2) t = Some ?p" "wakeable (tcb_state ?p)" using s2(2) s1(3) x(2) by simp_all
    from pvcq_runnable_inv [OF s2(1) t2] obtain s3 where s3:
      "pvcq_pth_thread_runnable t ?s2 = Some s3" "pvcq_inv H s3"
      "tcbs (pvcq_live s3) = (tcbs (pvcq_live ?s2))(t \<mapsto> ?p\<lparr>tcb_state := UPTH_RUNNABLE,
         tcb_preferred_vcq := tcb_preferred_vcq p\<rparr>)" by auto
    have "pvcq_pth_join_cb pvcq_pth_thread_runnable t x s = Some s3"
      using s1(1) raw Some s3(1) by (simp add: pvcq_pth_join_cb_def pvcq_generic_yield_def)
    moreover have "?p\<lparr>tcb_state := UPTH_RUNNABLE, tcb_preferred_vcq := tcb_preferred_vcq p\<rparr> =
        p\<lparr>tcb_state := UPTH_RUNNABLE\<rparr>" by (cases p) simp
    then have "tcbs (pvcq_live s3) = (tcbs (pvcq_live s))(t \<mapsto> p\<lparr>tcb_state := UPTH_RUNNABLE\<rparr>, x \<mapsto> ?q)"
      using s3(3) s2(2) s1(3) x(2) by (simp add: fun_upd_twist)
    ultimately show ?thesis using s3(2) Some by simp
  qed
qed

lemma pvcq_ok_join:
  assumes "pvcq_held H s" and "t \<in> pvcq_running s" and "x \<noteq> t" and x: "tcbs (pvcq_live s) x = Some q"
    and "\<not> tcb_detached q" and "tcb_joiner q = None \<or> tcb_state q = UPTH_EXITING"
    and "pvcq_pth_join_cb pvcq_pth_thread_runnable t x s = Some s'"
  shows "pvcq_held H s' \<and> pvcq_blocked s' = pvcq_blocked s"
proof -
  have inv: "pvcq_inv H s" and jok: "join_ok (pvcq_live s)" using assms(1) by (simp_all add: pvcq_ok_def)
  from assms(2) obtain p where p: "tcbs (pvcq_live s) t = Some p" "tcb_state p = UPTH_RUNNING"
    by (elim pvcq_runningE)
  have tx: "t \<noteq> x" using assms(3) by simp
  have n: "join_neutral (tcb_state p)" by (simp add: p(2))
  define st where "st = (if tcb_joiner q = None then UPTH_BLK_JOINING else UPTH_RUNNABLE)"
  from pvcq_join_cb_inv [OF inv p x assms(3)] assms(7) have s': "pvcq_inv H s'"
    "tcbs (pvcq_live s') = (tcbs (pvcq_live s))(t \<mapsto> p\<lparr>tcb_state := st\<rparr>, x \<mapsto> q\<lparr>tcb_joiner := Some t\<rparr>)"
    by (auto simp: st_def)
  have "join_ok (pvcq_live s')"
  proof (cases "tcb_joiner q")
    case None
    then have st: "st = UPTH_BLK_JOINING" by (simp add: st_def)
    show ?thesis by (rule join_ok_sleep [OF jok tx p(1) x n None assms(5) s'(2) [unfolded st]])
  next
    case (Some w)
    then have st: "join_neutral st" "tcb_state q = UPTH_EXITING" using assms(6) by (simp_all add: st_def)
    show ?thesis by (rule join_ok_late [OF jok tx p(1) x n st s'(2)])
  qed
  moreover have "blocked_threads (pvcq_live s') = blocked_threads (pvcq_live s)"
    using s'(2) tx x p by (auto simp: blocked_threads_def state_of_def st_def split: if_splits)
  ultimately show ?thesis using s'(1) by (simp add: pvcq_ok_def pvcq_blocked_def)
qed

text \<open>The second half of a join: the block of the target goes back to the pool.\<close>

lemma pvcq_ok_joined:
  assumes "platform_ok pl" and "pvcq_held H s" and "state_of (pvcq_live s) x = Some UPTH_EXITING"
    and "pvcq_join_finish pl x s = Some (r, v, s')"
  shows "pvcq_held H s' \<and> pvcq_blocked s' = pvcq_blocked s"
proof -
  have inv: "pvcq_inv H s" and jok: "join_ok (pvcq_live s)" using assms(2) by (simp_all add: pvcq_ok_def)
  from assms(3) obtain q where q: "tcbs (pvcq_live s) x = Some q" "tcb_state q = UPTH_EXITING"
    by (auto simp: state_of_def)
  have "tcb_state q \<noteq> UPTH_RUNNABLE" by (simp add: q(2))
  from pvcq_free_inv [OF assms(1) inv q(1) this] obtain s1 where s1: "pvcq_upthread_free pl x s = Some s1"
    "pvcq_inv H s1" "tcbs (pvcq_live s1) = (tcbs (pvcq_live s))(x := None)" by blast
  have "s' = s1" using assms(4) q(1) s1(1) by (auto simp: pvcq_join_finish_def pvcq_live_Some)
  moreover have "join_ok (pvcq_live s1)"
    by (rule join_ok_free [OF jok s1(3)]) (use assms(3) in simp_all)
  moreover have "blocked_threads (pvcq_live s1) = blocked_threads (pvcq_live s)"
    using s1(3) q by (auto simp: blocked_threads_def state_of_def)
  ultimately show ?thesis using s1(2) by (simp add: pvcq_ok_def pvcq_blocked_def)
qed

section \<open>Exit\<close>

text \<open>The call before the thread leaves: only the return value changes.\<close>

lemma pvcq_upthread_exit_inv:
  assumes inv: "pvcq_inv H s" and t: "tcbs (pvcq_live s) t = Some p"
  shows "\<exists>s'. pvcq_upthread_exit ret t s = Some s' \<and> pvcq_inv H s' \<and>
    tcbs (pvcq_live s') = (tcbs (pvcq_live s))(t \<mapsto> p\<lparr>tcb_retval := ret\<rparr>) \<and> zombie_list s' = zombie_list s"
proof -
  let ?s = "ext DestroyDtls (s\<lparr>tcbs := (tcbs s)(t \<mapsto> p\<lparr>tcb_retval := ret\<rparr>)\<rparr>)"
  have "pvcq_inv H ?s" "tcbs (pvcq_live ?s) = (tcbs (pvcq_live s))(t \<mapsto> p\<lparr>tcb_retval := ret\<rparr>)"
    using pvcq_inv_field [OF inv t, of ?s "p\<lparr>tcb_retval := ret\<rparr>"] pvcq_inv_queues_ok [OF inv] by simp_all
  moreover have "tcbs s t = Some p" using t by (simp add: pvcq_live_Some)
  ultimately show ?thesis by (simp add: pvcq_upthread_exit_def)
qed

lemma pvcq_exit_cb_detached:
  assumes pl: "platform_ok pl" and inv: "pvcq_inv H s" and t: "tcbs (pvcq_live s) t = Some p"
    and run: "tcb_state p = UPTH_RUNNING" and det: "tcb_detached p"
  shows "\<exists>s'. pvcq_pth_exit_cb ur pl t s = Some s' \<and> pvcq_inv H s' \<and>
    tcbs (pvcq_live s') = (tcbs (pvcq_live s))(t := None)"
proof -
  have "UPTH_EXITING \<noteq> UPTH_RUNNABLE" by simp
  from pvcq_stop_inv [OF inv t run this] obtain s1 where s1: "set_state t UPTH_EXITING s = Some s1"
    "pvcq_inv H s1" "tcbs (pvcq_live s1) = (tcbs (pvcq_live s))(t \<mapsto> p\<lparr>tcb_state := UPTH_EXITING\<rparr>)" by blast
  let ?s2 = "ext (UthreadCleanup t) s1" and ?p = "p\<lparr>tcb_state := UPTH_EXITING\<rparr>"
  have inv2: "pvcq_inv H ?s2" using s1(2) pvcq_inv_cong [of ?s2 s1 "H"] by simp
  have live2: "tcbs (pvcq_live ?s2) = tcbs (pvcq_live s1)" by (simp add: pvcq_live_tcbs)
  have t2: "tcbs (pvcq_live ?s2) t = Some ?p" using live2 s1(3) by simp
  from pvcq_free_inv [OF pl inv2 t2] obtain s3 where s3: "pvcq_upthread_free pl t ?s2 = Some s3"
    "pvcq_inv H s3" "tcbs (pvcq_live s3) = (tcbs (pvcq_live ?s2))(t := None)" by auto
  have "tcbs s1 t = Some ?p" using t2 by (simp add: pvcq_live_Some)
  then have "pvcq_pth_exit_cb ur pl t s = Some s3"
    using s1(1) s3(1) det by (simp add: pvcq_pth_exit_cb_def pvcq_generic_yield_def Let_def)
  with s3 live2 s1(3) show ?thesis by simp
qed

text \<open>A joinable thread exits: its slot holds its own address, and the joiner it found there is on
  the queue it prefers.\<close>

lemma pvcq_exit_cb_joinable:
  assumes ok: "pvcq_held H s" and t: "tcbs (pvcq_live s) t = Some p"
    and run: "tcb_state p = UPTH_RUNNING" and det: "\<not> tcb_detached p"
  shows "\<exists>s'. pvcq_pth_exit_cb pvcq_pth_thread_runnable pl t s = Some s' \<and> pvcq_inv H s' \<and>
    tcbs (pvcq_live s') t = Some (p\<lparr>tcb_state := UPTH_EXITING, tcb_joiner := Some t\<rparr>) \<and>
    (\<forall>w. tcb_joiner p = Some w \<longrightarrow> w \<noteq> t \<and> w \<in> pvcq_links s' \<and>
       (\<exists>q. tcbs (pvcq_live s) w = Some q \<and> tcb_state q = UPTH_BLK_JOINING \<and>
            tcbs (pvcq_live s') w = Some (q\<lparr>tcb_state := UPTH_RUNNABLE\<rparr>))) \<and>
    (\<forall>y. y \<noteq> t \<longrightarrow> tcb_joiner p \<noteq> Some y \<longrightarrow> tcbs (pvcq_live s') y = tcbs (pvcq_live s) y)"
proof -
  have inv: "pvcq_inv H s" and jok: "join_ok (pvcq_live s)" using ok by (simp_all add: pvcq_ok_def)
  have "UPTH_EXITING \<noteq> UPTH_RUNNABLE" by simp
  from pvcq_stop_inv [OF inv t run this] obtain s1 where s1: "set_state t UPTH_EXITING s = Some s1"
    "pvcq_inv H s1" "tcbs (pvcq_live s1) = (tcbs (pvcq_live s))(t \<mapsto> p\<lparr>tcb_state := UPTH_EXITING\<rparr>)" by blast
  let ?s2 = "ext (UthreadCleanup t) s1" and ?p = "p\<lparr>tcb_state := UPTH_EXITING\<rparr>"
  let ?q = "?p\<lparr>tcb_joiner := Some t\<rparr>"
  have inv2: "pvcq_inv H ?s2" using s1(2) pvcq_inv_cong [of ?s2 s1 "H"] by simp
  have live2: "tcbs (pvcq_live ?s2) = tcbs (pvcq_live s1)" by (simp add: pvcq_live_tcbs)
  have t2: "tcbs (pvcq_live ?s2) t = Some ?p" using live2 s1(3) by simp
  then have raw: "tcbs s1 t = Some ?p" by (simp add: pvcq_live_Some)
  let ?s3 = "?s2\<lparr>tcbs := (tcbs ?s2)(t \<mapsto> ?q)\<rparr>"
  have s3: "pvcq_inv H ?s3" "tcbs (pvcq_live ?s3) = (tcbs (pvcq_live s))(t \<mapsto> ?q)"
    using pvcq_inv_field [OF inv2 t2, of ?s3 ?q] pvcq_inv_queues_ok [OF inv2] live2 s1(3) by simp_all
  show ?thesis
  proof (cases "tcb_joiner p")
    case None
    then have "pvcq_pth_exit_cb pvcq_pth_thread_runnable pl t s = Some ?s3"
      using s1(1) raw det by (simp add: pvcq_pth_exit_cb_def pvcq_generic_yield_def Let_def)
    with s3 None show ?thesis by simp
  next
    case (Some w)
    have "joiner_of (pvcq_live s) t = Some w" "state_of (pvcq_live s) t \<noteq> Some UPTH_EXITING"
      using t run Some by (simp_all add: joiner_of_def state_of_def)
    then have "state_of (pvcq_live s) w = Some UPTH_BLK_JOINING" by (rule join_ok_live [OF jok])
    then obtain q where q: "tcbs (pvcq_live s) w = Some q" "tcb_state q = UPTH_BLK_JOINING"
      by (auto simp: state_of_def)
    then have wt: "w \<noteq> t" using t run by auto
    then have w3: "tcbs (pvcq_live ?s3) w = Some q" "wakeable (tcb_state q)" using q s3(2) by simp_all
    from pvcq_runnable_inv [OF s3(1) w3] q(2) obtain s4 where s4:
      "pvcq_pth_thread_runnable w ?s3 = Some s4" "pvcq_inv H s4" "w \<in> pvcq_links s4"
      "tcbs (pvcq_live s4) = (tcbs (pvcq_live ?s3))(w \<mapsto> q\<lparr>tcb_state := UPTH_RUNNABLE,
         tcb_preferred_vcq := tcb_preferred_vcq q\<rparr>)" by auto
    have "pvcq_pth_exit_cb pvcq_pth_thread_runnable pl t s = Some s4"
      using s1(1) raw det Some s4(1) by (simp add: pvcq_pth_exit_cb_def pvcq_generic_yield_def Let_def)
    moreover have "q\<lparr>tcb_state := UPTH_RUNNABLE, tcb_preferred_vcq := tcb_preferred_vcq q\<rparr> =
        q\<lparr>tcb_state := UPTH_RUNNABLE\<rparr>" by (cases q) simp
    ultimately show ?thesis using s4 s3(2) Some wt q by auto
  qed
qed

lemma pvcq_ok_exit_joinable:
  assumes ok: "pvcq_held H s" and t: "tcbs (pvcq_live s) t = Some p"
    and run: "tcb_state p = UPTH_RUNNING" and det: "\<not> tcb_detached p"
    and cb: "pvcq_pth_exit_cb pvcq_pth_thread_runnable pl t s = Some s'"
  shows "pvcq_held H s' \<and> pvcq_blocked s' = pvcq_blocked s"
proof -
  from pvcq_exit_cb_joinable [OF ok t run det, of pl] cb have e: "pvcq_inv H s'"
    "tcbs (pvcq_live s') t = Some (p\<lparr>tcb_state := UPTH_EXITING, tcb_joiner := Some t\<rparr>)"
    "\<And>w. tcb_joiner p = Some w \<Longrightarrow> w \<noteq> t \<and> (\<exists>q. tcbs (pvcq_live s) w = Some q \<and>
       tcb_state q = UPTH_BLK_JOINING \<and> tcbs (pvcq_live s') w = Some (q\<lparr>tcb_state := UPTH_RUNNABLE\<rparr>))"
    "\<And>y. y \<noteq> t \<Longrightarrow> tcb_joiner p \<noteq> Some y \<Longrightarrow> tcbs (pvcq_live s') y = tcbs (pvcq_live s) y"
    by auto
  have jok: "join_ok (pvcq_live s)" using ok by (simp add: pvcq_ok_def)
  have j: "joiner_of (pvcq_live s) t = tcb_joiner p" using t by (simp add: joiner_of_def)
  have st: "state_of (pvcq_live s') y = (if y = t then Some UPTH_EXITING
      else if joiner_of (pvcq_live s) t = Some y then Some UPTH_RUNNABLE else state_of (pvcq_live s) y)" for y
    using e(2) e(3) [of y] e(4) [of y] by (auto simp: state_of_def j)
  have "joiner_of (pvcq_live s') y = ((joiner_of (pvcq_live s))(t \<mapsto> t)) y" for y
    using e(2) e(3) [of y] e(4) [of y] by (cases "tcb_joiner p = Some y") (auto simp: joiner_of_def)
  then have jn: "joiner_of (pvcq_live s') = (joiner_of (pvcq_live s))(t \<mapsto> t)" by blast
  have "y \<in> detached_threads (pvcq_live s') \<longleftrightarrow> y \<in> detached_threads (pvcq_live s)" for y
    using t e(2) e(3) [of y] e(4) [of y]
    by (cases "y = t"; cases "tcb_joiner p = Some y") (auto simp: detached_threads_def)
  then have d: "detached_threads (pvcq_live s') = detached_threads (pvcq_live s)" by blast
  have "join_ok (pvcq_live s')"
    by (rule join_ok_exit [OF jok t _ det st jn d]) (simp add: run)
  moreover have "(state_of (pvcq_live s') y = Some UPTH_BLK_MUTEX) = (state_of (pvcq_live s) y = Some UPTH_BLK_MUTEX)" for y
    using st [of y] t run e(3) [of y] j by (auto simp: state_of_def)
  ultimately show ?thesis using e(1) by (simp add: pvcq_ok_def pvcq_blocked_def blocked_threads_def)
qed

lemma pvcq_ok_exit:
  assumes pl: "platform_ok pl" and ok: "pvcq_held H s" and "t \<in> pvcq_running s"
    and "pvcq_upthread_exit ret t s = Some s1"
    and cb: "pvcq_pth_exit_cb pvcq_pth_thread_runnable pl t s1 = Some s'"
  shows "pvcq_held H s' \<and> pvcq_blocked s' = pvcq_blocked s"
proof -
  have inv: "pvcq_inv H s" using ok by (simp add: pvcq_ok_def)
  from assms(3) obtain p where p: "tcbs (pvcq_live s) t = Some p" "tcb_state p = UPTH_RUNNING"
    by (elim pvcq_runningE)
  let ?p = "p\<lparr>tcb_retval := ret\<rparr>"
  from pvcq_upthread_exit_inv [OF inv p(1), of ret] assms(4) have s1: "pvcq_inv H s1"
    "tcbs (pvcq_live s1) = (tcbs (pvcq_live s))(t \<mapsto> ?p)" by auto
  have ok1: "pvcq_held H s1 \<and> pvcq_blocked s1 = pvcq_blocked s"
    by (rule pvcq_ok_neutral [OF ok p(1) s1]) (use p(2) in simp_all)
  have t1: "tcbs (pvcq_live s1) t = Some ?p" "tcb_state ?p = UPTH_RUNNING" using s1(2) p(2) by simp_all
  show ?thesis
  proof (cases "tcb_detached p")
    case True
    then have det: "tcb_detached ?p" by simp
    from pvcq_exit_cb_detached [OF pl s1(1) t1 det, of pvcq_pth_thread_runnable] cb have s': "pvcq_inv H s'"
      "tcbs (pvcq_live s') = (tcbs (pvcq_live s1))(t := None)" by auto
    have jok: "join_ok (pvcq_live s1)" using ok1 by (simp add: pvcq_ok_def)
    have "t \<in> detached_threads (pvcq_live s1)" using t1 det by (auto simp: detached_threads_def)
    then have "joiner_of (pvcq_live s1) t = None"
      using join_ok_detached [OF jok] by (cases "joiner_of (pvcq_live s1) t") auto
    then have "join_ok (pvcq_live s')"
      by (intro join_ok_free [OF jok s'(2)]) (use t1 in \<open>simp_all add: state_of_def\<close>)
    moreover have "blocked_threads (pvcq_live s') = blocked_threads (pvcq_live s1)"
      using s'(2) t1 by (auto simp: blocked_threads_def state_of_def)
    ultimately show ?thesis using s'(1) ok1 by (simp add: pvcq_ok_def pvcq_blocked_def)
  next
    case False
    then have "\<not> tcb_detached ?p" by simp
    from pvcq_ok_exit_joinable [OF conjunct1 [OF ok1] t1 this cb] ok1 show ?thesis by simp
  qed
qed

section \<open>Detach and settings\<close>

lemma pvcq_ok_detach:
  assumes ok: "pvcq_held H s" and x: "tcbs (pvcq_live s) x = Some q" and "tcb_joiner q = None"
    and "pvcq_upthread_detach x s = Some (r, s')"
  shows "pvcq_held H s' \<and> pvcq_blocked s' = pvcq_blocked s"
proof -
  have inv: "pvcq_inv H s" and jok: "join_ok (pvcq_live s)" using ok by (simp_all add: pvcq_ok_def)
  let ?q = "q\<lparr>tcb_detached := True\<rparr>"
  have "tcbs s x = Some q" using x by (simp add: pvcq_live_Some)
  then have s': "s' = s\<lparr>tcbs := (tcbs s)(x \<mapsto> ?q)\<rparr>" using assms(4) by (simp add: pvcq_upthread_detach_def)
  have inv': "pvcq_inv H s'" "tcbs (pvcq_live s') = (tcbs (pvcq_live s))(x \<mapsto> ?q)"
    using pvcq_inv_field [OF inv x, of s' ?q] pvcq_inv_queues_ok [OF inv] by (simp_all add: s')
  have "join_ok (pvcq_live s')" by (rule join_ok_detach [OF jok x inv'(2)]) (use assms(3) in simp_all)
  moreover have "blocked_threads (pvcq_live s') = blocked_threads (pvcq_live s)"
    using inv'(2) x by (auto simp: blocked_threads_def state_of_def)
  ultimately show ?thesis using inv'(1) by (simp add: pvcq_ok_def pvcq_blocked_def)
qed

text \<open>A setting leaves the control blocks and the queues alone.\<close>

lemma pvcq_ok_setting:
  assumes "pvcq_held H s" and "tcbs s' = tcbs s" and "zombie_list s' = zombie_list s"
    and "pvcq_queued s' = pvcq_queued s" and "max_vcores s' = max_vcores s" and "queues_ok s'"
  shows "pvcq_held H s' \<and> pvcq_blocked s' = pvcq_blocked s"
proof -
  have inv: "pvcq_inv H s" and jok: "join_ok (pvcq_live s)" using assms(1) by (simp_all add: pvcq_ok_def)
  have live: "tcbs (pvcq_live s') = tcbs (pvcq_live s)" using assms(2,3) by (simp add: pvcq_live_tcbs)
  have "pvcq_inv H s'"
    using pvcq_inv_cong [OF assms(2-5), of "H"] assms(6) pvcq_inv_queues_ok [OF inv] inv by simp
  with join_ok_cong [OF live] jok blocked_threads_cong [OF live] show ?thesis
    by (simp add: pvcq_ok_def pvcq_blocked_def)
qed

lemma pvcq_set_num_vcores_ok:
  assumes "pvcq_held H s" and "1 \<le> num"
  shows "pvcq_held H (pvcq_upthread_set_num_vcores num s) \<and>
    pvcq_blocked (pvcq_upthread_set_num_vcores num s) = pvcq_blocked s"
proof (rule pvcq_ok_setting [OF assms(1)])
  have "queues_ok s" using assms(1) by (simp add: pvcq_ok_def pvcq_inv_def)
  then show "queues_ok (pvcq_upthread_set_num_vcores num s)"
    using assms(2) by (auto simp: pvcq_upthread_set_num_vcores_def queues_ok_def max_vcores_def Let_def)
qed (simp_all add: pvcq_upthread_set_num_vcores_def pvcq_queued_def max_vcores_def Let_def)

end
