(* ===== verification/Pvcq_Contract.thy ===== *)
theory Pvcq_Contract
  imports Pvcq_Moves
begin

text \<open>
  Every step of the per-vcore-queue scheduler keeps its state sound, and the scheduler meets the
  contract of \<^verbatim>\<open>Runtime\<close>, from the state that its initialisation leaves.
\<close>

section \<open>All steps\<close>

lemma pvcq_moves_ok:
  assumes "pvcq_moves s s'" and "pvcq_held H s"
  shows "pvcq_held H s' \<and> pvcq_blocked s' = pvcq_blocked s"
  using assms
proof (induction rule: pvcq_moves.induct)
  case (pv_dispatch me s n rand_r t s1 s')
  then show ?case by (intro pvcq_ok_dispatch)
next
  case (pv_search me s n rand_r s')
  then show ?case by (intro pvcq_ok_search)
next
  case (pv_yields t s s')
  then show ?case by (intro pvcq_ok_yield)
next
  case (pv_syscall t s sysc s')
  then show ?case by (intro pvcq_ok_syscall)
next
  case (pv_sysdone s sysc t s')
  then show ?case by (intro pvcq_ok_sysdone)
next
  case (pv_creates pl s t mmap attr start arg r s')
  then show ?case by (intro pvcq_ok_create)
next
  case (pv_joins t s x q s')
  then show ?case by (intro pvcq_ok_join)
next
  case (pv_joined pl t s x r v s')
  then show ?case by (intro pvcq_ok_joined)
next
  case (pv_exits pl t s ret s1 s')
  then show ?case by (intro pvcq_ok_exit)
next
  case (pv_detaches s x q r s')
  then show ?case by (intro pvcq_ok_detach)
next
  case (pv_can_request s can)
  then show ?case
    by (intro pvcq_ok_setting)
      (simp_all add: pvcq_upthread_can_vcore_request_def pvcq_ok_def pvcq_inv_def pvcq_queued_def max_vcores_def)
next
  case (pv_can_steal s can)
  then show ?case
    by (intro pvcq_ok_setting)
      (simp_all add: pvcq_upthread_can_vcore_steal_def pvcq_ok_def pvcq_inv_def pvcq_queued_def max_vcores_def)
next
  case (pv_set_num num s)
  then show ?case by (intro pvcq_set_num_vcores_ok)
next
  case (pv_short_circuit s ss)
  then show ?case
    by (intro pvcq_ok_setting)
      (simp_all add: pvcq_upthread_short_circuit_yield_def pvcq_ok_def pvcq_inv_def pvcq_queued_def max_vcores_def)
qed

section \<open>The contract\<close>

text \<open>Parlib dispatching to \<^verbatim>\<open>upthread_sched_ops\<close> of this variant.\<close>

definition pvcq_runtime :: "pvcq runtime" where
  "pvcq_runtime = registered (pvcq_upthread_sched_ops pvcq_pth_thread_runnable) pvcq_links"

lemma pvcq_runtime_simps [simp]:
  "uthread_runnable pvcq_runtime = pvcq_pth_thread_runnable"
  "uthread_has_blocked pvcq_runtime = pvcq_pth_thread_has_blocked"
  "uthread_paused pvcq_runtime = pvcq_pth_thread_paused pvcq_pth_thread_runnable"
  "linked pvcq_runtime = pvcq_links"
  by (simp_all add: pvcq_runtime_def pvcq_upthread_sched_ops_def)

lemma pvcq_has_blocked_spec:
  assumes ok: "pvcq_held H s" and "t \<in> pvcq_running s"
  shows "\<exists>s'. pvcq_pth_thread_has_blocked t f s = Some s' \<and> pvcq_held H s' \<and>
    pvcq_running s' = pvcq_running s - {t} \<and> pvcq_blocked s' = insert t (pvcq_blocked s)"
proof -
  have inv: "pvcq_inv H s" and jok: "join_ok (pvcq_live s)" using ok by (simp_all add: pvcq_ok_def)
  from assms(2) obtain p where p: "tcbs (pvcq_live s) t = Some p" "tcb_state p = UPTH_RUNNING"
    by (elim pvcq_runningE)
  have "UPTH_BLK_MUTEX \<noteq> UPTH_RUNNABLE" by simp
  from pvcq_stop_inv [OF inv p this] obtain s1 where s1: "set_state t UPTH_BLK_MUTEX s = Some s1"
    "pvcq_inv H s1" "tcbs (pvcq_live s1) = (tcbs (pvcq_live s))(t \<mapsto> p\<lparr>tcb_state := UPTH_BLK_MUTEX\<rparr>)"
    by blast
  define s2 where "s2 = (if f = UTH_EXT_BLK_JUSTICE then ext (PrintfMsg ''For great justice!'') s1 else s1)"
  have "pvcq_pth_thread_has_blocked t f s = Some s2"
    using s1(1) by (simp add: pvcq_pth_thread_has_blocked_def pvcq_generic_yield_def s2_def)
  moreover have live: "tcbs (pvcq_live s2) = tcbs (pvcq_live s1)" by (simp add: s2_def pvcq_live_tcbs)
  have "pvcq_inv H s2" using s1(2) pvcq_inv_cong [of s2 s1 "H"] by (simp add: s2_def)
  moreover have upd: "tcbs (pvcq_live s2) = (tcbs (pvcq_live s))(t \<mapsto> p\<lparr>tcb_state := UPTH_BLK_MUTEX\<rparr>)"
    using live s1(3) by simp
  then have "join_ok (pvcq_live s2)" by (rule join_ok_neutral_upd [OF jok p(1)]) (use p(2) in simp_all)
  moreover have "pvcq_running s2 = pvcq_running s - {t}" "pvcq_blocked s2 = insert t (pvcq_blocked s)"
    using upd by (auto simp: pvcq_running_def pvcq_blocked_def blocked_threads_def state_of_def)
  ultimately show ?thesis by (simp add: pvcq_ok_def)
qed

lemma pvcq_runnable_spec:
  assumes ok: "pvcq_held H s" and "t \<in> pvcq_blocked s"
  shows "\<exists>s'. pvcq_pth_thread_runnable t s = Some s' \<and> pvcq_held H s' \<and> pvcq_running s' = pvcq_running s \<and>
    pvcq_blocked s' = pvcq_blocked s - {t} \<and> t \<in> pvcq_links s'"
proof -
  have inv: "pvcq_inv H s" and jok: "join_ok (pvcq_live s)" using ok by (simp_all add: pvcq_ok_def)
  from assms(2) obtain p where p: "tcbs (pvcq_live s) t = Some p" "tcb_state p = UPTH_BLK_MUTEX"
    by (auto simp: pvcq_blocked_def blocked_threads_def state_of_def)
  from pvcq_runnable_inv [OF inv p(1)] p(2) obtain s' where s': "pvcq_pth_thread_runnable t s = Some s'"
    "pvcq_inv H s'" "t \<in> pvcq_links s'"
    "tcbs (pvcq_live s') = (tcbs (pvcq_live s))(t \<mapsto> p\<lparr>tcb_state := UPTH_RUNNABLE,
       tcb_preferred_vcq := tcb_preferred_vcq p\<rparr>)" by auto
  have "join_ok (pvcq_live s')" by (rule join_ok_neutral_upd [OF jok p(1) s'(4)]) (use p(2) in simp_all)
  moreover have "pvcq_running s' = pvcq_running s" "pvcq_blocked s' = pvcq_blocked s - {t}"
    using s'(4) p by (auto simp: pvcq_running_def pvcq_blocked_def blocked_threads_def state_of_def)
  ultimately show ?thesis using s' by (simp add: pvcq_ok_def)
qed

lemma pvcq_paused_spec:
  assumes ok: "pvcq_held H s" and "t \<in> pvcq_running s"
  shows "\<exists>s'. pvcq_pth_thread_paused pvcq_pth_thread_runnable t s = Some s' \<and> pvcq_held H s' \<and>
    pvcq_running s' = pvcq_running s - {t} \<and> pvcq_blocked s' = pvcq_blocked s \<and> t \<in> pvcq_links s'"
proof -
  have inv: "pvcq_inv H s" using ok by (simp add: pvcq_ok_def)
  from assms(2) obtain p where p: "tcbs (pvcq_live s) t = Some p" "tcb_state p = UPTH_RUNNING"
    by (elim pvcq_runningE)
  from pvcq_stop_and_go [OF inv p, of UPTH_BLK_PAUSED] obtain s' where s':
    "pvcq_pth_thread_paused pvcq_pth_thread_runnable t s = Some s'" "pvcq_inv H s'"
    "tcbs (pvcq_live s') = (tcbs (pvcq_live s))(t \<mapsto> p\<lparr>tcb_state := UPTH_RUNNABLE\<rparr>)" "t \<in> pvcq_links s'"
    by (auto simp: pvcq_pth_thread_paused_def pvcq_generic_yield_def)
  have "pvcq_held H s' \<and> pvcq_blocked s' = pvcq_blocked s"
    by (rule pvcq_ok_neutral [OF ok p(1) s'(2,3)]) (use p(2) in simp_all)
  moreover have "pvcq_running s' = pvcq_running s - {t}"
    using s'(3) by (auto simp: pvcq_running_def state_of_def)
  ultimately show ?thesis using s'(1,4) by blast
qed

lemma pvcq_blocked_idle:
  assumes "pvcq_held H s" and "t \<in> pvcq_blocked s"
  shows "t \<notin> pvcq_links s" and "t \<notin> pvcq_running s"
proof -
  have st: "state_of (pvcq_live s) t = Some UPTH_BLK_MUTEX"
    using assms(2) by (simp add: pvcq_blocked_def blocked_threads_def)
  have "\<forall>t \<in> pvcq_links s. state_of (pvcq_live s) t = Some UPTH_RUNNABLE"
    using assms(1) unfolding pvcq_ok_def pvcq_inv_def by blast
  with st show "t \<notin> pvcq_links s" by auto
  from st show "t \<notin> pvcq_running s" by (simp add: pvcq_running_def)
qed

text \<open>The contract is met whatever threads are in hand.\<close>

lemma pvcq_meets_contract:
  "two_level_scheduler pvcq_runtime (pvcq_held H) pvcq_running pvcq_blocked pvcq_moves"
proof (unfold_locales, goal_cases)
  case (1 s t)
  then show ?case using pvcq_blocked_idle by simp
next
  case (2 s t)
  then show ?case using pvcq_blocked_idle by blast
next
  case (3 s t f)
  then show ?case using pvcq_has_blocked_spec by simp
next
  case (4 s t)
  then show ?case using pvcq_runnable_spec by simp
next
  case (5 s t)
  then show ?case using pvcq_paused_spec by simp
next
  case (6 s s')
  then show ?case using pvcq_moves_ok by blast
qed

interpretation pvcq_sched: two_level_scheduler pvcq_runtime pvcq_ok pvcq_running pvcq_blocked pvcq_moves
  by (rule pvcq_meets_contract)

interpretation pvcq_held_sched: two_level_scheduler pvcq_runtime "pvcq_held H" pvcq_running pvcq_blocked pvcq_moves
  for H
  by (rule pvcq_meets_contract)

end
