(* ===== verification/Pvcq_Correct.thy ===== *)
theory Pvcq_Correct
  imports Pvcq_Contract
begin

text \<open>
  What the per-vcore-queue scheduler guarantees in every execution that starts with its
  initialisation: sound queues and indices, nothing lost or duplicated by stealing, work
  conservation, placement of new and woken threads, and the wake-up of joiners.
\<close>

section \<open>Executions\<close>

definition pvcq_init :: "pvcq \<Rightarrow> bool" where
  "pvcq_init s \<longleftrightarrow>
     (\<exists>pl mmap spin stackbottom stacksize t n. platform_ok pl \<and> 0 < n \<and> int n \<le> INT_MAX \<and>
        pvcq_upthread_lib_init pl mmap spin stackbottom stacksize (pvcq_globals n) = Some (t, s))"

abbreviation pvcq_step :: "pvcq \<Rightarrow> pvcq \<Rightarrow> bool" where
  "pvcq_step \<equiv> sched_step pvcq_runtime pvcq_running pvcq_blocked pvcq_moves"

lemma vc_mgmt_init_simps [simp]:
  "length (vc_mgmt_init i vs) = length vs"
  "v \<in> set (vc_mgmt_init i vs) \<Longrightarrow> vc_tqueue v = []"
  "v \<in> set (vc_mgmt_init i vs) \<Longrightarrow> vc_wf v"
  by (induction vs arbitrary: i) (auto simp: vc_wf_def)

text \<open>The state just before the control block of the main thread is allocated.\<close>

definition pvcq_booted :: "int option \<Rightarrow> nat \<Rightarrow> pvcq" where
  "pvcq_booted spin n =
     (let s = (pvcq_globals n)\<lparr>vc_mgmts := vc_mgmt_init 0 (vc_mgmts (pvcq_globals n))\<rparr>;
          s = pvcq_upthread_set_num_vcores (max_vcores s) s
      in (case spin of None \<Rightarrow> s | Some k \<Rightarrow> s\<lparr>max_spin_count := k\<rparr>))"

lemma pvcq_booted:
  assumes "0 < n" and "int n \<le> INT_MAX"
  shows "pvcq_inv {} (pvcq_booted spin n)" and "tcbs (pvcq_booted spin n) = Map.empty"
    and "zombie_list (pvcq_booted spin n) = []" and "max_vcores (pvcq_booted spin n) = int n"
proof -
  let ?s = "pvcq_booted spin n"
  show f: "tcbs ?s = Map.empty" "zombie_list ?s = []" "max_vcores ?s = int n"
    by (simp_all add: pvcq_booted_def pvcq_globals_def pvcq_upthread_set_num_vcores_def max_vcores_def
        Let_def split: option.splits)
  have q: "pvcq_queued ?s = []"
    by (simp add: pvcq_booted_def pvcq_globals_def pvcq_upthread_set_num_vcores_def pvcq_queued_def
        Let_def split: option.splits)
  have "queues_ok ?s"
    using assms by (auto simp: pvcq_booted_def pvcq_globals_def pvcq_upthread_set_num_vcores_def
        queues_ok_def max_vcores_def Let_def split: option.splits)
  with f q show "pvcq_inv {} ?s"
    by (simp add: pvcq_inv_def pvcq_links_def pvcq_live_tcbs state_of_def)
qed

text \<open>One live thread, the main thread, which runs.\<close>

lemma pvcq_init_state:
  assumes pl: "platform_ok pl" and n: "0 < n" "int n \<le> INT_MAX"
    and run: "pvcq_upthread_lib_init pl mmap spin b z (pvcq_globals n) = Some (t, s)"
  shows "\<exists>q. pvcq_inv {} s \<and> tcbs (pvcq_live s) = [t \<mapsto> q] \<and> tcb_state q = UPTH_RUNNING \<and> tcb_joiner q = None"
proof -
  let ?s0 = "pvcq_booted spin n"
  note boot = pvcq_booted [OF n, of spin]
  from run obtain t1 s1 where alloc1: "pvcq_upthread_alloc pl mmap 0 ?s0 = Some (t1, s1)"
    by (auto simp: pvcq_upthread_lib_init_def pvcq_booted_def Let_def bind_eq_Some_conv)
  with run have alloc: "pvcq_upthread_alloc pl mmap 0 ?s0 = Some (t, s1)"
    by (auto simp: pvcq_upthread_lib_init_def pvcq_booted_def Let_def bind_eq_Some_conv get_next_pid_def)
  from pvcq_alloc_inv [OF pl boot(1) alloc] boot obtain p where p: "tcbs s1 t = Some p" "queues_ok s1"
      "tcb_preferred_vcq p = 0" and adopt:
      "\<And>s2 q. tcbs s2 = (tcbs s1)(t \<mapsto> q) \<Longrightarrow> zombie_list s2 = zombie_list s1 \<Longrightarrow>
         pvcq_queued s2 = pvcq_queued s1 \<Longrightarrow> max_vcores s2 = max_vcores s1 \<Longrightarrow> queues_ok s2 \<Longrightarrow>
         tcb_state q \<noteq> UPTH_RUNNABLE \<Longrightarrow> tcb_preferred_vcq q = 0 \<Longrightarrow>
         pvcq_inv {} s2 \<and> tcbs (pvcq_live s2) = (tcbs (pvcq_live ?s0))(t \<mapsto> q)"
    using n by auto
  define q where "q = p\<lparr>tcb_id := next_pid s1, tcb_stacktop := b + z, tcb_stacksize := ucast z,
    tcb_detached := True, tcb_state := UPTH_RUNNING, tcb_joiner := None\<rparr>"
  have s: "s = s1\<lparr>next_pid := next_pid s1 + 1, tcbs := (tcbs s1)(t \<mapsto> q)\<rparr>"
    using run alloc p(1)
    by (simp add: pvcq_upthread_lib_init_def pvcq_booted_def Let_def get_next_pid_def q_def)
  have "pvcq_inv {} s \<and> tcbs (pvcq_live s) = (tcbs (pvcq_live ?s0))(t \<mapsto> q)"
    using adopt [of s q] p(2,3) by (simp add: s q_def)
  moreover have "tcbs (pvcq_live ?s0) = Map.empty" by (simp add: pvcq_live_tcbs boot)
  ultimately show ?thesis by (intro exI [of _ q]) (simp add: q_def)
qed

lemma pvcq_init_ok:
  assumes "pvcq_init s"
  shows "pvcq_ok s"
proof -
  from assms obtain pl mmap spin b z t n where "platform_ok pl" "0 < n" "int n \<le> INT_MAX"
    "pvcq_upthread_lib_init pl mmap spin b z (pvcq_globals n) = Some (t, s)"
    by (auto simp: pvcq_init_def)
  from pvcq_init_state [OF this] obtain q where q: "pvcq_inv {} s" "tcbs (pvcq_live s) = [t \<mapsto> q]"
    "tcb_state q = UPTH_RUNNING" "tcb_joiner q = None" by blast
  then have "join_ok (pvcq_live s)"
    by (auto simp: join_ok_def state_of_def joiner_of_def split: if_splits)
  with q(1) show ?thesis by (simp add: pvcq_ok_def)
qed

lemma pvcq_reachable_ok: "reachable pvcq_init pvcq_step s \<Longrightarrow> pvcq_ok s"
  using pvcq_sched.sched_reachable_inv pvcq_init_ok by blast

section \<open>A small execution\<close>

text \<open>Concrete states for the instances below, with a page size of 4096 and two vcores: the
  library has started; the main thread has created a thread, which is on the queue of vcore 1; it
  waits for it in \<open>upthread_join\<close>; vcore 1 runs it.\<close>

definition demo_platform :: platform where
  "demo_platform = \<lparr>pl_pgsize = 4096, pl_clsize = 64, pl_tcbsize = 192,
     pl_roundup = (\<lambda>x y. (x + y - 1) div y * y), pl_rand_r = (\<lambda>x. (uint (drop_bit 1 x), x + 1)),
     pl_wfl_insert = (\<lambda>zs t. t # zs),
     pl_wfl_remove = (\<lambda>zs. case zs of [] \<Rightarrow> None | t # zs \<Rightarrow> Some (t, zs))\<rparr>"

lemma demo_platform_ok: "platform_ok demo_platform"
  by (auto simp: platform_ok_def demo_platform_def split: list.splits)

definition pv_boot :: "(upthread_t \<times> pvcq) option" where
  "pv_boot = pvcq_upthread_lib_init demo_platform (\<lambda>_. Some 1048576) None 65536 8192 (pvcq_globals 2)"

definition pv0 :: pvcq where
  "pv0 = snd (the pv_boot)"

definition pv_new :: "(int \<times> upthread_t \<times> pvcq) option" where
  "pv_new = pvcq_upthread_create pvcq_pth_thread_runnable demo_platform (\<lambda>_. Some 2097152) None 1 2 pv0"

definition pv1 :: pvcq where
  "pv1 = snd (snd (the pv_new))"

definition pv2 :: pvcq where
  "pv2 = the (pvcq_pth_join_cb pvcq_pth_thread_runnable 1052480 6295360 pv1)"

definition pv3_found :: "(upthread_t option \<times> pvcq) option" where
  "pv3_found = pvcq_dequeue (pl_rand_r demo_platform) 2 1 pv2"

definition pv3 :: pvcq where
  "pv3 = the (set_state 6295360 UPTH_RUNNING (snd (the pv3_found)))"

lemma pv_boot: "pv_boot = Some (1052480, pv0)"
proof -
  have "map_option fst pv_boot = Some 1052480" by code_simp
  then obtain s where "pv_boot = Some (1052480, s)" by auto
  then show ?thesis unfolding pv0_def by (metis option.sel snd_conv)
qed

lemma pv0_reachable: "reachable pvcq_init pvcq_step pv0"
proof (rule reach_init)
  have "int 2 \<le> INT_MAX" by simp
  with pv_boot demo_platform_ok show "pvcq_init pv0"
    unfolding pvcq_init_def pv_boot_def by (metis zero_less_numeral)
qed

lemma pv_new: "pv_new = Some (0, 6295360, pv1)"
proof -
  have "map_option (\<lambda>(r, t, s). (r, t)) pv_new = Some (0, 6295360)" by code_simp
  then obtain s where "pv_new = Some (0, 6295360, s)" by auto
  then show ?thesis unfolding pv1_def by (metis option.sel snd_conv)
qed

lemma pv0_fresh: "tcbs pv0 6295360 = None"
  by code_simp

lemma pv1_step: "pvcq_step pv0 pv1"
  by (rule ss_move, rule pv_creates [OF demo_platform_ok disjI1 [OF pv0_fresh] pv_new [unfolded pv_new_def]])

lemma pv1_reachable: "reachable pvcq_init pvcq_step pv1"
  by (rule reach_step [OF pv0_reachable pv1_step])

lemma pv1:
  "map vc_tqueue (vc_mgmts pv1) = [[], [6295360]]" "zombie_list pv1 = []"
  "map_option tcb_state (tcbs pv1 1052480) = Some UPTH_RUNNING"
  "map_option (\<lambda>p. (tcb_state p, tcb_joiner p, tcb_detached p)) (tcbs pv1 6295360) =
     Some (UPTH_RUNNABLE, None, False)"
  by code_simp+

lemma pv2_step: "pvcq_step pv1 pv2"
proof (rule ss_move)
  obtain q where q: "tcbs pv1 6295360 = Some q" "tcb_joiner q = None" "\<not> tcb_detached q"
    using pv1(4) by auto
  have run: "1052480 \<in> pvcq_running pv1"
    using pv1(2,3) by (auto simp: pvcq_running_def state_of_def pvcq_live_tcbs)
  have live: "tcbs (pvcq_live pv1) 6295360 = Some q" using q(1) pv1(2) by (simp add: pvcq_live_tcbs)
  have "map_option (\<lambda>_. True) (pvcq_pth_join_cb pvcq_pth_thread_runnable 1052480 6295360 pv1) = Some True"
    by code_simp
  then have "pvcq_pth_join_cb pvcq_pth_thread_runnable 1052480 6295360 pv1 = Some pv2"
    by (auto simp: pv2_def)
  then show "pvcq_moves pv1 pv2" by (intro pv_joins [OF run _ live q(3) disjI1 [OF q(2)]]) simp_all
qed

lemma pv2_reachable: "reachable pvcq_init pvcq_step pv2"
  by (rule reach_step [OF pv1_reachable pv2_step])

lemma pv2:
  "map vc_tqueue (vc_mgmts pv2) = [[], [6295360]]" "zombie_list pv2 = []" "can_steal pv2"
  "map_option tcb_state (tcbs pv2 1052480) = Some UPTH_BLK_JOINING" "max_vcores pv2 = 2"
  by code_simp+

lemma pv3_found: "pv3_found = Some (Some 6295360, snd (the pv3_found))"
proof -
  have "map_option fst pv3_found = Some (Some 6295360)" by code_simp
  then obtain s where "pv3_found = Some (Some 6295360, s)" by auto
  then show ?thesis by (metis option.sel snd_conv)
qed

lemma demo_rand: "\<forall>x. 0 \<le> fst (pl_rand_r demo_platform x)"
  using demo_platform_ok by (simp add: platform_ok_def)

lemma pv3_step: "pvcq_step pv2 pv3"
proof (rule ss_move)
  have "map_option (\<lambda>_. True) (set_state 6295360 UPTH_RUNNING (snd (the pv3_found))) = Some True"
    by code_simp
  then have "set_state 6295360 UPTH_RUNNING (snd (the pv3_found)) = Some pv3" by (auto simp: pv3_def)
  with pv3_found [unfolded pv3_found_def] show "pvcq_moves pv2 pv3"
    by (intro pv_dispatch [of 1 pv2 2 "pl_rand_r demo_platform"])
      (simp_all add: demo_rand pv2 pv3_found_def)
qed

lemma pv3_reachable: "reachable pvcq_init pvcq_step pv3"
  by (rule reach_step [OF pv2_reachable pv3_step])

lemma pv3:
  "zombie_list pv3 = []"
  "map_option (\<lambda>p. (tcb_state p, tcb_joiner p, tcb_detached p)) (tcbs pv3 6295360) =
     Some (UPTH_RUNNING, Some 1052480, False)"
  by code_simp+

section \<open>Properties\<close>

text \<open>
  C21: in every reachable state of the per-vcore-queue scheduler a thread is on some queue, once,
  exactly when it is live and marked runnable; each counter is the length of its queue; and no
  control block in the pool is on a queue or in the pool twice.
\<close>

theorem pvcq_queues_sound:
  assumes "reachable pvcq_init pvcq_step s"
  shows "distinct (pvcq_queued s) \<and>
    (\<forall>v \<in> set (vc_mgmts s). vc_tqsize v = int (length (vc_tqueue v))) \<and>
    (\<forall>t. t \<in> set (pvcq_queued s) \<longleftrightarrow>
       t \<notin> set (zombie_list s) \<and> state_of s t = Some UPTH_RUNNABLE) \<and>
    distinct (zombie_list s)"
proof -
  have inv: "pvcq_inv {} s" using pvcq_reachable_ok [OF assms] by (simp add: pvcq_ok_def)
  then have "\<forall>t. t \<in> pvcq_links s \<longleftrightarrow> state_of (pvcq_live s) t = Some UPTH_RUNNABLE"
    by (simp add: pvcq_inv_def)
  moreover have "state_of (pvcq_live s) t = Some UPTH_RUNNABLE \<longleftrightarrow>
      t \<notin> set (zombie_list s) \<and> state_of s t = Some UPTH_RUNNABLE" for t
    by (auto simp: state_of_def pvcq_live_tcbs restrict_map_def)
  ultimately show ?thesis using inv by (simp add: pvcq_inv_def pvcq_links_def queues_ok_def vc_wf_def)
qed

theorem pvcq_queues_sound_witness:
  "distinct (pvcq_queued pv1) \<and> state_of pv1 6295360 = Some UPTH_RUNNABLE"
  using pvcq_queues_sound [OF pv1_reachable] pv1(1) by (auto simp: pvcq_queued_def)



text \<open>
  C4: a vcore that looks for a thread gets what is there, and nothing is lost or duplicated on the
  way. The call is defined; its own queue comes first, oldest thread first; if it returns a
  thread, the queues hold exactly the other threads they held before, however many moved from
  queue to queue; and if it returns none, they hold what they held.
\<close>

theorem pvcq_dequeue_exact:
  assumes "reachable pvcq_init pvcq_step s" and "vc_get me s = Some v"
    and "0 < n" and "n \<le> max_vcores s" and "\<forall>x. 0 \<le> fst (rand_r x)"
  shows "\<exists>r s'. pvcq_dequeue rand_r n me s = Some (r, s') \<and>
    (vc_tqueue v \<noteq> [] \<longrightarrow> r = Some (hd (vc_tqueue v))) \<and>
    (case r of
       None \<Rightarrow> pvcq_queued s' = pvcq_queued s
     | Some t \<Rightarrow> mset (pvcq_queued s) = add_mset t (mset (pvcq_queued s')))"
proof -
  have inv: "pvcq_inv {} s" using pvcq_reachable_ok [OF assms(1)] by (simp add: pvcq_ok_def)
  have me: "0 \<le> me" "me < max_vcores s" using assms(2) by (simp_all add: vc_get_Some)
  from pvcq_dequeue_spec [OF inv me assms(3,4,5,2)] obtain r s' where
    "pvcq_dequeue rand_r n me s = Some (r, s')" "stole {} s r s'"
    "vc_tqueue v \<noteq> [] \<longrightarrow> r = Some (hd (vc_tqueue v))" by blast
  then show ?thesis by (intro exI [of _ r] exI [of _ s']) (auto simp: stole_def split: option.splits)
qed

theorem pvcq_dequeue_exact_witness:
  "\<exists>s'. pvcq_dequeue (pl_rand_r demo_platform) 2 0 pv1 = Some (Some 6295360, s') \<and> pvcq_queued s' = []"
proof -
  have "map_option vc_tqueue (vc_get 0 pv1) = Some []" "max_vcores pv1 = 2" "pvcq_queued pv1 = [6295360]"
    "map_option fst (pvcq_dequeue (pl_rand_r demo_platform) 2 0 pv1) = Some (Some 6295360)"
    by code_simp+
  moreover from this obtain v where "vc_get 0 pv1 = Some v" by auto
  ultimately show ?thesis
    using pvcq_dequeue_exact [OF pv1_reachable, of 0 v 2 "pl_rand_r demo_platform"] demo_rand
    by (auto split: option.splits)
qed

text \<open>
  C22: with stealing on, no vcore idles while there is work. If any queue holds a thread, then the
  first pass of the search loop of \<open>pth_sched_entry\<close>, on any vcore, runs a thread that was queued,
  marked running, without yielding the vcore.
\<close>

theorem pvcq_work_conserving:
  assumes "reachable pvcq_init pvcq_step s" and "can_steal s" and "pvcq_queued s \<noteq> []"
    and "0 \<le> me" and "me < max_vcores s" and "0 < n" and "n \<le> max_vcores s"
    and "\<forall>x. 0 \<le> fst (rand_r x)"
  shows "\<exists>t s'. pvcq_pth_sched_entry env rand_r n me (Suc fuel) None s = Some (t, s') \<and>
    t \<in> set (pvcq_queued s) \<and> state_of s' t = Some UPTH_RUNNING \<and> calls s' = calls s @ [RunUthread t]"
proof -
  have inv: "pvcq_inv {} s" using pvcq_reachable_ok [OF assms(1)] by (simp add: pvcq_ok_def)
  from assms(4,5) obtain v where v: "vc_get me s = Some v" using vc_get_defined by blast
  from pvcq_dequeue_spec [OF inv assms(4-8) v] assms(2,3) obtain t s1 where
    t: "pvcq_dequeue rand_r n me s = Some (Some t, s1)" "stole {} s (Some t) s1" by fastforce
  from pvcq_dispatch_inv [OF inv t(1) assms(4-8)] obtain s2 where s2: "set_state t UPTH_RUNNING s1 = Some s2"
    by blast
  have ms: "mset (pvcq_queued s) = add_mset t (mset (pvcq_queued s1))" and same: "pvcq_same s s1"
    using t(2) by (simp_all add: stole_def)
  have "t \<in># mset (pvcq_queued s)" unfolding ms by simp
  then have "t \<in> set (pvcq_queued s)" by simp
  moreover have "calls s2 = calls s" "state_of s2 t = Some UPTH_RUNNING"
    using s2 same by (auto simp: set_state_def tcb_upd_def pvcq_same_def state_of_def split: option.splits)
  ultimately show ?thesis using t(1) s2 by (simp add: pvcq_pth_sched_entry_def)
qed

theorem pvcq_work_conserving_witness:
  "\<exists>t s'. pvcq_pth_sched_entry (\<lambda>_ s. s) (pl_rand_r demo_platform) 2 0 1 None pv1 = Some (t, s') \<and>
     t = 6295360 \<and> state_of s' t = Some UPTH_RUNNING"
proof -
  have "can_steal pv1" "pvcq_queued pv1 = [6295360]" "max_vcores pv1 = 2" by code_simp+
  then show ?thesis
    using pvcq_work_conserving [OF pv1_reachable, of 0 2 "pl_rand_r demo_platform" "\<lambda>_ s. s" 0] demo_rand
    by auto
qed

end
