(* ===== verification/Pvcq_Placement.thy ===== *)
theory Pvcq_Placement
  imports Pvcq_Correct
begin

text \<open>
  Where the per-vcore-queue scheduler puts threads: what exactly a theft moves, the round-robin
  placement of new threads, the end of the queue a woken thread goes to; and the life of a control
  block from exit to reuse.
\<close>

section \<open>What a theft moves\<close>

lemma tdequeue_exact:
  assumes "tdequeue me i s = Some (Some t, s1)" and "vc_get i s = Some v"
  shows "\<exists>q p. vc_tqueue v = t # q \<and> tcbs s t = Some p \<and>
    tcbs s1 = (tcbs s)(t \<mapsto> p\<lparr>tcb_preferred_vcq := me\<rparr>) \<and>
    (\<forall>j. vc_get j s1 = (if j = i then Some (v\<lparr>vc_tqueue := q, vc_tqsize := vc_tqsize v - 1\<rparr>)
                        else vc_get j s))"
proof -
  from assms obtain q where q: "vc_tqueue v = t # q"
    by (cases "vc_tqueue v") (auto simp: tdequeue_def bind_eq_Some_conv split: if_splits)
  let ?w = "v\<lparr>vc_tqueue := q, vc_tqsize := vc_tqsize v - 1\<rparr>"
  from assms q have "tcb_upd t (\<lambda>p. p\<lparr>tcb_preferred_vcq := me\<rparr>) (vc_put i ?w s) = Some s1"
    by (auto simp: tdequeue_def bind_eq_Some_conv split: if_splits)
  then obtain p where p: "tcbs s t = Some p"
    "s1 = (vc_put i ?w s)\<lparr>tcbs := (tcbs s)(t \<mapsto> p\<lparr>tcb_preferred_vcq := me\<rparr>)\<rparr>"
    by (auto simp: tcb_upd_def split: option.splits)
  with q vc_get_put [OF assms(2), of _ ?w] show ?thesis by simp
qed

lemma enqueue_exact:
  assumes "tcbs s t = Some p" and "tcb_state p \<noteq> UPTH_CREATED" and "t \<notin> pvcq_links s"
    and "vc_get (tcb_preferred_vcq p) s = Some v" and "pvcq_enqueue t False s = Some (i, s')"
  shows "i = tcb_preferred_vcq p \<and> (\<forall>j. vc_get j s' = (if j = tcb_preferred_vcq p
    then Some (v\<lparr>vc_tqueue := vc_tqueue v @ [t], vc_tqsize := vc_tqsize v + 1\<rparr>) else vc_get j s))"
proof -
  let ?s = "s\<lparr>tcbs := (tcbs s)(t \<mapsto> p\<lparr>tcb_state := UPTH_RUNNABLE\<rparr>)\<rparr>"
  let ?w = "v\<lparr>vc_tqueue := vc_tqueue v @ [t], vc_tqsize := vc_tqsize v + 1\<rparr>"
  have v: "vc_get (tcb_preferred_vcq p) ?s = Some v" using assms(4) by simp
  have "pvcq_enqueue t False s = Some (tcb_preferred_vcq p, vc_put (tcb_preferred_vcq p) ?w ?s)"
    using assms(1-3) v by (simp add: pvcq_enqueue_def Let_def)
  with assms(5) have "i = tcb_preferred_vcq p" "s' = vc_put (tcb_preferred_vcq p) ?w ?s" by auto
  with vc_get_put [OF v, of _ ?w] show ?thesis by simp
qed

lemma steal_loop_exact:
  assumes "pvcq_inv H s" and "0 \<le> me" and "me < max_vcores s" and "i \<noteq> me"
    and "vc_get i s = Some v" and "vc_get me s = Some u"
  shows "\<exists>s' v' u'. steal_loop me i n s = Some s' \<and>
    vc_get i s' = Some v' \<and> vc_tqueue v' = drop n (vc_tqueue v) \<and>
    vc_get me s' = Some u' \<and> vc_tqueue u' = vc_tqueue u @ take n (vc_tqueue v) \<and>
    (\<forall>j. j \<noteq> i \<longrightarrow> j \<noteq> me \<longrightarrow> vc_get j s' = vc_get j s)"
  using assms
proof (induction n arbitrary: s u v)
  case (Suc n)
  from tdequeue_spec [OF Suc.prems(1-3,5)] show ?case
  proof (elim disjE exE conjE)
    assume "vc_tqueue v = []" "tdequeue me i s = Some (None, s)"
    with Suc.prems show ?thesis by simp
  next
    fix t q s1
    assume t: "vc_tqueue v = t # q" "tdequeue me i s = Some (Some t, s1)" "pvcq_same s s1" "t \<notin> H"
      "pvcq_inv (insert t H) s1"
    let ?v = "v\<lparr>vc_tqueue := q, vc_tqsize := vc_tqsize v - 1\<rparr>"
    from tdequeue_exact [OF t(2) Suc.prems(5)] t(1) obtain p where p: "tcbs s t = Some p"
      "tcbs s1 = (tcbs s)(t \<mapsto> p\<lparr>tcb_preferred_vcq := me\<rparr>)"
      "\<And>j. vc_get j s1 = (if j = i then Some ?v else vc_get j s)" by auto
    let ?p = "p\<lparr>tcb_preferred_vcq := me\<rparr>"
    from enqueue_in_hand [OF t(5,4), of False] obtain k s2 where s2:
      "pvcq_enqueue t False s1 = Some (k, s2)" "pvcq_inv H s2" "pvcq_same s1 s2" by blast
    have "t \<in> pvcq_links s1 \<union> insert t H" by simp
    with t(5) obtain p' where "tcbs s1 t = Some p'" "tcb_state p' = UPTH_RUNNABLE"
      by (elim pvcq_runnable_tcb) blast
    with p(2) have pst: "tcb_state ?p \<noteq> UPTH_CREATED" "tcbs s1 t = Some ?p" by auto
    have nl: "t \<notin> pvcq_links s1" using t(5) by (simp add: pvcq_inv_def)
    have "vc_get (tcb_preferred_vcq ?p) s1 = Some u" using p(3) Suc.prems(4,6) by simp
    from enqueue_exact [OF pst(2,1) nl this s2(1)]
    have g: "\<And>j. vc_get j s2 = (if j = me then Some (u\<lparr>vc_tqueue := vc_tqueue u @ [t],
        vc_tqsize := vc_tqsize u + 1\<rparr>) else vc_get j s1)" by simp
    have m: "max_vcores s2 = max_vcores s" using pvcq_same_max t(3) s2(3) by simp
    have "vc_get i s2 = Some ?v" using g p(3) Suc.prems(4) by simp
    moreover have "vc_get me s2 = Some (u\<lparr>vc_tqueue := vc_tqueue u @ [t], vc_tqsize := vc_tqsize u + 1\<rparr>)"
      using g by simp
    ultimately obtain s3 v' u' where "steal_loop me i n s2 = Some s3" "vc_get i s3 = Some v'"
      "vc_tqueue v' = drop n q" "vc_get me s3 = Some u'" "vc_tqueue u' = (vc_tqueue u @ [t]) @ take n q"
      "\<forall>j. j \<noteq> i \<longrightarrow> j \<noteq> me \<longrightarrow> vc_get j s3 = vc_get j s2"
      using Suc.IH [OF s2(2) Suc.prems(2) _ Suc.prems(4)] Suc.prems(3) m by fastforce
    then show ?thesis using t(1,2) s2(1) g p(3) by simp
  qed
qed simp

text \<open>
  C29: a theft takes half. A vcore that steals from a queue of \<open>n\<close> threads gets its oldest thread to
  run and moves the next \<open>(n + 1) div 2 - 1\<close>, in order, to the end of its own queue; the younger
  half stays where it is and no other queue is touched. From an empty queue it gets nothing.
\<close>

theorem pvcq_steal_half:
  assumes "reachable pvcq_init pvcq_step s" and "i \<noteq> me"
    and "vc_get i s = Some v" and "vc_get me s = Some u"
  shows "if vc_tqueue v = [] then steal_threads me i s = Some (None, s)
    else \<exists>s' v' u'. steal_threads me i s = Some (Some (hd (vc_tqueue v)), s') \<and>
      vc_get i s' = Some v' \<and> vc_tqueue v' = drop ((length (vc_tqueue v) + 1) div 2) (vc_tqueue v) \<and>
      vc_get me s' = Some u' \<and>
      vc_tqueue u' = vc_tqueue u @ take ((length (vc_tqueue v) + 1) div 2 - 1) (tl (vc_tqueue v)) \<and>
      (\<forall>j. j \<noteq> i \<longrightarrow> j \<noteq> me \<longrightarrow> vc_get j s' = vc_get j s)"
proof -
  have inv: "pvcq_inv {} s" using pvcq_reachable_ok [OF assms(1)] by (simp add: pvcq_ok_def)
  have me: "0 \<le> me" "me < max_vcores s" using assms(4) by (simp_all add: vc_get_Some)
  have wf: "vc_tqsize v = int (length (vc_tqueue v))"
    using inv vc_get_in [OF assms(3)] by (simp add: pvcq_inv_def queues_ok_def vc_wf_def)
  from tdequeue_spec [OF inv me assms(3)] show ?thesis
  proof (elim disjE exE conjE)
    assume "vc_tqueue v = []" "tdequeue me i s = Some (None, s)"
    with wf assms(3) show ?thesis by (simp add: steal_threads_def sdiv_pos)
  next
    fix t q s1
    assume t: "vc_tqueue v = t # q" "tdequeue me i s = Some (Some t, s1)" "pvcq_same s s1"
      "pvcq_inv (insert t {}) s1"
    let ?n = "(length (vc_tqueue v) + 1) div 2"
    let ?v = "v\<lparr>vc_tqueue := q, vc_tqsize := vc_tqsize v - 1\<rparr>"
    have num: "(vc_tqsize v + 1) sdiv 2 = int ?n" "?n = Suc (?n - 1)"
      using wf t(1) by (simp_all add: sdiv_pos zdiv_int)
    from tdequeue_exact [OF t(2) assms(3)] t(1)
    have g: "\<And>j. vc_get j s1 = (if j = i then Some ?v else vc_get j s)" by auto
    have m: "max_vcores s1 = max_vcores s" by (rule pvcq_same_max [OF t(3)])
    have "vc_get i s1 = Some ?v" "vc_get me s1 = Some u" using g assms(2,4) by simp_all
    from steal_loop_exact [OF t(4) me(1) _ assms(2) this, of "?n - 1"] me(2) m obtain s2 v' u' where s2:
      "steal_loop me i (?n - 1) s1 = Some s2" "vc_get i s2 = Some v'" "vc_tqueue v' = drop (?n - 1) q"
      "vc_get me s2 = Some u'" "vc_tqueue u' = vc_tqueue u @ take (?n - 1) q"
      "\<forall>j. j \<noteq> i \<longrightarrow> j \<noteq> me \<longrightarrow> vc_get j s2 = vc_get j s1" by auto
    have "nat (int ?n - 1) = ?n - 1" "int ?n \<noteq> 0" using num(2) by linarith+
    then have "steal_threads me i s = Some (Some t, s2)"
      using assms(3) t(2) s2(1) num(1) by (simp add: steal_threads_def)
    moreover have "drop ?n (vc_tqueue v) = drop (?n - 1) q"
      using t(1) num(2) by (metis drop_Suc_Cons)
    ultimately show ?thesis using s2 t(1) g by auto
  qed
qed

text \<open>A queue of two threads, none on the queue of the thief.\<close>

definition pv_two :: pvcq where
  "pv_two = snd (snd (the (pvcq_upthread_create pvcq_pth_thread_runnable demo_platform
     (\<lambda>_. Some 16777216) None 1 2 (pvcq_upthread_set_num_vcores 2 pv1))))"

lemma pvcq_reach_move:
  "reachable pvcq_init pvcq_step s \<Longrightarrow> pvcq_moves s s' \<Longrightarrow> reachable pvcq_init pvcq_step s'"
  by (blast intro: reach_step ss_move)

lemma pv_created:
  assumes "reachable pvcq_init pvcq_step s" and "tcbs s t = None"
    and "pvcq_upthread_create pvcq_pth_thread_runnable demo_platform mmap None 1 2 s = Some (r, t, s')"
  shows "reachable pvcq_init pvcq_step s'"
  by (rule pvcq_reach_move [OF assms(1) pv_creates [OF demo_platform_ok disjI1 [OF assms(2)] assms(3)]])

lemma pv_two_reachable: "reachable pvcq_init pvcq_step pv_two"
proof -
  let ?s = "pvcq_upthread_set_num_vcores 2 pv1"
  let ?c = "pvcq_upthread_create pvcq_pth_thread_runnable demo_platform (\<lambda>_. Some 16777216) None 1 2 ?s"
  have r: "reachable pvcq_init pvcq_step ?s"
    by (rule pvcq_reach_move [OF pv1_reachable pv_set_num]) simp
  have "map_option (\<lambda>(r, t, s). (r, t)) ?c = Some (0, 20975360)" by code_simp
  then obtain s where s: "?c = Some (0, 20975360, s)" by auto
  have "tcbs ?s 20975360 = None" by code_simp
  from pv_created [OF r this s] show ?thesis unfolding pv_two_def s by simp
qed

lemma pv_two: "map vc_tqueue (vc_mgmts pv_two) = [[], [6295360, 20975360]]"
  by code_simp

theorem pvcq_steal_half_witness:
  "\<exists>s'. steal_threads 0 1 pv_two = Some (Some 6295360, s') \<and>
     (\<exists>v'. vc_get 1 s' = Some v' \<and> vc_tqueue v' = [20975360])"
proof -
  have "map_option vc_tqueue (vc_get 1 pv_two) = Some [6295360, 20975360]"
    "map_option vc_tqueue (vc_get 0 pv_two) = Some []" by code_simp+
  then obtain v u where "vc_get 1 pv_two = Some v" "vc_get 0 pv_two = Some u"
    "vc_tqueue v = [6295360, 20975360]" by auto
  with pvcq_steal_half [OF pv_two_reachable _ this(1,2)] show ?thesis by auto
qed

section \<open>Placement of new threads\<close>

text \<open>The queues that \<open>n\<close> calls in a row choose.\<close>

fun next_ids :: "nat \<Rightarrow> pvcq \<Rightarrow> (int list \<times> pvcq) option" where
  "next_ids 0 s = Some ([], s)"
| "next_ids (Suc n) s = do {
     (i, s) \<leftarrow> get_next_queue_id_basic (\<lambda>_ s. s) 1 0 s;
     (is, s) \<leftarrow> next_ids n s;
     Some (i # is, s)
   }"

lemma next_id_in_range:
  assumes "0 \<le> next_queue_id s" "next_queue_id s < nr_vcores s" "nr_vcores s \<le> INT_MAX"
  shows "get_next_queue_id_basic (\<lambda>_ s. s) 1 0 s =
    Some (next_queue_id s, s\<lparr>next_queue_id := (next_queue_id s + 1) mod nr_vcores s\<rparr>)"
proof -
  have "(if next_queue_id s + 1 = nr_vcores s then 0 else next_queue_id s + 1) =
      (next_queue_id s + 1) mod nr_vcores s"
    using assms by (cases "next_queue_id s + 1 = nr_vcores s") simp_all
  with assms show ?thesis by (simp add: next_queue_pass_def int_inc_def)
qed

lemma next_ids_in_range:
  assumes "0 \<le> next_queue_id s" "next_queue_id s < nr_vcores s" "nr_vcores s \<le> INT_MAX"
  shows "\<exists>s'. next_ids n s = Some (map (\<lambda>k. (next_queue_id s + int k) mod nr_vcores s) [0..<n], s')"
  using assms
proof (induction n arbitrary: s)
  case (Suc n)
  let ?n = "(next_queue_id s + 1) mod nr_vcores s"
  let ?s = "s\<lparr>next_queue_id := ?n\<rparr>"
  have r: "0 \<le> next_queue_id ?s" "next_queue_id ?s < nr_vcores ?s" "nr_vcores ?s \<le> INT_MAX"
    using Suc.prems by simp_all
  from Suc.IH [OF r] obtain s' where
    s': "next_ids n ?s = Some (map (\<lambda>k. (?n + int k) mod nr_vcores s) [0..<n], s')" by auto
  have "(?n + int k) mod nr_vcores s = (next_queue_id s + int (Suc k)) mod nr_vcores s" for k
    by (simp add: mod_add_left_eq add.assoc)
  then have "map (\<lambda>k. (?n + int k) mod nr_vcores s) [0..<n] =
      map (\<lambda>k. (next_queue_id s + int k) mod nr_vcores s) [1..<Suc n]"
    by (simp add: map_Suc_upt [symmetric] del: upt_Suc)
  moreover have "next_queue_id s mod nr_vcores s = next_queue_id s" using Suc.prems by simp
  moreover have "next_ids (Suc n) s = Some (next_queue_id s # map (\<lambda>k. (?n + int k) mod nr_vcores s) [0..<n], s')"
    using s' next_id_in_range [OF Suc.prems] by (simp del: get_next_queue_id_basic.simps One_nat_def)
  ultimately show ?case by (simp add: upt_conv_Cons del: upt_Suc next_ids.simps)
qed simp

text \<open>
  New threads are spread round robin. From any reachable state, \<open>n\<close> threads created in a row
  go to \<open>n\<close> consecutive queues, modulo the number of vcores in use, starting with
  \<open>next_queue_id\<close>.
\<close>

theorem pvcq_round_robin:
  assumes "reachable pvcq_init pvcq_step s"
  shows "\<exists>s'. next_ids n s = Some (map (\<lambda>k. (next_queue_id s + int k) mod nr_vcores s) [0..<n], s')"
proof -
  have "queues_ok s" using pvcq_reachable_ok [OF assms] by (simp add: pvcq_ok_def pvcq_inv_def)
  then show ?thesis by (intro next_ids_in_range) (auto simp: queues_ok_def)
qed

theorem pvcq_round_robin_witness: "\<exists>s'. next_ids 4 pv0 = Some ([1, 0, 1, 0], s')"
proof -
  have "next_queue_id pv0 = 1" "nr_vcores pv0 = 2" by code_simp+
  with pvcq_round_robin [OF pv0_reachable, of 4] show ?thesis by (simp add: eval_nat_numeral)
qed

text \<open>
  \<open>upthread_set_num_vcores\<close> does not check its argument. After a call with 0 or less, new
  threads are sent to the queues 0, 1, 2 and so on without ever wrapping around, and the queue of
  number \<open>max_vcores\<close>, which does not exist, is chosen after that many creations.
\<close>

theorem pvcq_set_num_vcores_unchecked:
  assumes "num \<le> 0" and "0 < max_vcores s" and "int n < INT_MAX"
  shows "\<exists>s'. next_ids n (pvcq_upthread_set_num_vcores num s) = Some (map int [0..<n], s') \<and>
    (max_vcores s \<le> int n \<longrightarrow> vc_get (int n) s' = None)"
proof -
  let ?s = "\<lambda>k. s\<lparr>nr_vcores := num, next_queue_id := int k\<rparr>"
  have run: "next_ids n (?s k) = Some (map int [k..<k + n], ?s (k + n))" if "int (k + n) < INT_MAX" for k
    using that
  proof (induction n arbitrary: k)
    case (Suc n)
    have "get_next_queue_id_basic (\<lambda>_ s. s) 1 0 (?s k) = Some (int k, ?s (Suc k))"
      using Suc.prems assms(1) by (simp add: next_queue_pass_def int_inc_def)
    with Suc.IH [of "Suc k"] Suc.prems show ?case
      by (simp add: upt_conv_Cons del: get_next_queue_id_basic.simps One_nat_def)
  qed simp
  have "pvcq_upthread_set_num_vcores num s = ?s 0"
    using assms(1,2) by (simp add: pvcq_upthread_set_num_vcores_def max_vcores_def Let_def)
  with run [of 0] assms(3) show ?thesis by (simp add: vc_get_def max_vcores_def)
qed

theorem pvcq_set_num_vcores_unchecked_witness:
  "\<exists>s'. next_ids 3 (pvcq_upthread_set_num_vcores 0 pv0) = Some ([0, 1, 2], s') \<and> vc_get 3 s' = None"
proof -
  have "max_vcores pv0 = 2" by code_simp
  with pvcq_set_num_vcores_unchecked [of 0 pv0 3] show ?thesis by (simp add: eval_nat_numeral)
qed

end
