(* ===== verification/Pvcq_Life.thy ===== *)
theory Pvcq_Life
  imports Pvcq_Placement
begin

text \<open>
  The life of a thread under the per-vcore-queue scheduler: the queue it starts on, the end of the
  queue it returns to when it is woken, its join and exit, and the reuse of its control block.
\<close>

section \<open>Creation\<close>

text \<open>Allocation leaves the placement state and the threads on the queues alone.\<close>

lemma pvcq_alloc_frame:
  assumes "pvcq_upthread_alloc pl mmap n s = Some (t, s1)"
  shows "next_queue_id s1 = next_queue_id s \<and> nr_vcores s1 = nr_vcores s \<and>
    map_option vc_tqueue (vc_get j s1) = map_option vc_tqueue (vc_get j s)"
proof (cases "pl_wfl_remove pl (zombie_list s)")
  case None
  with assms obtain c sr q where sr: "rand_vcore (pl_rand_r pl) (max_vcores s) 0 s = Some (c, sr)"
    "s1 = sr\<lparr>tcbs := (tcbs sr)(t \<mapsto> q)\<rparr>"
    by (auto simp: pvcq_upthread_alloc_def Let_def bind_eq_Some_conv)
  from sr(1) obtain v where v: "vc_get 0 s = Some v" by (auto simp: rand_vcore_def bind_eq_Some_conv)
  with sr(1) obtain seed where "sr = vc_put 0 (v\<lparr>vc_rseed := seed\<rparr>) s"
    by (cases "pl_rand_r pl (vc_rseed v)") (auto simp: rand_vcore_def split: if_splits)
  with sr(2) vc_get_put [OF v, of j] v show ?thesis by simp
next
  case (Some x)
  with assms show ?thesis
    by (cases x) (auto simp: pvcq_upthread_alloc_def vc_get_def max_vcores_def)
qed

lemma pvcq_create_split:
  assumes "pvcq_upthread_create ur pl mmap attr start arg s = Some (r, t, s')"
  shows "\<exists>n s1 p q s2. pvcq_upthread_alloc pl mmap n s = Some (t, s1) \<and> tcbs s1 t = Some p \<and>
    tcb_state q = UPTH_CREATED \<and> tcb_stacksize q = tcb_stacksize p \<and> tcb_stacktop q = tcb_stacktop p \<and>
    tcbs s2 = (tcbs s1)(t \<mapsto> q) \<and> vc_mgmts s2 = vc_mgmts s1 \<and> next_queue_id s2 = next_queue_id s1 \<and>
    nr_vcores s2 = nr_vcores s1 \<and> zombie_list s2 = zombie_list s1 \<and> ur t s2 = Some s' \<and> r = 0"
proof -
  define n where "n = (case attr of None \<Rightarrow> UPTHREAD_STACK_SIZE (pl_pgsize pl)
      | Some a \<Rightarrow> if attr_stacksize a \<noteq> 0 then attr_stacksize a else UPTHREAD_STACK_SIZE (pl_pgsize pl))"
  from assms obtain t0 s1 where a0: "pvcq_upthread_alloc pl mmap n s = Some (t0, s1)"
    unfolding pvcq_upthread_create_def n_def [symmetric] Let_def by (auto simp: bind_eq_Some_conv)
  have t0: "t0 = t"
    using assms a0 unfolding pvcq_upthread_create_def n_def [symmetric] Let_def
    by (auto simp: bind_eq_Some_conv get_next_pid_def)
  have "\<exists>p. tcbs s1 t = Some p"
    using assms a0 t0 unfolding pvcq_upthread_create_def n_def [symmetric] Let_def
    by (auto simp: bind_eq_Some_conv get_next_pid_def tcb_upd_def split: option.splits)
  then obtain p where p: "tcbs s1 t = Some p" ..
  define q where "q = p\<lparr>tcb_state := UPTH_CREATED, tcb_id := next_pid s1,
    tcb_detached := (case attr of None \<Rightarrow> False | Some a \<Rightarrow> attr_detachstate a = UPTHREAD_CREATE_DETACHED),
    tcb_joiner := None, tcb_start_routine := start, tcb_arg := arg\<rparr>"
  obtain s2 where "ur t s2 = Some s'" "tcbs s2 = (tcbs s1)(t \<mapsto> q)" "vc_mgmts s2 = vc_mgmts s1"
      "next_queue_id s2 = next_queue_id s1" "nr_vcores s2 = nr_vcores s1" "zombie_list s2 = zombie_list s1" "r = 0"
    using assms a0 t0 p unfolding pvcq_upthread_create_def n_def [symmetric] Let_def
    by (auto simp: bind_eq_Some_conv get_next_pid_def q_def)
  with a0 t0 p show ?thesis
    by (intro exI [of _ n] exI [of _ s1] exI [of _ p] exI [of _ q] exI [of _ s2]) (simp add: q_def)
qed

lemma runnable_created:
  assumes ok: "queues_ok s" and p: "tcbs s t = Some p" "tcb_state p = UPTH_CREATED" and t: "t \<notin> pvcq_links s"
    and v: "vc_get (next_queue_id s) s = Some v" and run: "pvcq_pth_thread_runnable t s = Some s'"
  shows "next_queue_id s' = (next_queue_id s + 1) mod nr_vcores s \<and> nr_vcores s' = nr_vcores s \<and>
    (\<exists>w. vc_get (next_queue_id s) s' = Some w \<and> vc_tqueue w = vc_tqueue v @ [t]) \<and>
    tcbs s' t = Some (p\<lparr>tcb_state := UPTH_RUNNABLE, tcb_preferred_vcq := next_queue_id s\<rparr>)"
proof -
  let ?i = "next_queue_id s" and ?n = "(next_queue_id s + 1) mod nr_vcores s"
  let ?w = "v\<lparr>vc_tqueue := vc_tqueue v @ [t], vc_tqsize := vc_tqsize v + 1\<rparr>"
  let ?q = "p\<lparr>tcb_state := UPTH_RUNNABLE, tcb_preferred_vcq := ?i\<rparr>"
  let ?s1 = "s\<lparr>tcbs := (tcbs s)(t \<mapsto> p\<lparr>tcb_state := UPTH_RUNNABLE\<rparr>)\<rparr>"
  let ?s = "?s1\<lparr>next_queue_id := ?n, tcbs := (tcbs s)(t \<mapsto> ?q)\<rparr>"
  have "get_next_queue_id_basic (\<lambda>_ s. s) 1 0 ?s1 = Some (?i, ?s1\<lparr>next_queue_id := ?n\<rparr>)"
    using next_id_in_range [of ?s1] ok by (simp add: queues_ok_def)
  then have "pvcq_enqueue t False s = Some (?i, vc_put ?i ?w ?s)"
    using p t v by (simp add: pvcq_enqueue_def Let_def del: get_next_queue_id_basic.simps One_nat_def)
  then have "s' = (if can_adjust_vcores s then ext (VcoreRequestSpecific ?i) (vc_put ?i ?w ?s)
      else vc_put ?i ?w ?s)"
    using run p by (auto simp: pvcq_pth_thread_runnable_def)
  moreover have "vc_get ?i ?s = Some v" using v by (simp add: vc_get_def max_vcores_def split: if_splits)
  from vc_get_put [OF this, of ?i ?w] have "vc_get ?i (vc_put ?i ?w ?s) = Some ?w" by simp
  ultimately show ?thesis by (simp add: ext_def vc_put_def vc_get_def max_vcores_def split: if_splits)
qed

text \<open>
  A new thread starts at the end of the queue whose turn it is, marked runnable, and the turn
  passes to the next vcore in use; the call reports success.
\<close>

theorem pvcq_create_placed:
  assumes "reachable pvcq_init pvcq_step s" and "platform_ok pl"
    and "tcbs s t = None \<or> t \<in> set (zombie_list s)"
    and "pvcq_upthread_create pvcq_pth_thread_runnable pl mmap attr start arg s = Some (r, t, s')"
  shows "r = 0 \<and> next_queue_id s' = (next_queue_id s + 1) mod nr_vcores s \<and>
    state_of s' t = Some UPTH_RUNNABLE \<and>
    (\<exists>v w. vc_get (next_queue_id s) s = Some v \<and> vc_get (next_queue_id s) s' = Some w \<and>
       vc_tqueue w = vc_tqueue v @ [t])"
proof -
  have inv: "pvcq_inv {} s" using pvcq_reachable_ok [OF assms(1)] by (simp add: pvcq_ok_def)
  from pvcq_create_split [OF assms(4)] obtain n s1 p q s2 where
    c: "pvcq_upthread_alloc pl mmap n s = Some (t, s1)" "tcb_state q = UPTH_CREATED"
      "tcbs s2 = (tcbs s1)(t \<mapsto> q)" "vc_mgmts s2 = vc_mgmts s1" "next_queue_id s2 = next_queue_id s1"
      "nr_vcores s2 = nr_vcores s1" "zombie_list s2 = zombie_list s1"
      "pvcq_pth_thread_runnable t s2 = Some s'" "r = 0" by blast
  have same: "pvcq_queued s2 = pvcq_queued s1" "max_vcores s2 = max_vcores s1" "\<And>j. vc_get j s2 = vc_get j s1"
    using c(4) by (simp_all add: pvcq_queued_def max_vcores_def vc_get_def)
  from pvcq_alloc_inv [OF assms(2) inv c(1) assms(3)] have a: "max_vcores s1 = max_vcores s" "queues_ok s1"
    "\<And>s2 q. tcbs s2 = (tcbs s1)(t \<mapsto> q) \<Longrightarrow> zombie_list s2 = zombie_list s1 \<Longrightarrow>
       pvcq_queued s2 = pvcq_queued s1 \<Longrightarrow> max_vcores s2 = max_vcores s1 \<Longrightarrow> queues_ok s2 \<Longrightarrow>
       tcb_state q = UPTH_CREATED \<Longrightarrow> pvcq_inv {} s2 \<and> tcbs (pvcq_live s2) = (tcbs (pvcq_live s))(t \<mapsto> q)"
    by auto
  have ok2: "queues_ok s2" using a(2) c(4-6) same(2) by (simp add: queues_ok_def)
  from a(3) [OF c(3,7) same(1,2) ok2 c(2)] have inv2: "pvcq_inv {} s2" "tcbs (pvcq_live s2) t = Some q" by simp_all
  have t2: "t \<notin> pvcq_links s2" by (rule pvcq_inv_not_linked [OF inv2]) (simp add: c(2))
  let ?i = "next_queue_id s"
  have "0 \<le> ?i" "?i < max_vcores s" using inv by (auto simp: pvcq_inv_def queues_ok_def)
  then obtain v where v: "vc_get ?i s = Some v" using vc_get_defined by blast
  note f = pvcq_alloc_frame [OF c(1), of ?i]
  obtain v2 where v2: "vc_get ?i s2 = Some v2" "vc_tqueue v2 = vc_tqueue v"
    using f v same(3) by (cases "vc_get ?i s1") auto
  have i2: "next_queue_id s2 = ?i" "nr_vcores s2 = nr_vcores s" using f c(5,6) by simp_all
  have "tcbs s2 t = Some q" by (simp add: c(3))
  from runnable_created [OF ok2 this c(2) t2 _ c(8), of v2] v2 i2 v c(9) show ?thesis
    by (auto simp: state_of_def)
qed

theorem pvcq_create_placed_witness:
  "next_queue_id pv1 = 0 \<and> state_of pv1 6295360 = Some UPTH_RUNNABLE \<and>
   (\<exists>w. vc_get 1 pv1 = Some w \<and> vc_tqueue w = [6295360])"
proof -
  have "next_queue_id pv0 = 1" "nr_vcores pv0 = 2" "map_option vc_tqueue (vc_get 1 pv0) = Some []"
    by code_simp+
  with pvcq_create_placed [OF pv0_reachable demo_platform_ok disjI1 [OF pv0_fresh] pv_new [unfolded pv_new_def]]
  show ?thesis by auto
qed

section \<open>Waking\<close>

text \<open>
  A thread that is woken goes to the queue it prefers, that of the vcore it last ran on: to its
  head after a system call, so that it runs next there, and to its tail otherwise. No other thread
  is moved.
\<close>

theorem pvcq_wake_place:
  assumes "reachable pvcq_init pvcq_step s" and "tcbs s t = Some p" and "t \<notin> set (zombie_list s)"
    and "wakeable (tcb_state p)" and "tcb_state p \<noteq> UPTH_CREATED"
  shows "\<exists>s' v w. pvcq_pth_thread_runnable t s = Some s' \<and> state_of s' t = Some UPTH_RUNNABLE \<and>
    vc_get (tcb_preferred_vcq p) s = Some v \<and> vc_get (tcb_preferred_vcq p) s' = Some w \<and>
    vc_tqueue w = (if tcb_state p = UPTH_BLK_SYSC then t # vc_tqueue v else vc_tqueue v @ [t]) \<and>
    mset (pvcq_queued s') = add_mset t (mset (pvcq_queued s))"
proof -
  have inv: "pvcq_inv {} s" using pvcq_reachable_ok [OF assms(1)] by (simp add: pvcq_ok_def)
  have live: "tcbs (pvcq_live s) t = Some p" using assms(2,3) by (simp add: pvcq_live_Some)
  from pvcq_inv_pref [OF inv live assms(5)] obtain v where v: "vc_get (tcb_preferred_vcq p) s = Some v"
    using vc_get_defined by blast
  from pvcq_runnable_inv [OF inv live assms(4)] assms(5) v obtain s' w where s':
    "pvcq_pth_thread_runnable t s = Some s'" "vc_get (tcb_preferred_vcq p) s' = Some w"
    "vc_tqueue w = (if tcb_state p = UPTH_BLK_SYSC then t # vc_tqueue v else vc_tqueue v @ [t])"
    "mset (pvcq_queued s') = add_mset t (mset (pvcq_queued s))"
    "tcbs (pvcq_live s') = (tcbs (pvcq_live s))(t \<mapsto> p\<lparr>tcb_state := UPTH_RUNNABLE,
       tcb_preferred_vcq := tcb_preferred_vcq p\<rparr>)" by auto
  have "tcbs (pvcq_live s') t = Some (p\<lparr>tcb_state := UPTH_RUNNABLE, tcb_preferred_vcq := tcb_preferred_vcq p\<rparr>)"
    using s'(5) by simp
  then have "state_of s' t = Some UPTH_RUNNABLE" by (auto simp: pvcq_live_Some state_of_def)
  with s' v show ?thesis by blast
qed

text \<open>The main thread sleeps in a system call while its vcore has other work.\<close>

definition pv_sys :: pvcq where
  "pv_sys = the (pvcq_pth_blockon_syscall 1052480 77 pv1)"

lemma pv_sys_reachable: "reachable pvcq_init pvcq_step pv_sys"
proof -
  have "map_option (\<lambda>_. True) (pvcq_pth_blockon_syscall 1052480 77 pv1) = Some True" by code_simp
  then have "pvcq_pth_blockon_syscall 1052480 77 pv1 = Some pv_sys" by (auto simp: pv_sys_def)
  moreover have "1052480 \<in> pvcq_running pv1"
    using pv1(2,3) by (auto simp: pvcq_running_def state_of_def pvcq_live_tcbs)
  ultimately show ?thesis by (intro pvcq_reach_move [OF pv1_reachable pv_syscall])
qed

theorem pvcq_wake_place_witness:
  "\<exists>s' v w. pvcq_pth_thread_runnable 1052480 pv_sys = Some s' \<and> vc_get 0 pv_sys = Some v \<and>
     vc_get 0 s' = Some w \<and> vc_tqueue w = 1052480 # vc_tqueue v"
proof -
  have "map_option (\<lambda>p. (tcb_state p, tcb_preferred_vcq p)) (tcbs pv_sys 1052480) = Some (UPTH_BLK_SYSC, 0)"
    "zombie_list pv_sys = []" by code_simp+
  then obtain p where "tcbs pv_sys 1052480 = Some p" "tcb_state p = UPTH_BLK_SYSC" "tcb_preferred_vcq p = 0"
    "zombie_list pv_sys = []" by auto
  with pvcq_wake_place [OF pv_sys_reachable, of 1052480 p] show ?thesis by fastforce
qed

section \<open>Join and exit\<close>



text \<open>
  The exit of a joinable thread is defined in every reachable state and leaves the block behind
  in state \<open>UPTH_EXITING\<close>; a thread that waits for it is queued; and the second half of the join
  then returns 0 and the exit value and hands the block to the pool, unless the pool is full.
\<close>

theorem pvcq_exit_wakes_joiner:
  assumes "reachable pvcq_init pvcq_step s" and "platform_ok pl" and "t \<in> pvcq_running s"
    and "tcbs s t = Some p" and "\<not> tcb_detached p"
  shows "\<exists>s1 s2 s3. pvcq_upthread_exit ret t s = Some s1 \<and>
    pvcq_pth_exit_cb pvcq_pth_thread_runnable pl t s1 = Some s2 \<and> state_of s2 t = Some UPTH_EXITING \<and>
    (\<forall>w. tcb_joiner p = Some w \<longrightarrow> w \<in> set (pvcq_queued s2)) \<and>
    pvcq_join_finish pl t s2 = Some (0, ret, s3) \<and>
    (length (zombie_list s2) < 1000 \<longrightarrow> t \<in> set (zombie_list s3))"
proof -
  have ok: "pvcq_ok s" by (rule pvcq_reachable_ok [OF assms(1)])
  then have inv: "pvcq_inv {} s" by (simp add: pvcq_ok_def)
  from assms(3,4) have p: "tcbs (pvcq_live s) t = Some p" "tcb_state p = UPTH_RUNNING"
    by (auto elim: pvcq_runningE)
  let ?p = "p\<lparr>tcb_retval := ret\<rparr>"
  from pvcq_upthread_exit_inv [OF inv p(1), of ret] obtain s1 where s1: "pvcq_upthread_exit ret t s = Some s1"
    "pvcq_inv {} s1" "tcbs (pvcq_live s1) = (tcbs (pvcq_live s))(t \<mapsto> ?p)" by blast
  have ok1: "pvcq_ok s1" using pvcq_ok_neutral [OF ok p(1) s1(2,3)] p(2) by simp
  have t1: "tcbs (pvcq_live s1) t = Some ?p" "tcb_state ?p = UPTH_RUNNING" "\<not> tcb_detached ?p"
    using s1(3) p(2) assms(5) by simp_all
  from pvcq_exit_cb_joinable [OF ok1 t1, of pl] obtain s2 where
    s2: "pvcq_pth_exit_cb pvcq_pth_thread_runnable pl t s1 = Some s2" "pvcq_inv {} s2"
      "tcbs (pvcq_live s2) t = Some (?p\<lparr>tcb_state := UPTH_EXITING, tcb_joiner := Some t\<rparr>)"
      "\<forall>w. tcb_joiner ?p = Some w \<longrightarrow> w \<in> pvcq_links s2" by blast
  let ?q = "?p\<lparr>tcb_state := UPTH_EXITING, tcb_joiner := Some t\<rparr>"
  have "tcb_state ?q \<noteq> UPTH_RUNNABLE" by simp
  from pvcq_free_inv [OF assms(2) s2(2,3) this] obtain s3 where s3: "pvcq_upthread_free pl t s2 = Some s3"
    "length (zombie_list s2) < 1000 \<longrightarrow> t \<in> set (zombie_list s3)" by blast
  have raw: "tcbs s2 t = Some ?q" using s2(3) by (simp add: pvcq_live_Some)
  then have "pvcq_join_finish pl t s2 = Some (0, ret, s3)" using s3(1) by (simp add: pvcq_join_finish_def)
  with s1(1) s2(1,4) s3(2) raw show ?thesis by (auto simp: state_of_def pvcq_links_def)
qed

theorem pvcq_exit_wakes_joiner_witness:
  "\<exists>s1 s2 s3. pvcq_upthread_exit 42 6295360 pv3 = Some s1 \<and>
    pvcq_pth_exit_cb pvcq_pth_thread_runnable demo_platform 6295360 s1 = Some s2 \<and>
    1052480 \<in> set (pvcq_queued s2) \<and> pvcq_join_finish demo_platform 6295360 s2 = Some (0, 42, s3)"
proof -
  obtain p where p: "tcbs pv3 6295360 = Some p" "tcb_state p = UPTH_RUNNING" "tcb_joiner p = Some 1052480"
    "\<not> tcb_detached p" using pv3(2) by auto
  then have "6295360 \<in> pvcq_running pv3" by (simp add: pvcq_running_def state_of_def pvcq_live_tcbs pv3(1))
  from pvcq_exit_wakes_joiner [OF pv3_reachable demo_platform_ok this p(1,4), of 42] p(3) show ?thesis by blast
qed

section \<open>Reuse of control blocks\<close>

text \<open>
  A block from the pool keeps the stack it was made with. While the pool is not empty, a new
  thread gets the stack of the thread that used the block before, whatever stack size the
  attributes ask for.
\<close>

theorem pvcq_pool_ignores_stacksize:
  assumes "pl_wfl_remove pl (zombie_list s) = Some (z, zombies)" and "tcbs s z = Some p"
    and "pvcq_upthread_create pvcq_pth_thread_runnable pl mmap attr start arg s = Some (r, t, s')"
  shows "t = z \<and> (\<exists>q. tcbs s' t = Some q \<and> attr_stacksize (snd (upthread_getattr_np q)) = ucast (tcb_stacksize p) \<and>
    attr_stackaddr (snd (upthread_getattr_np q)) = tcb_stacktop p - ucast (tcb_stacksize p))"
proof -
  from pvcq_create_split [OF assms(3)] obtain n s1 p1 q s2 where
    c: "pvcq_upthread_alloc pl mmap n s = Some (t, s1)" "tcbs s1 t = Some p1"
      "tcb_stacksize q = tcb_stacksize p1" "tcb_stacktop q = tcb_stacktop p1" "tcb_state q = UPTH_CREATED"
      "tcbs s2 = (tcbs s1)(t \<mapsto> q)" "pvcq_pth_thread_runnable t s2 = Some s'" by blast
  have t: "t = z" "p1 = p" using c(1,2) assms(1,2) by (auto simp: pvcq_upthread_alloc_def)
  have q2: "tcbs s2 t = Some q" by (simp add: c(6))
  obtain i s3 where e: "pvcq_enqueue t False s2 = Some (i, s3)"
    "tcbs s' = tcbs s3"
    using c(5,7) q2 by (auto simp: pvcq_pth_thread_runnable_def bind_eq_Some_conv split: if_splits)
  then obtain v where "tcbs s3 t = Some (q\<lparr>tcb_state := UPTH_RUNNABLE, tcb_preferred_vcq := v\<rparr>)"
    using q2 c(5) by (auto simp: pvcq_enqueue_def bind_eq_Some_conv next_queue_pass_def Let_def split: if_splits)
  with e(2) t c(3,4) show ?thesis by (simp add: upthread_getattr_np_def)
qed

text \<open>A pool with the block of an exited thread whose stack has 4096 bytes.\<close>

definition pv_pool :: pvcq where
  "pv_pool = pv0\<lparr>zombie_list := [8192], tcbs := (tcbs pv0)(8192 \<mapsto>
     tcb_zero\<lparr>tcb_state := UPTH_EXITING, tcb_stacksize := 4096, tcb_stacktop := 8192\<rparr>)\<rparr>"

theorem pvcq_pool_ignores_stacksize_witness:
  "\<exists>s' q. pvcq_upthread_create pvcq_pth_thread_runnable demo_platform (\<lambda>_. None)
     (Some \<lparr>attr_stackaddr = 0, attr_stacksize = 1048576, attr_detachstate = 0\<rparr>) 1 2 pv_pool = Some (0, 8192, s') \<and>
     tcbs s' 8192 = Some q \<and> attr_stacksize (snd (upthread_getattr_np q)) = 4096"
proof -
  let ?c = "pvcq_upthread_create pvcq_pth_thread_runnable demo_platform (\<lambda>_. None)
     (Some \<lparr>attr_stackaddr = 0, attr_stacksize = 1048576, attr_detachstate = 0\<rparr>) 1 2 pv_pool"
  have "map_option (\<lambda>(r, t, s). (r, t)) ?c = Some (0, 8192)" by code_simp
  then obtain s' where s': "?c = Some (0, 8192, s')" by auto
  have "pl_wfl_remove demo_platform (zombie_list pv_pool) = Some (8192, [])"
    by (simp add: demo_platform_def pv_pool_def)
  from pvcq_pool_ignores_stacksize [OF this _ s'] s' show ?thesis by (auto simp: pv_pool_def)
qed

end
