(* ===== verification/Lifecycle.thy ===== *)
theory Lifecycle
  imports Join_State
begin

text \<open>
  The abstract specification of a scheduler: what may happen to the threads, with no queue, vcore
  or control block in sight. A thread has a phase, what it was created to run, its result once it has exited,
  and the thread that waits for it. Both schedulers are shown to refine the specification, step by
  step, under an abstraction function that forgets everything else.
\<close>

section \<open>The specification\<close>

datatype life = Ready | Running | Waiting | In_syscall | Joining | Exited

record thread_view =
  tv_start :: addr
  tv_arg :: addr
  tv_detached :: bool
  tv_result :: "addr option"
  tv_waiter :: "upthread_t option"

type_synonym abs_threads = "(upthread_t \<rightharpoonup> life) \<times> (upthread_t \<rightharpoonup> thread_view)"

text \<open>
  A thread that is not in the maps does not exist. A running thread may stop, wait for a primitive,
  block in a system call, sleep in a join on another thread that has not exited and that nobody waits for, or
  exit with a result; an exit wakes the thread that waits for it, if there is one; a detached
  thread vanishes when it exits, another one when it has been joined. The flag \<open>d\<close> says whether
  the library has a call that detaches a thread.
\<close>

inductive life_step :: "bool \<Rightarrow> abs_threads \<Rightarrow> abs_threads \<Rightarrow> bool" for d where
  lf_idle: "life_step d (m, V) (m, V)"
| lf_spawn: "m t = None \<Longrightarrow> tv_result p = None \<Longrightarrow> tv_waiter p = None \<Longrightarrow>
    life_step d (m, V) (m(t \<mapsto> Ready), V(t \<mapsto> p))"
| lf_run: "m t = Some Ready \<Longrightarrow> life_step d (m, V) (m(t \<mapsto> Running), V)"
| lf_stop: "m t = Some Running \<Longrightarrow> life_step d (m, V) (m(t \<mapsto> Ready), V)"
| lf_wait: "m t = Some Running \<Longrightarrow> life_step d (m, V) (m(t \<mapsto> Waiting), V)"
| lf_wake: "m t = Some Waiting \<Longrightarrow> life_step d (m, V) (m(t \<mapsto> Ready), V)"
| lf_call: "m t = Some Running \<Longrightarrow> life_step d (m, V) (m(t \<mapsto> In_syscall), V)"
| lf_return: "m t = Some In_syscall \<Longrightarrow> life_step d (m, V) (m(t \<mapsto> Ready), V)"
| lf_join: "m t = Some Running \<Longrightarrow> x \<noteq> t \<Longrightarrow> m x \<noteq> Some Exited \<Longrightarrow> V x = Some q \<Longrightarrow> tv_waiter q = None \<Longrightarrow>
    \<not> tv_detached q \<Longrightarrow> life_step d (m, V) (m(t \<mapsto> Joining), V(x \<mapsto> q\<lparr>tv_waiter := Some t\<rparr>))"
| lf_exit: "m t = Some Running \<Longrightarrow> V t = Some p \<Longrightarrow> tv_waiter p = None \<Longrightarrow> \<not> tv_detached p \<Longrightarrow>
    life_step d (m, V) (m(t \<mapsto> Exited), V(t \<mapsto> p\<lparr>tv_result := Some v\<rparr>))"
| lf_exit_wake: "m t = Some Running \<Longrightarrow> V t = Some p \<Longrightarrow> tv_waiter p = Some w \<Longrightarrow> \<not> tv_detached p \<Longrightarrow>
    life_step d (m, V) (m(t \<mapsto> Exited, w \<mapsto> Ready), V(t \<mapsto> p\<lparr>tv_result := Some v, tv_waiter := None\<rparr>))"
| lf_vanish: "m t = Some Running \<Longrightarrow> V t = Some p \<Longrightarrow> tv_waiter p = None \<Longrightarrow> tv_detached p \<Longrightarrow>
    life_step d (m, V) (m(t := None), V(t := None))"
| lf_detach: "d \<Longrightarrow> m t \<noteq> Some Exited \<Longrightarrow> V t = Some p \<Longrightarrow> tv_waiter p = None \<Longrightarrow>
    life_step d (m, V) (m, V(t \<mapsto> p\<lparr>tv_detached := True\<rparr>))"
| lf_free: "m t = Some Exited \<Longrightarrow> life_step d (m, V) (m(t := None), V(t := None))"

definition life_init :: "abs_threads \<Rightarrow> bool" where
  "life_init A \<longleftrightarrow> (\<exists>t p. A = ([t \<mapsto> Running], [t \<mapsto> p]) \<and> tv_result p = None \<and> tv_waiter p = None)"

section \<open>What follows from the specification alone\<close>

text \<open>Exactly the threads that have exited have a result; who waits for a thread is asleep in a join, for this
  thread only; and nobody is asleep in a join without a thread to wait for.\<close>

definition life_ok :: "abs_threads \<Rightarrow> bool" where
  "life_ok A \<longleftrightarrow> (case A of (m, V) \<Rightarrow>
     (\<forall>t. m t = None \<longleftrightarrow> V t = None) \<and>
     (\<forall>t p. V t = Some p \<longrightarrow> (tv_result p \<noteq> None \<longleftrightarrow> m t = Some Exited)) \<and>
     (\<forall>x p w. V x = Some p \<longrightarrow> tv_waiter p = Some w \<longrightarrow>
        m w = Some Joining \<and> m x \<noteq> Some Exited \<and> \<not> tv_detached p) \<and>
     (\<forall>x y p q w. V x = Some p \<longrightarrow> tv_waiter p = Some w \<longrightarrow> V y = Some q \<longrightarrow> tv_waiter q = Some w \<longrightarrow> x = y) \<and>
     (\<forall>w. m w = Some Joining \<longrightarrow> (\<exists>x p. V x = Some p \<and> tv_waiter p = Some w)))"

lemma life_init_ok: "life_init A \<Longrightarrow> life_ok A"
  by (auto simp: life_init_def life_ok_def split: if_splits)


lemma life_okI:
  assumes "\<And>t. m t = None \<longleftrightarrow> V t = None"
    and "\<And>t p. V t = Some p \<Longrightarrow> tv_result p \<noteq> None \<longleftrightarrow> m t = Some Exited"
    and "\<And>x p w. V x = Some p \<Longrightarrow> tv_waiter p = Some w \<Longrightarrow>
      m w = Some Joining \<and> m x \<noteq> Some Exited \<and> \<not> tv_detached p"
    and "\<And>x y p q w. V x = Some p \<Longrightarrow> tv_waiter p = Some w \<Longrightarrow> V y = Some q \<Longrightarrow> tv_waiter q = Some w \<Longrightarrow> x = y"
    and "\<And>w. m w = Some Joining \<Longrightarrow> \<exists>x p. V x = Some p \<and> tv_waiter p = Some w"
  shows "life_ok (m, V)"
  unfolding life_ok_def prod.case using assms by blast

lemma life_okD:
  assumes "life_ok (m, V)"
  shows "m t = None \<longleftrightarrow> V t = None"
    and "V t = Some p \<Longrightarrow> tv_result p \<noteq> None \<longleftrightarrow> m t = Some Exited"
    and "V x = Some p \<Longrightarrow> tv_waiter p = Some w \<Longrightarrow>
      m w = Some Joining \<and> m x \<noteq> Some Exited \<and> \<not> tv_detached p"
    and "V x = Some p \<Longrightarrow> tv_waiter p = Some w \<Longrightarrow> V y = Some q \<Longrightarrow> tv_waiter q = Some w \<Longrightarrow> x = y"
    and "m w = Some Joining \<Longrightarrow> \<exists>x p. V x = Some p \<and> tv_waiter p = Some w"
  using assms unfolding life_ok_def prod.case by blast+

lemma ex_waiter_upd:
  assumes "\<exists>x p. V x = Some p \<and> tv_waiter p = Some w" and "\<And>p. V z = Some p \<Longrightarrow> tv_waiter p \<noteq> Some w"
  shows "\<exists>x p. (V(z := r)) x = Some p \<and> tv_waiter p = Some w"
proof -
  from assms(1) obtain x p where "V x = Some p" "tv_waiter p = Some w" by blast
  moreover from this assms(2) have "x \<noteq> z" by auto
  ultimately show ?thesis by auto
qed

lemma life_ok_phase:
  assumes "life_ok (m, V)" and "m t = Some l" and "l \<noteq> Exited" "l \<noteq> Joining" "l' \<noteq> Exited" "l' \<noteq> Joining"
  shows "life_ok (m(t \<mapsto> l'), V)"
proof -
  note ok = life_okD [OF assms(1)]
  show ?thesis
  proof (rule life_okI, goal_cases)
    case (1 y) then show ?case using ok(1) [of y] assms(2) by auto
  next
    case (2 y p) then show ?case using ok(2) [of y p] assms by auto
  next
    case (3 y p w) then show ?case using ok(3) [of y p w] assms by auto
  next
    case (4 y z p q w) then show ?case using ok(4) by blast
  next
    case (5 w) then show ?case using ok(5) [of w] assms by (auto split: if_splits)
  qed
qed

lemma life_step_ok: "life_step d A A' \<Longrightarrow> life_ok A \<Longrightarrow> life_ok A'"
proof (induction rule: life_step.induct)
  case (lf_spawn m t p V)
  note ok = life_okD [OF lf_spawn(4)]
  have t: "V t = None" using ok(1) lf_spawn(1) by simp
  show ?case
  proof (rule life_okI, goal_cases)
    case (1 y) then show ?case using ok(1) [of y] by auto
  next
    case (2 y r) then show ?case using ok(2) [of y] lf_spawn(2) by (auto split: if_splits)
  next
    case (3 y r w) then show ?case using ok(3) [of y r w] lf_spawn by (auto split: if_splits)
  next
    case (4 y z r r' w) then show ?case using ok(4) [of y r w z r'] lf_spawn(3) by (auto split: if_splits)
  next
    case (5 w) then show ?case using t by (intro ex_waiter_upd ok(5)) (auto split: if_splits)
  qed
next
  case (lf_join m t x V q)
  note ok = life_okD [OF lf_join(7)]
  have t: "tv_waiter p \<noteq> Some t" if "V y = Some p" for y p using ok(3) [OF that, of t] lf_join(1) by auto
  show ?case
  proof (rule life_okI, goal_cases)
    case (1 y) then show ?case using ok(1) [of y] lf_join(1,4) by auto
  next
    case (2 y p) then show ?case using ok(2) [of y] ok(2) [of x] lf_join(1-4) by (auto split: if_splits)
  next
    case (3 y p w) then show ?case using ok(3) [of y p w] lf_join(1-6) by (auto split: if_splits)
  next
    case (4 y z p r w) then show ?case using ok(4) [of y p w z r] t by (auto split: if_splits)
  next
    case (5 w)
    show ?case
    proof (cases "w = t")
      case False
      with 5 lf_join(4,5) show ?thesis by (intro ex_waiter_upd ok(5)) auto
    qed auto
  qed
next
  case (lf_exit m t V p v)
  note ok = life_okD [OF lf_exit(5)]
  show ?case
  proof (rule life_okI, goal_cases)
    case (1 y) then show ?case using ok(1) [of y] by auto
  next
    case (2 y r) then show ?case using ok(2) [of y] by (auto split: if_splits)
  next
    case (3 y r w) then show ?case using ok(3) [of y r w] lf_exit by (auto split: if_splits)
  next
    case (4 y z r r' w) then show ?case using ok(4) [of y r w z r'] lf_exit by (auto split: if_splits)
  next
    case (5 w) then show ?case using lf_exit by (intro ex_waiter_upd ok(5)) (auto split: if_splits)
  qed
next
  case (lf_exit_wake m t V p w v)
  note ok = life_okD [OF lf_exit_wake(5)]
  have w: "m w = Some Joining" "w \<noteq> t" using ok(3) [OF lf_exit_wake(2,3)] lf_exit_wake(1) by auto
  have nw: "y = t" if "V y = Some q" "tv_waiter q = Some w" for y q
    using ok(4) [OF that lf_exit_wake(2,3)] .
  show ?case
  proof (rule life_okI, goal_cases)
    case (1 y) then show ?case using ok(1) [of y] ok(1) [of w] lf_exit_wake w by auto
  next
    case (2 y r) then show ?case using ok(2) [of y] w by (auto split: if_splits)
  next
    case (3 y r u)
    then have y: "y \<noteq> t" "V y = Some r" by (auto split: if_splits)
    with 3(2) nw have "u \<noteq> w" by blast
    with ok(3) [OF y(2) 3(2)] lf_exit_wake(1) y(1) w show ?case by auto
  next
    case (4 y z r r' u) then show ?case using ok(4) [of y r u z r'] by (auto split: if_splits)
  next
    case (5 u) then show ?case using lf_exit_wake w by (intro ex_waiter_upd ok(5)) (auto split: if_splits)
  qed
next
  case (lf_vanish m t V p)
  note ok = life_okD [OF lf_vanish(5)]
  show ?case
  proof (rule life_okI, goal_cases)
    case (1 y) then show ?case using ok(1) [of y] by auto
  next
    case (2 y r) then show ?case using ok(2) [of y] by (auto split: if_splits)
  next
    case (3 y r w) then show ?case using ok(3) [of y r w] lf_vanish by (auto split: if_splits)
  next
    case (4 y z r r' w) then show ?case using ok(4) [of y r w z r'] by (auto split: if_splits)
  next
    case (5 w) then show ?case using lf_vanish by (intro ex_waiter_upd ok(5)) (auto split: if_splits)
  qed
next
  case (lf_detach m t V p)
  note ok = life_okD [OF lf_detach(5)]
  show ?case
  proof (rule life_okI, goal_cases)
    case (1 y) then show ?case using ok(1) [of y] ok(1) [of t] lf_detach(3) by auto
  next
    case (2 y r) then show ?case using ok(2) [of y] ok(2) [of t] lf_detach(3) by (auto split: if_splits)
  next
    case (3 y r w) then show ?case using ok(3) [of y r w] lf_detach(4) by (auto split: if_splits)
  next
    case (4 y z r r' w) then show ?case using ok(4) [of y r w z r'] lf_detach(4) by (auto split: if_splits)
  next
    case (5 w) then show ?case using lf_detach by (intro ex_waiter_upd ok(5)) auto
  qed
next
  case (lf_free m t V)
  note ok = life_okD [OF lf_free(2)]
  show ?case
  proof (rule life_okI, goal_cases)
    case (1 y) then show ?case using ok(1) [of y] by auto
  next
    case (2 y r) then show ?case using ok(2) [of y] by (auto split: if_splits)
  next
    case (3 y r w) then show ?case using ok(3) [of y r w] lf_free by (auto split: if_splits)
  next
    case (4 y z r r' w) then show ?case using ok(4) [of y r w z r'] by (auto split: if_splits)
  next
    case (5 w) then show ?case using ok(3) [of t _ w] lf_free by (intro ex_waiter_upd ok(5)) (auto split: if_splits)
  qed
qed (auto intro: life_ok_phase)
lemma life_reachable_ok: "reachable life_init (life_step d) A \<Longrightarrow> life_ok A"
  by (erule reachable_invariant) (auto intro: life_init_ok life_step_ok)

text \<open>What a thread runs never changes, its result, once there, stays, and a detached thread stays
  detached, as does one that is not, unless the library can detach threads.\<close>

definition view_kept :: "bool \<Rightarrow> thread_view \<Rightarrow> thread_view \<Rightarrow> bool" where
  "view_kept d p p' \<longleftrightarrow> tv_start p' = tv_start p \<and> tv_arg p' = tv_arg p \<and>
     (\<forall>v. tv_result p = Some v \<longrightarrow> tv_result p' = Some v) \<and>
     (tv_detached p \<longrightarrow> tv_detached p') \<and> (tv_detached p' \<longrightarrow> d \<or> tv_detached p)"

lemma view_kept_refl [simp]: "view_kept d p p"
  by (simp add: view_kept_def)

lemma view_kept_trans: "view_kept d p q \<Longrightarrow> view_kept d q r \<Longrightarrow> view_kept d p r"
  by (auto simp: view_kept_def)

lemma life_step_kept:
  assumes "life_step d A A'" and "life_ok A" and "snd A t = Some p" and "snd A' t = Some p'"
  shows "view_kept d p p'"
  using assms
proof (induction rule: life_step.induct)
  case (lf_exit m u V q v)
  with life_okD(2) [OF lf_exit(5,2)] show ?case by (auto simp: view_kept_def split: if_splits)
next
  case (lf_exit_wake m u V q w v)
  with life_okD(2) [OF lf_exit_wake(5,2)] show ?case by (auto simp: view_kept_def split: if_splits)
next
  case (lf_spawn m u q V)
  with life_okD(1) [OF lf_spawn(4), of u] show ?case by (auto split: if_splits)
qed (auto simp: view_kept_def split: if_splits)

section \<open>Abstraction\<close>

text \<open>The phase a thread state stands for; the states a thread only passes through inside one
  call count as waiting.\<close>

fun life_of :: "upth_state \<Rightarrow> life" where
  "life_of UPTH_RUNNABLE = Ready"
| "life_of UPTH_RUNNING = Running"
| "life_of UPTH_BLK_SYSC = In_syscall"
| "life_of UPTH_BLK_JOINING = Joining"
| "life_of UPTH_EXITING = Exited"
| "life_of _ = Waiting"


definition tcb_view :: "upthread_tcb \<Rightarrow> thread_view" where
  "tcb_view p =
     \<lparr>tv_start = tcb_start_routine p, tv_arg = tcb_arg p, tv_detached = tcb_detached p,
      tv_result = (if tcb_state p = UPTH_EXITING then Some (tcb_retval p) else None),
      tv_waiter = (if tcb_state p = UPTH_EXITING then None else tcb_joiner p)\<rparr>"

definition views :: "'z sched_globals_scheme \<Rightarrow> upthread_t \<rightharpoonup> thread_view" where
  "views s t = map_option tcb_view (tcbs s t)"

lemma views_cong: "tcbs s' = tcbs s \<Longrightarrow> views s' = views s"
  by (simp add: views_def fun_eq_iff)

lemma views_upd: "tcbs s' = (tcbs s)(t \<mapsto> q) \<Longrightarrow> views s' = (views s)(t \<mapsto> tcb_view q)"
  by (simp add: views_def fun_eq_iff)

lemma views_Some: "tcbs s t = Some p \<Longrightarrow> views s t = Some (tcb_view p)"
  by (simp add: views_def)

lemma views_gone: "tcbs s' = (tcbs s)(t := None) \<Longrightarrow> views s' = (views s)(t := None)"
  by (simp add: views_def fun_eq_iff)

lemma views_same:
  assumes "tcbs s' = (tcbs s)(t \<mapsto> q)" and "tcbs s t = Some p" and "tcb_view q = tcb_view p"
  shows "views s' = views s"
  using views_upd [OF assms(1)] views_Some [OF assms(2)] assms(3) by (auto simp: fun_eq_iff)

lemma tcb_view_live:
  "tcb_state p \<noteq> UPTH_EXITING \<Longrightarrow> tcb_view p =
     \<lparr>tv_start = tcb_start_routine p, tv_arg = tcb_arg p, tv_detached = tcb_detached p, tv_result = None, tv_waiter = tcb_joiner p\<rparr>"
  by (simp add: tcb_view_def)

lemma tcb_view_sel [simp]:
  "tv_start (tcb_view p) = tcb_start_routine p" "tv_arg (tcb_view p) = tcb_arg p"
  "tv_detached (tcb_view p) = tcb_detached p"
  by (simp_all add: tcb_view_def)

section \<open>Refinement\<close>

text \<open>A step after which a thread still exists.\<close>

definition alive_step ::
  "('s \<Rightarrow> 's \<Rightarrow> bool) \<Rightarrow> ('s \<Rightarrow> abs_threads) \<Rightarrow> upthread_t \<Rightarrow> 's \<Rightarrow> 's \<Rightarrow> bool" where
  "alive_step step abst t s s' \<longleftrightarrow> step s s' \<and> snd (abst s') t \<noteq> None"

text \<open>A system refines the specification when its start and its steps are matched.\<close>

locale refines_life =
  fixes d :: bool and init :: "'s \<Rightarrow> bool" and step :: "'s \<Rightarrow> 's \<Rightarrow> bool" and life :: "'s \<Rightarrow> abs_threads"
  assumes init_life: "init s \<Longrightarrow> life_init (life s)"
    and step_life: "reachable init step s \<Longrightarrow> step s s' \<Longrightarrow> life_step d (life s) (life s')"
begin

lemma reachable_life: "reachable init step s \<Longrightarrow> reachable life_init (life_step d) (life s)"
proof (induction rule: reachable.induct)
  case (reach_init s)
  then show ?case by (blast intro: reachable.reach_init init_life)
next
  case (reach_step s s')
  then show ?case by (blast intro: reachable.reach_step step_life)
qed

lemma reachable_life_ok: "reachable init step s \<Longrightarrow> life_ok (life s)"
  by (rule life_reachable_ok [OF reachable_life])

text \<open>As long as the thread exists, it keeps what it runs and its result.\<close>

lemma alive_kept:
  assumes "(alive_step step life t)\<^sup>*\<^sup>* s s'" and "reachable init step s"
    and "snd (life s) t = Some p"
  shows "reachable init step s' \<and> (\<exists>p'. snd (life s') t = Some p' \<and> view_kept d p p')"
  using assms(1)
proof (induction rule: rtranclp_induct)
  case base
  with assms(2,3) show ?case by simp
next
  case (step s1 s2)
  then obtain p1 p2 where r: "reachable init step s1" and p: "snd (life s1) t = Some p1" "view_kept d p p1"
    "step s1 s2" "snd (life s2) t = Some p2" by (auto simp: alive_step_def)
  from life_step_kept [OF step_life [OF r p(3)] reachable_life_ok [OF r] p(1,4)] p
  have "view_kept d p p2" by (blast intro: view_kept_trans)
  with reach_step [OF r p(3)] p(4) show ?case by blast
qed

end

end
