(* ===== verification/Lifecycle_Gq.thy ===== *)
theory Lifecycle_Gq
  imports Lifecycle Gq_Correct
begin

text \<open>
  The global-queue scheduler refines the specification of \<^verbatim>\<open>Lifecycle\<close>.
\<close>

section \<open>Abstraction\<close>

definition gq_life :: "gq \<Rightarrow> upthread_t \<rightharpoonup> life" where
  "gq_life s t = (if t \<in> set (active_queue s) then Some Running else map_option life_of (state_of s t))"

lemma gq_life_active: "t \<in> set (active_queue s) \<Longrightarrow> gq_life s t = Some Running"
  by (simp add: gq_life_def)

lemma gq_life_asleep:
  assumes "gq_ok s" and "state_of s t = Some st" and "\<not> schedulable st"
  shows "gq_life s t = Some (life_of st)"
proof -
  have "gq_inv s" using assms(1) by (simp add: gq_ok_def)
  then have "t \<notin> gq_links s" using assms(2,3) gq_inv_links_iff [of s t] by (auto simp: state_of_def)
  then show ?thesis using assms(2) by (simp add: gq_life_def gq_links_def)
qed

definition gq_abs :: "gq \<Rightarrow> abs_threads" where
  "gq_abs s = (gq_life s, views s)"

text \<open>An active thread leaves the active queue with a new state, and does not exit.\<close>

lemma gq_life_stop:
  assumes "gq_ok s" and "active_queue s' = remove1 t (active_queue s)"
    and "tcbs s t = Some p" and "schedulable (tcb_state p)"
    and "tcbs s' = (tcbs s)(t \<mapsto> p\<lparr>tcb_state := st\<rparr>)" and "st \<noteq> UPTH_EXITING" and "life_of st = l"
  shows "gq_abs s' = ((gq_life s)(t \<mapsto> l), views s)"
proof -
  have "distinct (active_queue s)" using assms(1) gq_invD(2) by (simp add: gq_ok_def)
  then have "gq_life s' = (gq_life s)(t \<mapsto> l)"
    using assms(2,5,7) by (auto simp: gq_life_def state_of_def fun_eq_iff)
  moreover have "tcb_state p \<noteq> UPTH_EXITING" using assms(4) by auto
  then have "views s' = views s" using assms(6)
    by (intro views_same [OF assms(5,3)]) (simp add: tcb_view_live)
  ultimately show ?thesis by (simp add: gq_abs_def)
qed

lemma gq_life_wake:
  assumes "gq_ok s" and "active_queue s' = active_queue s" and "tcbs s' = (tcbs s)(t \<mapsto> q)"
    and "tcb_state q = UPTH_RUNNABLE" and "t \<notin> set (active_queue s)"
  shows "gq_life s' = (gq_life s)(t \<mapsto> Ready)"
  using assms by (auto simp: gq_life_def state_of_def fun_eq_iff)

lemma gq_life_off:
  assumes "gq_ok s" and "state_of s t = Some st" and "\<not> schedulable st"
  shows "t \<notin> set (active_queue s)"
proof -
  have "gq_inv s" using assms(1) by (simp add: gq_ok_def)
  then show ?thesis using assms(2,3) gq_inv_links_iff [of s t] by (auto simp: state_of_def gq_links_def)
qed

text \<open>A sleeping thread becomes ready.\<close>

lemma gq_abs_wake:
  assumes "gq_ok s" and "active_queue s' = active_queue s" and "tcbs s t = Some p"
    and "tcbs s' = (tcbs s)(t \<mapsto> q)" and "tcb_state q = UPTH_RUNNABLE" and "tcb_view q = tcb_view p"
    and "\<not> schedulable (tcb_state p)"
  shows "gq_abs s' = ((gq_life s)(t \<mapsto> Ready), views s) \<and> gq_life s t = Some (life_of (tcb_state p))"
proof -
  have st: "state_of s t = Some (tcb_state p)" using assms(3) by (simp add: state_of_def)
  show ?thesis
    using gq_life_wake [OF assms(1,2,4,5) gq_life_off [OF assms(1) st assms(7)]]
      gq_life_asleep [OF assms(1) st assms(7)] views_same [OF assms(4,3,6)] by (simp add: gq_abs_def)
qed

lemma gq_life_dispatch:
  assumes "gq_ok s" and "gq_take_ready s = (Some t, s')"
  shows "life_step False (gq_abs s) (gq_abs s')"
proof -
  have inv: "gq_inv s" using assms(1) by (simp add: gq_ok_def)
  note tr = gq_take_ready_inv [OF inv assms(2)]
  have "t \<in> set (ready_queue s)" using tr(2) by simp
  then have "state_of s t = Some UPTH_RUNNABLE" "t \<notin> set (active_queue s)"
    using inv gq_invD(3) [OF inv] by (auto simp: gq_inv_def)
  then have "gq_life s t = Some Ready" by (simp add: gq_life_def)
  moreover have "gq_life s' = (gq_life s)(t \<mapsto> Running)"
    using tr(3,4) by (auto simp: gq_life_def state_of_def fun_eq_iff)
  moreover have "views s' = views s" by (rule views_cong [OF tr(4)])
  ultimately show ?thesis by (metis gq_abs_def lf_run)
qed

text \<open>The joiner that an exiting thread wakes.\<close>

lemma exit_joiner:
  assumes "gq_pth_exit_cb gq_pth_thread_runnable t s = Some s'" and "tcbs s t = Some p"
    and "\<not> tcb_detached p" and "tcb_joiner p = Some w" and "w \<noteq> t" and "tcbs s w = Some q"
  shows "tcbs s' w = Some (q\<lparr>tcb_state := UPTH_RUNNABLE\<rparr>)"
proof -
  from assms(1) obtain s1 where s1: "gq_pth_thread_runnable w s1 = Some s'" "tcbs s1 w = tcbs s w"
    using assms(2-5) by (auto simp: gq_pth_exit_cb_def gq_generic_yield_def gq_free_stack_def bind_Some_conv
        set_state_def tcb_upd_def Let_def split: if_splits)
  with assms(6) show ?thesis by (auto intro: gq_runnable_tcb)
qed

lemma gq_life_exit:
  assumes ok: "gq_ok s" and act: "t \<in> set (active_queue s)" and "gq_upthread_exit ret t s = Some s1"
    and cb: "gq_pth_exit_cb gq_pth_thread_runnable t s1 = Some s'"
  shows "life_step False (gq_abs s) (gq_abs s')"
proof -
  from gq_upthread_exit_ok [OF ok act, of ret] assms(3) obtain p where p: "tcbs s t = Some p"
      "schedulable (tcb_state p)" and ok1: "gq_ok s1"
    and t1: "tcbs s1 = (tcbs s)(t \<mapsto> p\<lparr>tcb_retval := ret\<rparr>)"
    and act1: "active_queue s1 = active_queue s" by auto
  have live: "tcb_state p \<noteq> UPTH_EXITING" using p(2) by auto
  then have v: "views s1 = views s" "views s t = Some (tcb_view p)" "tv_waiter (tcb_view p) = tcb_joiner p"
    using views_same [OF t1 p(1)] views_Some [OF p(1)] by (simp_all add: tcb_view_live)
  have l1: "gq_life s1 = gq_life s" using p t1 act1 by (auto simp: gq_life_def state_of_def fun_eq_iff)
  have run: "gq_life s t = Some Running" by (rule gq_life_active [OF act])
  have p1: "tcbs s1 t = Some (p\<lparr>tcb_retval := ret\<rparr>)" and a1: "t \<in> set (active_queue s1)"
    using t1 act act1 by simp_all
  have jok1: "join_ok s1" using ok1 by (simp add: gq_ok_def)
  have d: "distinct (active_queue s1)" using ok1 gq_invD(2) by (simp add: gq_ok_def)
  show ?thesis
  proof (cases "tcb_detached p")
    case True
    with gq_exit_cb_detached [OF ok1 a1 p1, of gq_pth_thread_runnable] cb
    have s': "active_queue s' = remove1 t (active_queue s1)" "tcbs s' = (tcbs s1)(t := None)" by auto
    have "gq_life s' = (gq_life s)(t := None)"
      using s' d by (auto simp: gq_life_def state_of_def fun_eq_iff simp flip: l1)
    moreover have "views s' = (views s)(t := None)" using views_gone [OF s'(2)] v(1) by simp
    moreover have "t \<in> detached_threads s1" using p1 True by (simp add: detached_threads_def)
    then have "tcb_joiner p = None"
      using join_ok_detached [OF jok1, of t] p1 by (cases "tcb_joiner p") (auto simp: joiner_of_def)
    ultimately show ?thesis using run v True lf_vanish [of "gq_life s" t "views s"] by (simp add: gq_abs_def)
  next
    case False
    with gq_exit_cb_joinable [OF ok1 a1 p1] cb have e: "gq_ok s'"
      "ready_queue s' = ready_queue s1 @ (case tcb_joiner p of None \<Rightarrow> [] | Some w \<Rightarrow> [w])"
      "active_queue s' = remove1 t (active_queue s1)"
      "tcbs s' t = Some (p\<lparr>tcb_retval := ret, tcb_state := UPTH_EXITING, tcb_joiner := Some t\<rparr>)"
      "\<And>y. y \<noteq> t \<Longrightarrow> tcb_joiner p \<noteq> Some y \<Longrightarrow> tcbs s' y = tcbs s1 y" by auto
    have lt: "gq_life s' t = Some Exited" using e(3,4) d by (simp add: gq_life_def state_of_def)
    have vt: "views s' t = Some ((tcb_view p)\<lparr>tv_result := Some ret, tv_waiter := None\<rparr>)"
      using views_Some [OF e(4)] by (simp add: tcb_view_def)
    have other: "gq_life s' y = gq_life s y" "views s' y = views s y" if "y \<noteq> t" "tcb_joiner p \<noteq> Some y" for y
      using e(3) e(5) [OF that] that(1) unfolding l1 [symmetric] v(1) [symmetric]
      by (simp_all add: gq_life_def state_of_def views_def)
    show ?thesis
    proof (cases "tcb_joiner p")
      case None
      then have "gq_life s' = (gq_life s)(t \<mapsto> Exited)" using lt other by (auto simp: fun_eq_iff)
      moreover have "views s' = (views s)(t \<mapsto> (tcb_view p)\<lparr>tv_result := Some ret\<rparr>)"
        using vt other None v(3) by (auto simp: fun_eq_iff)
      ultimately show ?thesis using run v None False lf_exit [of "gq_life s" t "views s"] by (simp add: gq_abs_def)
    next
      case (Some w)
      have j: "joiner_of s1 t = Some w" using Some p1 by (simp add: joiner_of_def)
      have "state_of s1 t \<noteq> Some UPTH_EXITING" using p p1 by (auto simp: state_of_def)
      with j have sw: "state_of s1 w = Some UPTH_BLK_JOINING" by (rule join_ok_live [OF jok1])
      have "gq_life s1 w = Some Joining" using gq_life_asleep [OF ok1 sw] by simp
      then have "w \<noteq> t" using l1 run by auto
      have "w \<in> set (ready_queue s')" using e(2) Some by simp
      moreover have inv': "gq_inv s'" using e(1) by (simp add: gq_ok_def)
      ultimately have "state_of s' w = Some UPTH_RUNNABLE" "w \<notin> set (active_queue s')"
        using gq_invD(3) [OF inv'] by (auto simp: gq_inv_def)
      then have "gq_life s' w = Some Ready" by (simp add: gq_life_def)
      then have "gq_life s' = (gq_life s)(t \<mapsto> Exited, w \<mapsto> Ready)"
        using lt other Some \<open>w \<noteq> t\<close> by (auto simp: fun_eq_iff)
      moreover from sw obtain q where q: "tcbs s1 w = Some q" "tcb_state q = UPTH_BLK_JOINING"
        by (auto simp: state_of_def)
      have "views s' w = views s w"
        using exit_joiner [OF cb p1 _ _ \<open>w \<noteq> t\<close> q(1)] False Some q
        by (simp add: views_def tcb_view_live flip: v(1))
      then have "views s' = (views s)(t \<mapsto> (tcb_view p)\<lparr>tv_result := Some ret, tv_waiter := None\<rparr>)"
        using vt other Some by (auto simp: fun_eq_iff)
      ultimately show ?thesis using run v Some False lf_exit_wake [of "gq_life s" t "views s" _ w]
        by (simp add: gq_abs_def)
    qed
  qed
qed

lemma gq_life_join:
  assumes ok: "gq_ok s" and act: "t \<in> set (active_queue s)" and x: "x \<noteq> t" "tcbs s x = Some q"
    and nd: "\<not> tcb_detached q" and q: "tcb_joiner q = None \<or> tcb_state q = UPTH_EXITING"
    and cb: "gq_pth_join_cb gq_pth_thread_runnable t x s = Some s'"
  shows "life_step False (gq_abs s) (gq_abs s')"
proof -
  have inv: "gq_inv s" and jok: "join_ok s" using ok by (simp_all add: gq_ok_def)
  have run: "gq_life s t = Some Running" by (rule gq_life_active [OF act])
  have upd: "gq_life s' = (gq_life s)(t \<mapsto> life_of st)"
      "views s' = (views s)(x \<mapsto> tcb_view (q\<lparr>tcb_joiner := Some t\<rparr>))"
    if "active_queue s' = remove1 t (active_queue s)" "tcbs s t = Some p" "schedulable (tcb_state p)"
      "tcbs s' = (tcbs s)(t \<mapsto> p\<lparr>tcb_state := st\<rparr>, x \<mapsto> q\<lparr>tcb_joiner := Some t\<rparr>)" "st \<noteq> UPTH_EXITING" for p st
  proof -
    show "gq_life s' = (gq_life s)(t \<mapsto> life_of st)"
      using that x gq_invD(2) [OF inv] by (auto simp: gq_life_def state_of_def fun_eq_iff)
    have "tcb_state p \<noteq> UPTH_EXITING" using that(3) by auto
    then show "views s' = (views s)(x \<mapsto> tcb_view (q\<lparr>tcb_joiner := Some t\<rparr>))"
      using that x by (auto simp: views_def fun_eq_iff tcb_view_live)
  qed
  show ?thesis
  proof (cases "tcb_joiner q")
    case None
    with gq_join_cb_block_inv [OF inv act x(2,1), of gq_pth_thread_runnable] cb obtain p where s':
      "active_queue s' = remove1 t (active_queue s)" "tcbs s t = Some p" "schedulable (tcb_state p)"
      "tcbs s' = (tcbs s)(t \<mapsto> p\<lparr>tcb_state := UPTH_BLK_JOINING\<rparr>, x \<mapsto> q\<lparr>tcb_joiner := Some t\<rparr>)" by auto
    have "joiner_of s x = None" using None x(2) by (simp add: joiner_of_def)
    then have sx: "state_of s x \<noteq> Some UPTH_EXITING" using join_ok_exited [OF jok, of x] by auto
    then have "tcb_state q \<noteq> UPTH_EXITING" "gq_life s x \<noteq> Some Exited"
      using x(2) by (cases "tcb_state q"; simp add: gq_life_def state_of_def)+
    with upd [OF s'] lf_join [of "gq_life s" t x "views s" "tcb_view q"] run x nd None views_Some [OF x(2)]
    show ?thesis by (simp add: gq_abs_def tcb_view_live)
  next
    case (Some w)
    with gq_join_cb_late_inv [OF inv act x(2,1)] cb obtain p where s':
      "active_queue s' = remove1 t (active_queue s)" "tcbs s t = Some p" "schedulable (tcb_state p)"
      "tcbs s' = (tcbs s)(t \<mapsto> p\<lparr>tcb_state := UPTH_RUNNABLE\<rparr>, x \<mapsto> q\<lparr>tcb_joiner := Some t\<rparr>)" by auto
    have "tcb_view (q\<lparr>tcb_joiner := Some t\<rparr>) = tcb_view q" using q Some by (simp add: tcb_view_def)
    with upd(2) [OF s'] views_Some [OF x(2)] have "views s' = views s" by (auto simp: fun_eq_iff)
    with upd(1) [OF s'] run show ?thesis by (simp add: gq_abs_def lf_stop)
  qed
qed

lemma gq_life_moves:
  assumes "gq_moves s s'" and "gq_ok s"
  shows "life_step False (gq_abs s) (gq_abs s')"
  using assms
proof (induction rule: gq_moves.induct)
  case (gq_dispatch s t s')
  then show ?case by (intro gq_life_dispatch)
next
  case (gq_yields t s s')
  then have inv: "gq_inv s" by (simp add: gq_ok_def)
  from gq_yield_inv [OF inv gq_yields(1)] gq_yields(2) obtain p where
    "active_queue s' = remove1 t (active_queue s)" "tcbs s t = Some p" "schedulable (tcb_state p)"
    "tcbs s' = (tcbs s)(t \<mapsto> p\<lparr>tcb_state := UPTH_RUNNABLE\<rparr>)" by auto
  from gq_life_stop [OF gq_yields(3) this, of Ready] gq_life_active [OF gq_yields(1)]
  show ?case by (simp add: gq_abs_def lf_stop)
next
  case (gq_preempt t s s')
  then have inv: "gq_inv s" by (simp add: gq_ok_def)
  from gq_paused_inv [OF inv gq_preempt(1)] gq_preempt(2) obtain p where
    "active_queue s' = remove1 t (active_queue s)" "tcbs s t = Some p" "schedulable (tcb_state p)"
    "tcbs s' = (tcbs s)(t \<mapsto> p\<lparr>tcb_state := UPTH_RUNNABLE\<rparr>)" by auto
  from gq_life_stop [OF gq_preempt(3) this, of Ready] gq_life_active [OF gq_preempt(1)]
  show ?case by (simp add: gq_abs_def lf_stop)
next
  case (gq_syscall t s sysc s')
  then have inv: "gq_inv s" by (simp add: gq_ok_def)
  from gq_blockon_syscall_inv [OF inv gq_syscall(1), of sysc] gq_syscall(2) obtain p where
    "active_queue s' = remove1 t (active_queue s)" "tcbs s t = Some p" "schedulable (tcb_state p)"
    "tcbs s' = (tcbs s)(t \<mapsto> p\<lparr>tcb_state := UPTH_BLK_SYSC\<rparr>)" by auto
  from gq_life_stop [OF gq_syscall(3) this, of In_syscall] gq_life_active [OF gq_syscall(1)]
  show ?case by (simp add: gq_abs_def lf_call)
next
  case (gq_sysdone s sysc t s')
  then have inv: "gq_inv s" by (simp add: gq_ok_def)
  from gq_sysdone(2) obtain p where p: "tcbs s t = Some p" "tcb_state p = UPTH_BLK_SYSC"
    by (auto simp: state_of_def)
  with gq_handle_syscall_inv [OF inv gq_sysdone(1)] gq_sysdone(3) have s':
    "active_queue s' = active_queue s" "tcbs s' = (tcbs s)(t \<mapsto> p\<lparr>uth_sysc := None, tcb_state := UPTH_RUNNABLE\<rparr>)" by auto
  from gq_abs_wake [OF gq_sysdone(4) s'(1) p(1) s'(2)] p(2) show ?case
    by (simp add: gq_abs_def tcb_view_live lf_return)
next
  case (gq_creates s t mmap pgsize attr start arg r t' s')
  then have inv: "gq_inv s" by (simp add: gq_ok_def)
  define p where "p = (snd (gq_create_tcb mmap pgsize (next_pid s) attr))
      \<lparr>tcb_start_routine := start, tcb_arg := arg, tcb_state := UPTH_RUNNABLE\<rparr>"
  from gq_create_inv [OF inv gq_creates(1), of mmap pgsize attr start arg] gq_creates(2) have
    s': "active_queue s' = active_queue s" "tcbs s' = (tcbs s)(t \<mapsto> p)" by (auto simp: p_def)
  have p: "tcb_state p = UPTH_RUNNABLE" "tcb_joiner p = None"
    by (auto simp: p_def gq_create_tcb_def gq_allocate_stack_def tcb_zero_def Let_def split: option.splits)
  have off: "t \<notin> set (active_queue s)"
    using gq_inv_links_iff [OF inv, of t] gq_creates(1) by (auto simp: gq_links_def)
  then have "gq_life s t = None" using gq_creates(1) by (simp add: gq_life_def state_of_def)
  with gq_life_wake [OF gq_creates(3) s' p(1) off] views_upd [OF s'(2)] p show ?case
    by (simp add: gq_abs_def lf_spawn tcb_view_live)
next
  case (gq_joins t s x q s')
  then show ?case by (intro gq_life_join)
next
  case (gq_joined t s x r v s')
  then have s': "s' = s\<lparr>tcbs := (tcbs s)(x := None)\<rparr>" by (auto simp: gq_join_finish_def state_of_def)
  have off: "x \<notin> set (active_queue s)" by (rule gq_life_off [OF gq_joined(4,2)]) simp
  have "gq_life s x = Some Exited" using gq_life_asleep [OF gq_joined(4,2)] by simp
  moreover have "gq_life s' = (gq_life s)(x := None)"
    using off by (auto simp: s' gq_life_def state_of_def fun_eq_iff)
  moreover have "views s' = (views s)(x := None)" by (rule views_gone) (simp add: s')
  ultimately show ?case by (simp add: gq_abs_def lf_free)
next
  case (gq_exits t s ret s1 s')
  then show ?case by (intro gq_life_exit)
next
  case (gq_config s can)
  have "gq_life (gq_upthread_can_vcore_request can s) = gq_life s"
    by (simp add: gq_life_def gq_upthread_can_vcore_request_def state_of_def fun_eq_iff)
  moreover have "views (gq_upthread_can_vcore_request can s) = views s"
    by (rule views_cong) (simp add: gq_upthread_can_vcore_request_def)
  ultimately show ?case by (simp add: gq_abs_def lf_idle)
qed

lemma gq_life_sim:
  assumes "gq_step s s'" and "gq_ok s"
  shows "life_step False (gq_abs s) (gq_abs s')"
  using assms
proof (induction rule: sched_step.induct)
  case (ss_block t s f s')
  then have inv: "gq_inv s" and act: "t \<in> set (active_queue s)" by (simp_all add: gq_ok_def gq_running_def)
  from gq_has_blocked_inv [OF inv act, of f] ss_block(2) obtain p where
    "active_queue s' = remove1 t (active_queue s)" "tcbs s t = Some p" "schedulable (tcb_state p)"
    "tcbs s' = (tcbs s)(t \<mapsto> p\<lparr>tcb_state := UPTH_BLK_MUTEX\<rparr>)" by auto
  from gq_life_stop [OF ss_block(3) this, of Waiting] gq_life_active [OF act]
  show ?case by (simp add: gq_abs_def lf_wait)
next
  case (ss_pause t s s')
  then have "gq_moves s s'" by (simp add: gq_preempt gq_running_def)
  then show ?case using ss_pause(3) by (rule gq_life_moves)
next
  case (ss_wake t s s')
  then obtain p where p: "tcbs s t = Some p" "tcb_state p = UPTH_BLK_MUTEX"
    by (auto simp: blocked_threads_def state_of_def)
  have inv: "gq_inv s" using ss_wake(3) by (simp add: gq_ok_def)
  from gq_runnable_inv [OF inv p(1)] p(2) ss_wake(2) have
    s': "active_queue s' = active_queue s" "tcbs s' = (tcbs s)(t \<mapsto> p\<lparr>tcb_state := UPTH_RUNNABLE\<rparr>)" by auto
  from gq_abs_wake [OF ss_wake(3) s'(1) p(1) s'(2)] p(2) show ?case
    by (simp add: gq_abs_def tcb_view_live lf_wake)
next
  case (ss_move s s')
  then show ?case by (rule gq_life_moves)
qed

lemma gq_life_start:
  assumes "gq_init s"
  shows "life_init (gq_abs s)"
proof -
  from assms obtain spin t b z where "gq_upthread_lib_init spin t b z gq_globals = Some s"
    by (auto simp: gq_init_def)
  with gq_lib_init_eq [of spin t b z] have s: "active_queue s = [t]"
    "tcbs s = [t \<mapsto> tcb_zero\<lparr>tcb_id := 0, tcb_stacktop := b + z, tcb_stacksize := ucast z,
       tcb_detached := True, tcb_state := UPTH_RUNNING, tcb_joiner := None\<rparr>]" by auto
  have "gq_life s = [t \<mapsto> Running]" using s by (auto simp: gq_life_def state_of_def fun_eq_iff)
  moreover obtain p where "views s = [t \<mapsto> p]" "tv_result p = None" "tv_waiter p = None"
    using s(2) by (auto simp: views_def fun_eq_iff tcb_view_live)
  ultimately show ?thesis by (auto simp: life_init_def gq_abs_def)
qed

interpretation gq_refines: refines_life False gq_init gq_step gq_abs
  by unfold_locales (simp_all add: gq_life_start gq_life_sim gq_reachable_ok)

end
