(* ===== verification/Lifecycle_Pvcq.thy ===== *)
theory Lifecycle_Pvcq
  imports Lifecycle_Gq Pvcq_Correct
begin

text \<open>
  The per-vcore-queue scheduler refines the specification of \<^verbatim>\<open>Lifecycle\<close> as well: stealing, the
  choice of queues and the pool of control blocks are invisible there.
\<close>

section \<open>Abstraction\<close>

definition pvcq_life :: "pvcq \<Rightarrow> upthread_t \<rightharpoonup> life" where
  "pvcq_life s t = map_option life_of (state_of (pvcq_live s) t)"

definition pvcq_abs :: "pvcq \<Rightarrow> abs_threads" where
  "pvcq_abs s = (pvcq_life s, views (pvcq_live s))"

lemma pvcq_life_Some: "tcbs (pvcq_live s) t = Some p \<Longrightarrow> pvcq_life s t = Some (life_of (tcb_state p))"
  by (simp add: pvcq_life_def state_of_def)

lemma pvcq_life_upd:
  "tcbs (pvcq_live s') = (tcbs (pvcq_live s))(t \<mapsto> q) \<Longrightarrow> life_of (tcb_state q) = l \<Longrightarrow>
   pvcq_life s' = (pvcq_life s)(t \<mapsto> l)"
  by (auto simp: pvcq_life_def state_of_def fun_eq_iff)

text \<open>One block changes: its phase, and its view if that is affected.\<close>

lemma pvcq_abs_upd:
  assumes "tcbs (pvcq_live s') = (tcbs (pvcq_live s))(t \<mapsto> q)"
  shows "pvcq_abs s' = ((pvcq_life s)(t \<mapsto> life_of (tcb_state q)), (views (pvcq_live s))(t \<mapsto> tcb_view q))"
  by (simp add: pvcq_abs_def pvcq_life_upd [OF assms] views_upd [OF assms])

lemma pvcq_abs_same:
  assumes "tcbs (pvcq_live s') = (tcbs (pvcq_live s))(t \<mapsto> q)" and "tcbs (pvcq_live s) t = Some p"
    and "tcb_view q = tcb_view p"
  shows "pvcq_abs s' = ((pvcq_life s)(t \<mapsto> life_of (tcb_state q)), views (pvcq_live s))"
  by (simp add: pvcq_abs_def pvcq_life_upd [OF assms(1)] views_same [OF assms])

lemma pvcq_abs_free:
  assumes "tcbs (pvcq_live s') = (tcbs (pvcq_live s))(t := None)"
  shows "pvcq_abs s' = ((pvcq_life s)(t := None), (views (pvcq_live s))(t := None))"
  by (simp add: pvcq_abs_def views_gone [OF assms])
    (use assms in \<open>simp add: pvcq_life_def state_of_def fun_eq_iff\<close>)

lemma pvcq_abs_cong:
  assumes "\<And>t. map_option (\<lambda>p. (tcb_state p, tcb_view p)) (tcbs (pvcq_live s') t) =
    map_option (\<lambda>p. (tcb_state p, tcb_view p)) (tcbs (pvcq_live s) t)"
  shows "pvcq_abs s' = pvcq_abs s"
proof -
  have "map_option tcb_state (tcbs (pvcq_live s') t) = map_option tcb_state (tcbs (pvcq_live s) t) \<and>
      map_option tcb_view (tcbs (pvcq_live s') t) = map_option tcb_view (tcbs (pvcq_live s) t)" for t
    using assms [of t] by (cases "tcbs (pvcq_live s') t"; cases "tcbs (pvcq_live s) t") simp_all
  then show ?thesis by (simp add: pvcq_abs_def pvcq_life_def views_def state_of_def fun_eq_iff)
qed

lemma pvcq_same_abs:
  assumes "pvcq_same s s'"
  shows "pvcq_abs s' = pvcq_abs s"
proof (rule pvcq_abs_cong)
  fix t
  from assms have z: "zombie_list s' = zombie_list s" by (simp add: pvcq_same_def)
  from assms obtain v where "tcbs s' t = map_option (\<lambda>p. p\<lparr>tcb_preferred_vcq := v\<rparr>) (tcbs s t)"
    unfolding pvcq_same_def by blast
  then show "map_option (\<lambda>p. (tcb_state p, tcb_view p)) (tcbs (pvcq_live s') t) =
      map_option (\<lambda>p. (tcb_state p, tcb_view p)) (tcbs (pvcq_live s) t)"
    by (cases "tcbs s t") (simp_all add: pvcq_live_tcbs restrict_map_def z tcb_view_def)
qed

lemma pvcq_life_setting:
  assumes "tcbs s' = tcbs s" and "zombie_list s' = zombie_list s"
  shows "life_step True (pvcq_abs s) (pvcq_abs s')"
proof -
  have "pvcq_abs s' = pvcq_abs s" by (rule pvcq_abs_cong) (simp add: pvcq_live_tcbs assms)
  then show ?thesis by (simp add: pvcq_abs_def lf_idle)
qed

lemma pvcq_life_running:
  assumes "t \<in> pvcq_running s"
  shows "pvcq_life s t = Some Running"
  using assms by (simp add: pvcq_running_def pvcq_life_def)

section \<open>Steps\<close>

lemma pvcq_life_dispatch:
  assumes inv: "pvcq_inv {} s" and me: "0 \<le> me" "me < max_vcores s" "0 < n" "n \<le> max_vcores s"
    and rnd: "\<forall>x. 0 \<le> fst (rand_r x)" and deq: "pvcq_dequeue rand_r n me s = Some (Some t, s1)"
    and run: "set_state t UPTH_RUNNING s1 = Some s'"
  shows "life_step True (pvcq_abs s) (pvcq_abs s')"
proof -
  from pvcq_dispatch_inv [OF inv deq me rnd] run obtain p where d: "pvcq_same s s1"
    "tcbs (pvcq_live s1) t = Some p" "tcb_state p = UPTH_RUNNABLE"
    "tcbs (pvcq_live s') = (tcbs (pvcq_live s1))(t \<mapsto> p\<lparr>tcb_state := UPTH_RUNNING\<rparr>)" by auto
  have "tcb_view (p\<lparr>tcb_state := UPTH_RUNNING\<rparr>) = tcb_view p" using d(3) by (simp add: tcb_view_live)
  from pvcq_abs_same [OF d(4,2) this] pvcq_life_Some [OF d(2)] d(3) pvcq_same_abs [OF d(1)]
  show ?thesis by (simp add: pvcq_abs_def lf_run)
qed

lemma pvcq_life_search:
  assumes inv: "pvcq_inv {} s" and me: "0 \<le> me" "me < max_vcores s" "0 < n" "n \<le> max_vcores s"
    and rnd: "\<forall>x. 0 \<le> fst (rand_r x)" and deq: "pvcq_dequeue rand_r n me s = Some (None, s')"
  shows "life_step True (pvcq_abs s) (pvcq_abs s')"
proof -
  from me obtain v where v: "vc_get me s = Some v" using vc_get_defined by blast
  from pvcq_dequeue_spec [OF inv me rnd v] deq have "stole {} s None s'" by force
  then have "pvcq_same s s'" by (simp add: stole_def)
  from pvcq_same_abs [OF this] show ?thesis by (simp add: pvcq_abs_def lf_idle)
qed

text \<open>A running thread goes back to a queue: yield and pause.\<close>

lemma pvcq_life_stop:
  assumes inv: "pvcq_inv {} s" and t: "t \<in> pvcq_running s" and st: "wakeable st" "st \<noteq> UPTH_CREATED"
    and go: "Option.bind (set_state t st s) (pvcq_pth_thread_runnable t) = Some s'"
  shows "life_step True (pvcq_abs s) (pvcq_abs s')"
proof -
  from t obtain p where p: "tcbs (pvcq_live s) t = Some p" "tcb_state p = UPTH_RUNNING" by (elim pvcq_runningE)
  from pvcq_stop_and_go [OF inv p st] go have
    s': "tcbs (pvcq_live s') = (tcbs (pvcq_live s))(t \<mapsto> p\<lparr>tcb_state := UPTH_RUNNABLE\<rparr>)" by auto
  have "tcb_view (p\<lparr>tcb_state := UPTH_RUNNABLE\<rparr>) = tcb_view p" using p(2) by (simp add: tcb_view_live)
  from pvcq_abs_same [OF s' p(1) this] pvcq_life_running [OF t] show ?thesis by (simp add: pvcq_abs_def lf_stop)
qed

text \<open>A running thread leaves with a state that keeps it off the queues.\<close>

lemma pvcq_life_block:
  assumes inv: "pvcq_inv {} s" and t: "t \<in> pvcq_running s" and st: "st \<noteq> UPTH_RUNNABLE" "st \<noteq> UPTH_EXITING"
    and upd: "set_state t st s = Some s1" and s': "tcbs s' = tcbs s1" "zombie_list s' = zombie_list s1"
  shows "pvcq_abs s' = ((pvcq_life s)(t \<mapsto> life_of st), views (pvcq_live s))"
proof -
  from t obtain p where p: "tcbs (pvcq_live s) t = Some p" "tcb_state p = UPTH_RUNNING" by (elim pvcq_runningE)
  from pvcq_stop_inv [OF inv p st(1)] upd have
    "tcbs (pvcq_live s1) = (tcbs (pvcq_live s))(t \<mapsto> p\<lparr>tcb_state := st\<rparr>)" by auto
  then have s': "tcbs (pvcq_live s') = (tcbs (pvcq_live s))(t \<mapsto> p\<lparr>tcb_state := st\<rparr>)"
    using s' by (simp add: pvcq_live_tcbs)
  have "tcb_view (p\<lparr>tcb_state := st\<rparr>) = tcb_view p" using p(2) st(2) by (simp add: tcb_view_live)
  from pvcq_abs_same [OF s' p(1) this] show ?thesis by simp
qed

text \<open>A thread that waits for a primitive or a system call is queued again.\<close>

lemma pvcq_life_wake:
  assumes inv: "pvcq_inv {} s" and p: "tcbs (pvcq_live s) t = Some p" "wakeable (tcb_state p)"
    and run: "pvcq_pth_thread_runnable t s = Some s'"
  shows "pvcq_abs s' = ((pvcq_life s)(t \<mapsto> Ready), views (pvcq_live s))"
proof -
  from pvcq_runnable_inv [OF inv p] run obtain i where
    s': "tcbs (pvcq_live s') = (tcbs (pvcq_live s))(t \<mapsto> p\<lparr>tcb_state := UPTH_RUNNABLE, tcb_preferred_vcq := i\<rparr>)" by auto
  have "tcb_view (p\<lparr>tcb_state := UPTH_RUNNABLE, tcb_preferred_vcq := i\<rparr>) = tcb_view p"
    using p(2) by (cases "tcb_state p") (simp_all add: tcb_view_live)
  from pvcq_abs_same [OF s' p(1) this] show ?thesis by simp
qed

lemma pvcq_life_sysdone:
  assumes inv: "pvcq_inv {} s" and "u_data s sysc = Some t" and "state_of (pvcq_live s) t = Some UPTH_BLK_SYSC"
    and run: "pvcq_pth_handle_syscall (Some sysc) s = Some s'"
  shows "life_step True (pvcq_abs s) (pvcq_abs s')"
proof -
  from assms(3) obtain p where p: "tcbs (pvcq_live s) t = Some p" "tcb_state p = UPTH_BLK_SYSC"
    by (auto simp: state_of_def)
  let ?q = "p\<lparr>uth_sysc := None\<rparr>" and ?s = "s\<lparr>tcbs := (tcbs s)(t \<mapsto> p\<lparr>uth_sysc := None\<rparr>)\<rparr>"
  have s1: "pvcq_inv {} ?s" "tcbs (pvcq_live ?s) = (tcbs (pvcq_live s))(t \<mapsto> ?q)"
    using pvcq_inv_field [OF inv p(1), of ?s ?q] pvcq_inv_queues_ok [OF inv] by simp_all
  have go: "pvcq_pth_thread_runnable t ?s = Some s'"
    using run assms(2) p(1) by (simp add: pvcq_pth_handle_syscall_def pvcq_restart_thread_def pvcq_live_Some)
  have "tcbs (pvcq_live ?s) t = Some ?q" "wakeable (tcb_state ?q)" using s1(2) p(2) by simp_all
  note w = pvcq_life_wake [OF s1(1) this go]
  have "pvcq_abs ?s = pvcq_abs s" by (rule pvcq_abs_cong) (use s1(2) p in \<open>simp add: tcb_view_live\<close>)
  with w pvcq_life_Some [OF p(1)] p(2) show ?thesis by (simp add: pvcq_abs_def lf_return)
qed

lemma pvcq_life_join:
  assumes ok: "pvcq_ok s" and t: "t \<in> pvcq_running s" and x: "x \<noteq> t" "tcbs (pvcq_live s) x = Some q"
    and nd: "\<not> tcb_detached q" and q: "tcb_joiner q = None \<or> tcb_state q = UPTH_EXITING"
    and cb: "pvcq_pth_join_cb pvcq_pth_thread_runnable t x s = Some s'"
  shows "life_step True (pvcq_abs s) (pvcq_abs s')"
proof -
  have inv: "pvcq_inv {} s" and jok: "join_ok (pvcq_live s)" using ok by (simp_all add: pvcq_ok_def)
  from t obtain p where p: "tcbs (pvcq_live s) t = Some p" "tcb_state p = UPTH_RUNNING" by (elim pvcq_runningE)
  define st where "st = (if tcb_joiner q = None then UPTH_BLK_JOINING else UPTH_RUNNABLE)"
  from pvcq_join_cb_inv [OF inv p x(2,1)] cb have
    "tcbs (pvcq_live s') = (tcbs (pvcq_live s))(t \<mapsto> p\<lparr>tcb_state := st\<rparr>, x \<mapsto> q\<lparr>tcb_joiner := Some t\<rparr>)"
    by (auto simp: st_def)
  then have s': "pvcq_abs s' = ((pvcq_life s)(t \<mapsto> life_of st),
      (views (pvcq_live s))(x \<mapsto> tcb_view (q\<lparr>tcb_joiner := Some t\<rparr>)))"
    using x p by (auto simp: pvcq_abs_def pvcq_life_def views_def state_of_def fun_eq_iff tcb_view_live st_def)
  note run = pvcq_life_running [OF t] and vx = views_Some [OF x(2)]
  show ?thesis
  proof (cases "tcb_joiner q")
    case None
    then have "joiner_of (pvcq_live s) x = None" using x(2) by (simp add: joiner_of_def)
    then have "state_of (pvcq_live s) x \<noteq> Some UPTH_EXITING" using join_ok_exited [OF jok, of x] by auto
    then have "tcb_state q \<noteq> UPTH_EXITING" "pvcq_life s x \<noteq> Some Exited"
      using x(2) by (cases "tcb_state q"; simp add: pvcq_life_def state_of_def)+
    with None nd run s' vx x(1) lf_join [of "pvcq_life s" t x "views (pvcq_live s)" "tcb_view q"] show ?thesis
      by (simp add: pvcq_abs_def tcb_view_live st_def)
  next
    case (Some w)
    then have "tcb_view (q\<lparr>tcb_joiner := Some t\<rparr>) = tcb_view q" using q by (simp add: tcb_view_def)
    with vx have "(views (pvcq_live s))(x \<mapsto> tcb_view (q\<lparr>tcb_joiner := Some t\<rparr>)) = views (pvcq_live s)"
      by (auto simp: fun_eq_iff)
    with run s' Some show ?thesis by (simp add: pvcq_abs_def lf_stop st_def)
  qed
qed

lemma pvcq_life_exit:
  assumes pl: "platform_ok pl" and ok: "pvcq_ok s" and t: "t \<in> pvcq_running s"
    and ex: "pvcq_upthread_exit ret t s = Some s1"
    and cb: "pvcq_pth_exit_cb pvcq_pth_thread_runnable pl t s1 = Some s'"
  shows "life_step True (pvcq_abs s) (pvcq_abs s')"
proof -
  have inv: "pvcq_inv {} s" using ok by (simp add: pvcq_ok_def)
  from t obtain p where p: "tcbs (pvcq_live s) t = Some p" "tcb_state p = UPTH_RUNNING" by (elim pvcq_runningE)
  let ?p = "p\<lparr>tcb_retval := ret\<rparr>"
  from pvcq_upthread_exit_inv [OF inv p(1), of ret] ex have s1: "pvcq_inv {} s1"
    "tcbs (pvcq_live s1) = (tcbs (pvcq_live s))(t \<mapsto> ?p)" by auto
  have ok1: "pvcq_ok s1" using pvcq_ok_neutral [OF ok p(1) s1] p(2) by simp
  have t1: "tcbs (pvcq_live s1) t = Some ?p" "tcb_state ?p = UPTH_RUNNING" using s1(2) p(2) by simp_all
  have v: "tcb_view ?p = tcb_view p" "tv_waiter (tcb_view p) = tcb_joiner p" using p(2) by (simp_all add: tcb_view_live)
  have l1: "pvcq_abs s1 = pvcq_abs s" using pvcq_abs_same [OF s1(2) p(1) v(1)] pvcq_life_Some [OF p(1)]
    by (simp add: pvcq_abs_def fun_upd_idem)
  have jok1: "join_ok (pvcq_live s1)" using ok1 by (simp add: pvcq_ok_def)
  note run = pvcq_life_running [OF t] and vt = views_Some [OF p(1)]
  show ?thesis
  proof (cases "tcb_detached p")
    case True
    then have "tcb_detached ?p" by simp
    from pvcq_exit_cb_detached [OF pl s1(1) t1 this, of pvcq_pth_thread_runnable] cb have
      "tcbs (pvcq_live s') = (tcbs (pvcq_live s1))(t := None)" by auto
    note pvcq_abs_free [OF this]
    moreover have "t \<in> detached_threads (pvcq_live s1)" using t1(1) True by (simp add: detached_threads_def)
    then have "tcb_joiner p = None"
      using join_ok_detached [OF jok1, of t] t1(1) by (cases "tcb_joiner p") (auto simp: joiner_of_def)
    ultimately show ?thesis using l1 run vt v(2) True lf_vanish [of "pvcq_life s" t "views (pvcq_live s)"]
      by (simp add: pvcq_abs_def)
  next
    case False
    then have "\<not> tcb_detached ?p" by simp
    from pvcq_exit_cb_joinable [OF ok1 t1 this, of pl] cb have
      e: "tcbs (pvcq_live s') t = Some (?p\<lparr>tcb_state := UPTH_EXITING, tcb_joiner := Some t\<rparr>)"
      "\<And>w. tcb_joiner p = Some w \<Longrightarrow> w \<noteq> t \<and> (\<exists>q. tcbs (pvcq_live s1) w = Some q \<and>
         tcb_state q = UPTH_BLK_JOINING \<and> tcbs (pvcq_live s') w = Some (q\<lparr>tcb_state := UPTH_RUNNABLE\<rparr>))"
      "\<And>y. y \<noteq> t \<Longrightarrow> tcb_joiner p \<noteq> Some y \<Longrightarrow> tcbs (pvcq_live s') y = tcbs (pvcq_live s1) y" by auto
    have at_t: "pvcq_life s' t = Some Exited"
      "views (pvcq_live s') t = Some ((tcb_view p)\<lparr>tv_result := Some ret, tv_waiter := None\<rparr>)"
      using pvcq_life_Some [OF e(1)] views_Some [OF e(1)] by (simp_all add: tcb_view_def)
    have other: "pvcq_life s' y = pvcq_life s1 y \<and> views (pvcq_live s') y = views (pvcq_live s1) y"
      if "y \<noteq> t" "tcb_joiner p \<noteq> Some y" for y
      using e(3) [OF that] by (simp add: pvcq_life_def state_of_def views_def)
    show ?thesis
    proof (cases "tcb_joiner p")
      case None
      then have "pvcq_abs s' = ((pvcq_life s1)(t \<mapsto> Exited),
          (views (pvcq_live s1))(t \<mapsto> (tcb_view p)\<lparr>tv_result := Some ret\<rparr>))"
        using at_t other v(2) by (auto simp: pvcq_abs_def fun_eq_iff)
      with l1 run vt v(2) None False lf_exit [of "pvcq_life s" t "views (pvcq_live s)"]
      show ?thesis by (simp add: pvcq_abs_def)
    next
      case (Some w)
      from e(2) [OF this] obtain q where q: "w \<noteq> t" "tcbs (pvcq_live s1) w = Some q"
        "tcb_state q = UPTH_BLK_JOINING" "tcbs (pvcq_live s') w = Some (q\<lparr>tcb_state := UPTH_RUNNABLE\<rparr>)" by blast
      have "pvcq_life s' w = Some Ready" "views (pvcq_live s') w = views (pvcq_live s1) w"
        using pvcq_life_Some [OF q(4)] q by (simp_all add: views_def tcb_view_live)
      then have "pvcq_abs s' = ((pvcq_life s1)(t \<mapsto> Exited, w \<mapsto> Ready),
          (views (pvcq_live s1))(t \<mapsto> (tcb_view p)\<lparr>tv_result := Some ret, tv_waiter := None\<rparr>))"
        using at_t other Some q(1) by (auto simp: pvcq_abs_def fun_eq_iff)
      with l1 run vt v(2) Some False lf_exit_wake [of "pvcq_life s" t "views (pvcq_live s)" _ w]
      show ?thesis by (simp add: pvcq_abs_def)
    qed
  qed
qed

lemma pvcq_life_moves:
  assumes "pvcq_moves s s'" and "pvcq_ok s"
  shows "life_step True (pvcq_abs s) (pvcq_abs s')"
  using assms
proof (induction rule: pvcq_moves.induct)
  case (pv_dispatch me s n rand_r t s1 s')
  then show ?case by (intro pvcq_life_dispatch) (simp_all add: pvcq_ok_def)
next
  case (pv_search me s n rand_r s')
  then show ?case by (intro pvcq_life_search) (simp_all add: pvcq_ok_def)
next
  case (pv_yields t s s')
  then show ?case
    by (intro pvcq_life_stop [of s t UPTH_BLK_YIELDING])
      (simp_all add: pvcq_ok_def pvcq_pth_yield_cb_def pvcq_generic_yield_def)
next
  case (pv_syscall t s sysc s')
  then obtain s1 where "set_state t UPTH_BLK_SYSC s = Some s1" "tcbs s' = tcbs s1" "zombie_list s' = zombie_list s1"
    by (auto simp: pvcq_pth_blockon_syscall_def pvcq_generic_yield_def bind_eq_Some_conv)
  from pvcq_life_block [OF _ pv_syscall(1) _ _ this] pv_syscall(3)
  show ?case using pvcq_life_running [OF pv_syscall(1)] by (simp add: pvcq_abs_def pvcq_ok_def lf_call)
next
  case (pv_sysdone s sysc t s')
  then show ?case by (intro pvcq_life_sysdone) (simp_all add: pvcq_ok_def)
next
  case (pv_creates pl s t mmap attr start arg r s')
  then have inv: "pvcq_inv {} s" by (simp add: pvcq_ok_def)
  from pvcq_create_inv [OF pv_creates(1) inv pv_creates(2,3)] obtain q where
    q: "tcbs (pvcq_live s) t = None" "tcbs (pvcq_live s') = (tcbs (pvcq_live s))(t \<mapsto> q)"
      "tcb_state q = UPTH_RUNNABLE" "tcb_joiner q = None" by blast
  have "pvcq_life s t = None" using q(1) by (simp add: pvcq_life_def state_of_def)
  with pvcq_abs_upd [OF q(2)] q(3,4) show ?case by (simp add: pvcq_abs_def lf_spawn tcb_view_live)
next
  case (pv_joins t s x q s')
  then show ?case by (intro pvcq_life_join)
next
  case (pv_joined pl t s x r v s')
  then have inv: "pvcq_inv {} s" by (simp add: pvcq_ok_def)
  from pv_joined(3) obtain q where q: "tcbs (pvcq_live s) x = Some q" "tcb_state q = UPTH_EXITING"
    by (auto simp: state_of_def)
  have "tcb_state q \<noteq> UPTH_RUNNABLE" by (simp add: q(2))
  from pvcq_free_inv [OF pv_joined(1) inv q(1) this] pv_joined(4) q(1) have
    "tcbs (pvcq_live s') = (tcbs (pvcq_live s))(x := None)" by (auto simp: pvcq_join_finish_def pvcq_live_Some)
  from pvcq_abs_free [OF this] pvcq_life_Some [OF q(1)] q(2) show ?case by (simp add: pvcq_abs_def lf_free)
next
  case (pv_exits pl t s ret s1 s')
  then show ?case by (intro pvcq_life_exit)
next
  case (pv_detaches s x q r s')
  then have inv: "pvcq_inv {} s" by (simp add: pvcq_ok_def)
  let ?q = "q\<lparr>tcb_detached := True\<rparr>"
  have s': "s' = s\<lparr>tcbs := (tcbs s)(x \<mapsto> ?q)\<rparr>"
    using pv_detaches(1,3) by (simp add: pvcq_upthread_detach_def pvcq_live_Some)
  have upd: "tcbs (pvcq_live s') = (tcbs (pvcq_live s))(x \<mapsto> ?q)"
    using pvcq_inv_field [OF inv pv_detaches(1), of s' ?q] pvcq_inv_queues_ok [OF inv] by (simp add: s')
  have "joiner_of (pvcq_live s) x = None" using pv_detaches(1,2) by (simp add: joiner_of_def)
  then have "state_of (pvcq_live s) x \<noteq> Some UPTH_EXITING"
    using join_ok_exited [of "pvcq_live s" x] pv_detaches(4) by (auto simp: pvcq_ok_def)
  then have live: "tcb_state q \<noteq> UPTH_EXITING" "pvcq_life s x \<noteq> Some Exited"
    using pv_detaches(1) by (cases "tcb_state q"; simp add: pvcq_life_def state_of_def)+
  have "(pvcq_life s)(x \<mapsto> life_of (tcb_state ?q)) = pvcq_life s"
    using pvcq_life_Some [OF pv_detaches(1)] by (simp add: fun_upd_idem)
  with pvcq_abs_upd [OF upd] live pv_detaches(2) views_Some [OF pv_detaches(1)]
    lf_detach [of True "pvcq_life s" x "views (pvcq_live s)" "tcb_view q"]
  show ?case by (simp add: pvcq_abs_def tcb_view_live)
qed (intro pvcq_life_setting; simp add: pvcq_upthread_can_vcore_request_def
    pvcq_upthread_can_vcore_steal_def pvcq_upthread_set_num_vcores_def
    pvcq_upthread_short_circuit_yield_def Let_def)+

lemma pvcq_life_sim:
  assumes "pvcq_step s s'" and "pvcq_ok s"
  shows "life_step True (pvcq_abs s) (pvcq_abs s')"
  using assms
proof (induction rule: sched_step.induct)
  case (ss_block t s f s')
  then obtain s1 where "set_state t UPTH_BLK_MUTEX s = Some s1" "tcbs s' = tcbs s1" "zombie_list s' = zombie_list s1"
    by (auto simp: pvcq_pth_thread_has_blocked_def pvcq_generic_yield_def bind_eq_Some_conv ext_def)
  from pvcq_life_block [OF _ ss_block(1) _ _ this] ss_block(3)
  show ?case using pvcq_life_running [OF ss_block(1)] by (simp add: pvcq_abs_def pvcq_ok_def lf_wait)
next
  case (ss_pause t s s')
  then show ?case
    by (intro pvcq_life_stop [of s t UPTH_BLK_PAUSED])
      (simp_all add: pvcq_ok_def pvcq_pth_thread_paused_def pvcq_generic_yield_def)
next
  case (ss_wake t s s')
  then have inv: "pvcq_inv {} s" by (simp add: pvcq_ok_def)
  from ss_wake(1) obtain p where p: "tcbs (pvcq_live s) t = Some p" "tcb_state p = UPTH_BLK_MUTEX"
    by (auto simp: pvcq_blocked_def blocked_threads_def state_of_def)
  have "wakeable (tcb_state p)" by (simp add: p(2))
  from pvcq_life_wake [OF inv p(1) this] ss_wake(2) pvcq_life_Some [OF p(1)] p(2)
  show ?case by (simp add: pvcq_abs_def lf_wake)
next
  case (ss_move s s')
  then show ?case by (rule pvcq_life_moves)
qed

lemma pvcq_life_start:
  assumes "pvcq_init s"
  shows "life_init (pvcq_abs s)"
proof -
  from assms obtain pl mmap spin b z t n where "platform_ok pl" "0 < n" "int n \<le> INT_MAX"
    "pvcq_upthread_lib_init pl mmap spin b z (pvcq_globals n) = Some (t, s)"
    by (auto simp: pvcq_init_def)
  from pvcq_init_state [OF this] obtain q where
    q: "tcbs (pvcq_live s) = [t \<mapsto> q]" "tcb_state q = UPTH_RUNNING" "tcb_joiner q = None" by blast
  have "pvcq_life s = [t \<mapsto> Running]" "views (pvcq_live s) = [t \<mapsto> tcb_view q]"
    using q by (auto simp: pvcq_life_def views_def state_of_def fun_eq_iff)
  moreover have "tv_result (tcb_view q) = None" "tv_waiter (tcb_view q) = None"
    using q by (simp_all add: tcb_view_live)
  ultimately show ?thesis unfolding life_init_def pvcq_abs_def by blast
qed

interpretation pvcq_refines: refines_life True pvcq_init pvcq_step pvcq_abs
  by unfold_locales (simp_all add: pvcq_life_start pvcq_life_sim pvcq_reachable_ok)

section \<open>Properties\<close>

text \<open>
  C7: the global-queue scheduler refines the abstract scheduler: its threads start as the
  specification says, and every step from a reachable state is one step of the specification. So in
  every reachable state exactly the exited threads have a result, whoever waits for a thread is
  asleep in a join for that thread alone, the thread has not exited, and nobody is asleep in a join
  without a thread to wait for.
\<close>

theorem gq_refines_lifecycle:
  assumes "reachable gq_init gq_step s"
  shows "reachable life_init (life_step False) (gq_abs s) \<and> life_ok (gq_abs s) \<and>
    (\<forall>s'. gq_step s s' \<longrightarrow> life_step False (gq_abs s) (gq_abs s'))"
  using gq_refines.reachable_life [OF assms] gq_refines.reachable_life_ok [OF assms]
    gq_refines.step_life [OF assms] by blast

theorem gq_refines_lifecycle_witness:
  "life_step False (gq_abs gq_demo0) (gq_abs gq_demo1) \<and> fst (gq_abs gq_demo1) 4096 = Some Running"
  using gq_refines_lifecycle [OF gq_demo0_reachable] gq_demo1_step by (simp add: gq_abs_def gq_life_def gq_demo1)



end
