(* ===== verification/Barrier_Gq.thy ===== *)
theory Barrier_Gq
  imports Semaphore_Gq
begin

text \<open>
  Barriers on the global-queue scheduler: what every reachable state of a barrier in use satisfies,
  for the scheduler's own operations.
\<close>

section \<open>A small execution\<close>

text \<open>Threads 1 and 2 share the barrier; thread 2 arrives, stalls a thousand times and goes to
  sleep.\<close>

abbreviation demo_P :: "upthread_t set" where
  "demo_P \<equiv> {1, 2}"

definition demo_bar0 :: "gq barsys" where
  "demo_bar0 = \<lparr>br_bar = snd (upthread_barrier_init [0, 0] [0, 0] 2), br_sched = gq_three,
     br_pc = (\<lambda>_. BIdle), br_lock = (\<lambda>_. None), br_lead = None, br_gen = 0, br_arr = (\<lambda>_. 0),
     br_ret = (\<lambda>_. 0)\<rparr>"

definition demo_bar :: "bpc \<Rightarrow> gq barsys" where
  "demo_bar p = demo_bar0\<lparr>br_bar := (br_bar demo_bar0)\<lparr>bar_arrived := 1\<rparr>,
     br_pc := (br_pc demo_bar0)(2 := p), br_arr := (br_arr demo_bar0)(2 := 1)\<rparr>"

definition demo_bar_held :: "gq barsys" where
  "demo_bar_held = (demo_bar (BHeld False 0 1000))\<lparr>br_lock := (\<lambda>_. None)(False := Some 2)\<rparr>"

definition demo_bar_asleep :: "gq barsys" where
  "demo_bar_asleep = (demo_bar (BAsleep False 0 1000))\<lparr>
     br_bar := set_blocked_at False \<lparr>cq_queue = [2, 0], cq_len = 1, cq_maxlen = 2\<rparr>
       (br_bar (demo_bar BIdle)), br_sched := gq_three2\<rparr>"

lemmas demo_bar_defs = demo_bar_def demo_bar0_def upthread_barrier_init_def

abbreviation demo_bar_reach :: "gq barsys \<Rightarrow> bool" where
  "demo_bar_reach \<equiv> reachable (bar_start gq_ok demo_P) (bar_step gq_runtime gq_running gq_moves demo_P)"

lemma demo_bar_start: "bar_start gq_ok demo_P demo_bar0"
proof -
  have "upthread_barrier_init [0, 0] [0, 0] (int (card demo_P)) = (0, br_bar demo_bar0)"
    by (simp add: demo_bar_defs)
  moreover have "length [0 :: upthread_t, 0] = card demo_P" by simp
  ultimately show ?thesis unfolding bar_start_def
    by (intro conjI exI [of _ "[0, 0]"]) (simp_all add: demo_bar0_def gq_three_ok)
qed

lemma demo_bar_run: "2 \<in> gq_running gq_three" "1 \<in> gq_running gq_three2"
  by (simp_all add: gq_running_def gq_three_defs)

lemma demo_bar_arrived: "demo_bar_reach (demo_bar (BSpin False 0 0))"
proof -
  let ?B = "demo_bar0\<lparr>br_pc := (br_pc demo_bar0)(2 := BRead (bar_wait (br_bar demo_bar0)))\<rparr>"
  have 1: "bar_step gq_runtime gq_running gq_moves demo_P demo_bar0 ?B"
    by (rule b_enter) (use demo_bar_run in \<open>simp_all add: demo_bar0_def\<close>)
  have "bar_step gq_runtime gq_running gq_moves demo_P ?B
      (?B\<lparr>br_bar := (br_bar ?B)\<lparr>bar_arrived := 1\<rparr>, br_pc := (br_pc ?B)(2 := BSpin False 0 0),
         br_arr := (br_arr ?B)(2 := Suc (br_arr ?B 2))\<rparr>)"
    by (rule b_arrive)
      (use demo_bar_run in \<open>simp_all add: demo_bar0_def upthread_barrier_init_def barrier_arrive_def wrap32_def\<close>)
  moreover have "?B\<lparr>br_bar := (br_bar ?B)\<lparr>bar_arrived := 1\<rparr>, br_pc := (br_pc ?B)(2 := BSpin False 0 0),
         br_arr := (br_arr ?B)(2 := Suc (br_arr ?B 2))\<rparr> = demo_bar (BSpin False 0 0)"
    by (simp add: demo_bar_defs)
  ultimately have 2: "bar_step gq_runtime gq_running gq_moves demo_P ?B (demo_bar (BSpin False 0 0))" by simp
  show ?thesis by (rule reach_step, rule reach_step, rule reach_init) (rule demo_bar_start 1 2)+
qed

lemma demo_bar_next:
  "bar_step gq_runtime gq_running gq_moves demo_P (demo_bar p) (demo_bar p\<lparr>br_pc := (br_pc (demo_bar p))(2 := q)\<rparr>) \<Longrightarrow>
   bar_step gq_runtime gq_running gq_moves demo_P (demo_bar p) (demo_bar q)"
  by (simp add: demo_bar_def demo_bar0_def)

lemma demo_bar_flag: "signal_at 0 (br_bar (demo_bar p)) = Some False"
  by (simp add: signal_at_def demo_bar_defs)

lemma demo_bar_spin: "n < 1000 \<Longrightarrow> demo_bar_reach (demo_bar (BSpin False 0 (int n)))"
proof (induction n)
  case 0
  then show ?case using demo_bar_arrived by simp
next
  case (Suc n)
  let ?p = "BSpin False 0 (int n)"
  have inc: "int_inc (int n) = Some (int (Suc n))" using Suc.prems by (simp add: int_inc_def)
  have "bar_step gq_runtime gq_running gq_moves demo_P (demo_bar ?p)
      (demo_bar ?p\<lparr>br_pc := (br_pc (demo_bar ?p))(2 :=
        (if int (Suc n) \<ge> MAXSTALLS then BStall False 0 (int (Suc n)) else BSpin False 0 (int (Suc n))))\<rparr>)"
    by (rule b_stall [OF _ _ demo_bar_flag inc]) (use demo_bar_run in \<open>simp_all add: demo_bar_def demo_bar0_def\<close>)
  with Suc.prems have "bar_step gq_runtime gq_running gq_moves demo_P (demo_bar ?p) (demo_bar (BSpin False 0 (int (Suc n))))"
    by (intro demo_bar_next) simp
  with Suc show ?case by (auto intro: reach_step)
qed

lemma demo_bar_stall:
  "bar_step gq_runtime gq_running gq_moves demo_P (demo_bar (BSpin False 0 0)) (demo_bar (BSpin False 0 1))"
proof -
  have inc: "int_inc 0 = Some 1" by (simp add: int_inc_def)
  have "bar_step gq_runtime gq_running gq_moves demo_P (demo_bar (BSpin False 0 0))
      (demo_bar (BSpin False 0 0)\<lparr>br_pc := (br_pc (demo_bar (BSpin False 0 0)))(2 :=
        (if 1 \<ge> MAXSTALLS then BStall False 0 1 else BSpin False 0 1))\<rparr>)"
    by (rule b_stall [OF _ _ demo_bar_flag inc]) (use demo_bar_run in \<open>simp_all add: demo_bar_def demo_bar0_def\<close>)
  then show ?thesis by (intro demo_bar_next) simp
qed

lemma demo_bar_asleep_reach: "demo_bar_reach demo_bar_asleep"
proof -
  let ?p = "BSpin False 0 (int 999)"
  have inc: "int_inc (int 999) = Some 1000" by (simp add: int_inc_def)
  have "bar_step gq_runtime gq_running gq_moves demo_P (demo_bar ?p)
      (demo_bar ?p\<lparr>br_pc := (br_pc (demo_bar ?p))(2 :=
        (if 1000 \<ge> MAXSTALLS then BStall False 0 1000 else BSpin False 0 1000))\<rparr>)"
    by (rule b_stall [OF _ _ demo_bar_flag inc]) (use demo_bar_run in \<open>simp_all add: demo_bar_def demo_bar0_def\<close>)
  then have 1: "bar_step gq_runtime gq_running gq_moves demo_P (demo_bar ?p) (demo_bar (BStall False 0 1000))"
    by (intro demo_bar_next) simp
  let ?s = "BStall False 0 1000"
  have "bar_step gq_runtime gq_running gq_moves demo_P (demo_bar ?s)
      (demo_bar ?s\<lparr>br_pc := (br_pc (demo_bar ?s))(2 := BHeld False 0 1000),
         br_lock := (br_lock (demo_bar ?s))(False := Some 2)\<rparr>)"
    by (rule b_lock [OF _ _ _ demo_bar_flag]) (use demo_bar_run in \<open>simp_all add: demo_bar_def demo_bar0_def\<close>)
  then have 2: "bar_step gq_runtime gq_running gq_moves demo_P (demo_bar ?s) demo_bar_held"
    by (simp add: demo_bar_held_def) (simp add: demo_bar_def demo_bar0_def)
  have hb: "uthread_has_blocked gq_runtime 2 UTH_EXT_BLK_MUTEX gq_three = Some gq_three2"
    by (simp add: gq_pth_thread_has_blocked_def gq_generic_yield_def gq_three_defs fun_upd_twist)
  have "barrier_block gq_runtime 2 (blocked_at False (br_bar demo_bar_held)) (br_sched demo_bar_held) =
      Some (\<lparr>cq_queue = [2, 0], cq_len = 1, cq_maxlen = 2\<rparr>, gq_three2)"
    using hb by (simp add: barrier_block_def demo_bar_held_def demo_bar_defs blocked_at_def cell_at_def int_inc_def)
  then have "bar_step gq_runtime gq_running gq_moves demo_P demo_bar_held
      (demo_bar_held\<lparr>br_bar := set_blocked_at False \<lparr>cq_queue = [2, 0], cq_len = 1, cq_maxlen = 2\<rparr> (br_bar demo_bar_held),
         br_sched := gq_three2, br_pc := (br_pc demo_bar_held)(2 := BAsleep False 0 1000),
         br_lock := (br_lock demo_bar_held)(False := None)\<rparr>)"
    by (intro b_block) (use demo_bar_run in \<open>simp_all add: demo_bar_held_def demo_bar_def demo_bar0_def\<close>)
  then have 3: "bar_step gq_runtime gq_running gq_moves demo_P demo_bar_held demo_bar_asleep"
    by (simp add: demo_bar_asleep_def) (simp add: demo_bar_held_def demo_bar_def demo_bar0_def)
  have 0: "demo_bar_reach (demo_bar ?p)" by (rule demo_bar_spin) simp
  show ?thesis by (rule reach_step, rule reach_step, rule reach_step) (rule 0 1 2 3)+
qed

section \<open>Properties\<close>

text \<open>
  C9: a barrier is what it should be. Every access to memory of \<open>upthread_barrier_wait\<close>, every
  preemption and every move of the scheduler is an arrival, a passage after every thread has
  arrived as often, or invisible; so every execution is one of the abstract barrier, where
  nobody passes early and nobody is a round ahead.
\<close>

theorem gq_barrier_refines:
  assumes "reachable (bar_start gq_ok P) (bar_step gq_runtime gq_running gq_moves P) B"
    and "bar_step gq_runtime gq_running gq_moves P B B'"
  shows "(abs_bar P (absbar_of B) (absbar_of B') \<or> absbar_of B' = absbar_of B) \<and>
         reachable absbar_start (abs_bar P) (absbar_of B') \<and> absbar_ok P (absbar_of B')"
proof -
  have "reachable absbar_start (abs_bar P) (absbar_of B')"
    by (rule gq_sched.bar_refines [OF reach_step [OF assms]])
  then show ?thesis
    using bar_step_refines [OF assms(2) gq_sched.bar_reachable_ok [OF assms(1)]] absbar_reachable_ok by blast
qed

theorem gq_barrier_refines_witness:
  "absbar_ok demo_P (absbar_of (demo_bar (BSpin False 0 1)))"
  using gq_barrier_refines [OF demo_bar_arrived demo_bar_stall] by blast

text \<open>
  C13: a call of \<open>upthread_barrier_wait\<close> ends. Along any execution, whatever the other threads and
  the scheduler do in between, a thread that is inside a call takes at most twice as many steps as
  there are threads, plus 1010: the stalls are bounded, a woken thread does not go back to
  sleep, and the two loops of the thread that opens the barrier run out.
\<close>

theorem gq_barrier_bounded:
  assumes "reachable (bar_start gq_ok P) (bar_step gq_runtime gq_running gq_moves P) (hd Bs)"
    and "Bs \<noteq> []" and "successively (bar_step gq_runtime gq_running gq_moves P) Bs"
    and "\<And>B. B \<in> set (butlast Bs) \<Longrightarrow> br_pc B t \<noteq> BIdle"
  shows "own_moves t Bs \<le> 2 * card P + 1010"
proof -
  note ok = gq_sched.bar_reachable_ok [OF assms(1)]
  have "own_moves t Bs + rank (card P) (br_pc (last Bs) t) \<le> rank (card P) (br_pc (hd Bs) t)"
    using gq_sched.bar_moves_bound [OF ok assms(2,3)] assms(4) by blast
  with rank_bound [OF ok, of t] show ?thesis by linarith
qed

theorem gq_barrier_bounded_witness:
  "own_moves 2 [demo_bar (BSpin False 0 0), demo_bar (BSpin False 0 1)] \<le> 1014"
proof -
  from demo_bar_stall gq_barrier_bounded [of demo_P "[demo_bar (BSpin False 0 0), demo_bar (BSpin False 0 1)]" 2] demo_bar_arrived
  show ?thesis by (simp add: demo_bar_def)
qed

text \<open>
  C23: no sleeper of a barrier is forgotten. A thread that sleeps is blocked in the scheduler and on
  the queue of its round, and either some thread has not arrived yet or a thread is on
  its way through the code that opens the barrier.
\<close>

theorem gq_barrier_asleep:
  assumes "reachable (bar_start gq_ok P) (bar_step gq_runtime gq_running gq_moves P) B"
    and "br_pc B t = BAsleep w k n"
  shows "t \<in> blocked_threads (br_sched B) \<and> t \<in> set (queued w B) \<and>
         ((\<exists>u \<in> P. br_arr B u < br_arr B t) \<or> (\<exists>l \<in> P. is_opening (br_pc B l)))"
  by (rule gq_sched.bar_asleep [OF gq_sched.bar_reachable_ok [OF assms(1)] assms(2)])

theorem gq_barrier_asleep_witness:
  "2 \<in> blocked_threads (br_sched demo_bar_asleep) \<and> 2 \<in> set (queued False demo_bar_asleep)"
  using gq_barrier_asleep [OF demo_bar_asleep_reach, of 2 False 0 1000]
  by (simp add: demo_bar_asleep_def demo_bar_def)

text \<open>
  C26: no thread is stuck inside a barrier and no access is undefined. A running thread can always
  take its next step (its flag and its cell of the queue exist, the count of stalls does not
  overflow, the threads it wakes are asleep), unless it is about to take the lock of a queue and
  another thread holds it.
\<close>

theorem gq_barrier_progress:
  assumes "reachable (bar_start gq_ok P) (bar_step gq_runtime gq_running gq_moves P) B"
    and "t \<in> P" and "t \<in> gq_running (br_sched B)"
  shows "(\<exists>B'. bar_step gq_runtime gq_running gq_moves P B B' \<and> br_pc B' t \<noteq> br_pc B t) \<or>
         (\<exists>w u. br_lock B w = Some u \<and> u \<noteq> t \<and> (br_pc B t = BRelease w \<or> (\<exists>k n. br_pc B t = BStall w k n)))"
  by (rule gq_sched.bar_progress [OF gq_sched.bar_reachable_ok [OF assms(1)] assms(2,3)])

theorem gq_barrier_progress_witness:
  "\<exists>B'. bar_step gq_runtime gq_running gq_moves demo_P demo_bar_asleep B' \<and>
        br_pc B' 1 \<noteq> br_pc demo_bar_asleep 1"
proof -
  have "1 \<in> gq_running (br_sched demo_bar_asleep)" using demo_bar_run by (simp add: demo_bar_asleep_def)
  from gq_barrier_progress [OF demo_bar_asleep_reach _ this] show ?thesis
    by (simp add: demo_bar_asleep_def demo_bar_def demo_bar0_def)
qed

text \<open>
  \<open>upthread_barrier_init\<close> accepts a count that is not positive, and the first thread to wait on
  such a barrier is not taken for the last one: it reads a flag past the end of the array.
\<close>

theorem barrier_nonpositive_count:
  assumes "n \<le> 0" and "upthread_barrier_init c0 c1 n = (r, b)" and "barrier_arrive b = (k, b')"
  shows "r = 0 \<and> k \<noteq> bar_N b' - 1 \<and> signal_at k b' = None"
  using assms by (auto simp: upthread_barrier_init_def barrier_arrive_def signal_at_def)

theorem barrier_nonpositive_count_witness:
  "signal_at 0 (snd (barrier_arrive (snd (upthread_barrier_init [] [] 0)))) = None"
proof -
  have "barrier_arrive (snd (upthread_barrier_init [] [] 0)) =
      (0, snd (barrier_arrive (snd (upthread_barrier_init [] [] 0))))"
    by (simp add: barrier_arrive_def upthread_barrier_init_def)
  from barrier_nonpositive_count [of 0, OF _ surjective_pairing this] show ?thesis by simp
qed

end
