(* ===== verification/Gq_States.thy ===== *)
theory Gq_States
  imports Gq_Correct
begin

text \<open>
  The states that threads of the global-queue scheduler are in. \<open>UPTH_CREATED\<close>, \<open>UPTH_BLK_YIELDING\<close> and
  \<open>UPTH_BLK_PAUSED\<close> are states that a thread is only in within one operation, and a thread is made
  runnable only from a state in which it waits, so the branch of \<open>pth_thread_runnable\<close> that prints is dead.
\<close>

section \<open>States at rest\<close>

fun resting :: "upth_state \<Rightarrow> bool" where
  "resting UPTH_CREATED = False"
| "resting UPTH_BLK_YIELDING = False"
| "resting UPTH_BLK_PAUSED = False"
| "resting _ = True"

definition odd_free :: "ext_call list \<Rightarrow> bool" where
  "odd_free cs \<longleftrightarrow> (\<forall>c t. PrintfOddState c t \<notin> set cs)"

text \<open>Every block but that of \<open>t\<close> is at rest.\<close>

definition typed_but :: "upthread_t set \<Rightarrow> gq \<Rightarrow> bool" where
  "typed_but T s \<longleftrightarrow>
     (\<forall>u p. u \<notin> T \<longrightarrow> tcbs s u = Some p \<longrightarrow> resting (tcb_state p)) \<and> odd_free (calls s)"

lemma odd_free_simps [simp]:
  "odd_free []"
  "odd_free (cs @ [c]) \<longleftrightarrow> odd_free cs \<and> (\<forall>x t. c \<noteq> PrintfOddState x t)"
  by (auto simp: odd_free_def)

lemma typed_but_ext [simp]:
  "typed_but T (ext c s) \<longleftrightarrow> typed_but T s \<and> (\<forall>x t. c \<noteq> PrintfOddState x t)"
  by (auto simp: typed_but_def)

lemma typed_but_queues [simp]:
  "typed_but T (s\<lparr>ready_queue := q\<rparr>) = typed_but T s" "typed_but T (s\<lparr>active_queue := q\<rparr>) = typed_but T s"
  "typed_but T (s\<lparr>threads_ready := n\<rparr>) = typed_but T s" "typed_but T (s\<lparr>threads_active := n\<rparr>) = typed_but T s"
  "typed_but T (s\<lparr>u_data := d\<rparr>) = typed_but T s" "typed_but T (s\<lparr>can_adjust_vcores := b\<rparr>) = typed_but T s"
  "typed_but T (s\<lparr>next_pid := k\<rparr>) = typed_but T s"
  by (simp_all add: typed_but_def)

lemma typed_but_upd:
  assumes "typed_but T s" and "u \<in> T \<or> resting (tcb_state q)"
  shows "typed_but T (s\<lparr>tcbs := (tcbs s)(u \<mapsto> q)\<rparr>)"
  using assms by (auto simp: typed_but_def)

lemma typed_but_free: "typed_but T s \<Longrightarrow> typed_but T (s\<lparr>tcbs := (tcbs s)(u := None)\<rparr>)"
  by (auto simp: typed_but_def)

lemma typed_but_mono: "typed_but {} s \<Longrightarrow> typed_but T s"
  by (simp add: typed_but_def)

lemma typed_but_this:
  assumes "typed_but {t} s" and "tcbs s t = Some p" and "resting (tcb_state p)"
  shows "typed_but {} s"
  unfolding typed_but_def
proof (intro conjI allI impI)
  show "resting (tcb_state q)" if "tcbs s u = Some q" for u q
    using assms that by (cases "u = t") (auto simp: typed_but_def)
  show "odd_free (calls s)" using assms(1) by (simp add: typed_but_def)
qed

section \<open>Operations\<close>

lemma runnable_typed:
  assumes "gq_pth_thread_runnable t s = Some s'" and "tcbs s t = Some p" and "wakeable (tcb_state p)"
    and "typed_but {t} s"
  shows "typed_but {} s'"
  using assms by (auto simp: gq_pth_thread_runnable_def bind_Some_conv Let_def typed_but_def split: if_splits)

lemma yield_typed:
  assumes "gq_generic_yield t s = Some s'" and "typed_but T s"
  shows "typed_but T s'" and "tcbs s' = tcbs s"
  using assms by (auto simp: gq_generic_yield_def bind_Some_conv)

text \<open>The thread stops in some state, and goes on to something that wants it in that state.\<close>

lemma stop_typed:
  assumes "Option.bind (gq_generic_yield t s) (\<lambda>s. Option.bind (set_state t st s) k) = Some s'"
    and "typed_but {} s"
  obtains s1 p where "k s1 = Some s'" and "tcbs s t = Some p" and "typed_but {t} s1"
    and "tcbs s1 = (tcbs s)(t \<mapsto> p\<lparr>tcb_state := st\<rparr>)"
proof -
  from assms(1) obtain s0 s1 where s: "gq_generic_yield t s = Some s0" "set_state t st s0 = Some s1" "k s1 = Some s'"
    by (auto simp: bind_Some_conv)
  note y = yield_typed [OF s(1) assms(2)]
  from s(2) y obtain p where "tcbs s t = Some p" "s1 = s0\<lparr>tcbs := (tcbs s0)(t \<mapsto> p\<lparr>tcb_state := st\<rparr>)\<rparr>"
    by (auto simp: set_state_def tcb_upd_def split: option.splits)
  moreover have "typed_but {t} (s0\<lparr>tcbs := (tcbs s0)(t \<mapsto> p\<lparr>tcb_state := st\<rparr>)\<rparr>)"
    by (rule typed_but_upd [OF typed_but_mono [OF y(1)]]) simp
  ultimately show thesis using s(3) y(2) by (intro that [of s1 p]) simp_all
qed

lemma stop_go_typed:
  assumes "Option.bind (gq_generic_yield t s) (\<lambda>s. Option.bind (set_state t st s) (gq_pth_thread_runnable t)) = Some s'"
    and "typed_but {} s" and "wakeable st"
  shows "typed_but {} s'"
  using assms(1,2) by (rule stop_typed) (erule runnable_typed, auto simp: assms(3))

lemma has_blocked_typed:
  assumes "gq_pth_thread_has_blocked t f s = Some s'" and "typed_but {} s"
  shows "typed_but {} s'"
  using assms(1) [unfolded gq_pth_thread_has_blocked_def] assms(2)
  by (rule stop_typed) (auto simp: typed_but_def split: if_splits)

lemma join_typed:
  assumes "gq_pth_join_cb gq_pth_thread_runnable t x s = Some s'" and "typed_but {} s" and "x \<noteq> t"
  shows "typed_but {} s'"
  using assms(1) [unfolded gq_pth_join_cb_def] assms(2)
proof (rule stop_typed)
  fix s1 p
  assume k: "Option.bind (tcbs s1 x) (\<lambda>q. Option.bind (tcb_upd x (\<lambda>p. p\<lparr>tcb_joiner := Some t\<rparr>) s1)
      (\<lambda>s. case tcb_joiner q of None \<Rightarrow> Some s | Some _ \<Rightarrow> gq_pth_thread_runnable t s)) = Some s'"
    and p: "tcbs s t = Some p" "typed_but {t} s1" "tcbs s1 = (tcbs s)(t \<mapsto> p\<lparr>tcb_state := UPTH_BLK_JOINING\<rparr>)"
  from k obtain q where q: "tcbs s1 x = Some q" by (auto simp: bind_Some_conv)
  define s2 where "s2 = s1\<lparr>tcbs := (tcbs s1)(x \<mapsto> q\<lparr>tcb_joiner := Some t\<rparr>)\<rparr>"
  have s2: "typed_but {t} s2" "tcbs s2 t = Some (p\<lparr>tcb_state := UPTH_BLK_JOINING\<rparr>)"
    using p q assms(3) by (auto simp: s2_def typed_but_def)
  from k q have "(case tcb_joiner q of None \<Rightarrow> Some s2 | Some _ \<Rightarrow> gq_pth_thread_runnable t s2) = Some s'"
    unfolding s2_def by simp
  moreover have "typed_but {} s2" by (rule typed_but_this [OF s2]) simp
  ultimately show ?thesis using runnable_typed [OF _ s2(2) _ s2(1)] by (cases "tcb_joiner q") auto
qed

lemma exit_typed:
  assumes ok: "gq_ok s" and t: "t \<in> set (active_queue s)" and ex: "gq_upthread_exit ret t s = Some s0"
    and cb: "gq_pth_exit_cb gq_pth_thread_runnable t s0 = Some s'" and ty: "typed_but {} s"
  shows "typed_but {} s'"
proof -
  from ex obtain q where q: "tcbs s t = Some q" "tcbs s0 = (tcbs s)(t \<mapsto> q\<lparr>tcb_retval := ret\<rparr>)"
    and ty0: "typed_but {} s0"
    using ty by (auto simp: gq_upthread_exit_def tcb_upd_def typed_but_def split: option.splits)
  from cb [unfolded gq_pth_exit_cb_def Let_def] ty0 show ?thesis
  proof (rule stop_typed)
    fix s1 p
    let ?s = "gq_free_stack (p\<lparr>tcb_state := UPTH_EXITING\<rparr>) (ext (UthreadCleanup t) s1)"
    assume k: "Option.bind (tcbs (ext (UthreadCleanup t) s1) t) (\<lambda>p.
        if tcb_detached p then Some ((gq_free_stack p (ext (UthreadCleanup t) s1))
          \<lparr>tcbs := (tcbs (gq_free_stack p (ext (UthreadCleanup t) s1)))(t := None)\<rparr>)
        else Option.bind (tcb_upd t (\<lambda>p. p\<lparr>tcb_joiner := Some t\<rparr>) (gq_free_stack p (ext (UthreadCleanup t) s1)))
          (\<lambda>s. case tcb_joiner p of None \<Rightarrow> Some s | Some joiner \<Rightarrow> gq_pth_thread_runnable joiner s)) = Some s'"
      and p: "tcbs s0 t = Some p" "typed_but {t} s1" "tcbs s1 = (tcbs s0)(t \<mapsto> p\<lparr>tcb_state := UPTH_EXITING\<rparr>)"
    have s2: "typed_but {t} ?s" "tcbs ?s = tcbs s1" using p by (simp_all add: gq_free_stack_def)
    show ?thesis
    proof (cases "tcb_detached p")
      case True
      with k p s2 show ?thesis by (auto simp: typed_but_def split: if_splits)
    next
      case False
      define s3 where "s3 = ?s\<lparr>tcbs := (tcbs ?s)(t \<mapsto> p\<lparr>tcb_state := UPTH_EXITING, tcb_joiner := Some t\<rparr>)\<rparr>"
      have s3: "typed_but {} s3" using s2 by (auto simp: s3_def typed_but_def)
      show ?thesis
      proof (cases "tcb_joiner p")
        case None
        with k p False s2 have "s' = s3" by (simp add: s3_def tcb_upd_def)
        with s3 show ?thesis by simp
      next
        case (Some w)
        with k p False s2 have k3: "gq_pth_thread_runnable w s3 = Some s'" by (simp add: s3_def tcb_upd_def)
        have jok: "join_ok s" and inv: "gq_inv s" using ok by (simp_all add: gq_ok_def)
        have "joiner_of s t = Some w" using Some p(1) q by (auto simp: joiner_of_def)
        moreover have "state_of s t \<noteq> Some UPTH_EXITING"
          using gq_inv_links_iff [OF inv, of t] t by (auto simp: gq_links_def state_of_def)
        ultimately have w: "state_of s w = Some UPTH_BLK_JOINING" by (rule join_ok_live [OF jok])
        have "w \<noteq> t" using w gq_inv_links_iff [OF inv, of t] t by (auto simp: gq_links_def state_of_def)
        with w obtain r where "tcbs s3 w = Some r" "wakeable (tcb_state r)"
          using s2(2) p(3) q by (auto simp: s3_def state_of_def)
        with k3 s3 show ?thesis by (auto intro: runnable_typed typed_but_mono)
      qed
    qed
  qed
qed

section \<open>Every step\<close>

lemma init_typed:
  assumes "gq_init s"
  shows "typed_but {} s"
proof -
  from assms obtain spin t bot sz where i: "gq_upthread_lib_init spin t bot sz gq_globals = Some s"
    by (auto simp: gq_init_def)
  then have "calls s = []"
    by (cases spin) (auto simp: gq_upthread_lib_init_def gq_globals_def get_next_pid_def Let_def bind_Some_conv)
  moreover have "tcb_state p = UPTH_RUNNING" if "tcbs s u = Some p" for u p
    using gq_lib_init_eq [of spin t bot sz] i that by (auto split: if_splits)
  ultimately show ?thesis by (auto simp: typed_but_def)
qed

lemma moves_typed:
  assumes "gq_moves s s'" and "gq_ok s" and "typed_but {} s"
  shows "typed_but {} s'"
  using assms
proof (induction rule: gq_moves.induct)
  case (gq_dispatch s t s')
  then show ?case by (auto simp: gq_take_ready.simps split: option.splits prod.splits)
next
  case (gq_yields t s s')
  then show ?case by (auto simp: gq_pth_yield_cb_def elim!: stop_go_typed)
next
  case (gq_preempt t s s')
  then show ?case by (auto simp: gq_pth_thread_paused_def elim!: stop_go_typed)
next
  case (gq_syscall t s sysc s')
  then show ?case
    by (auto simp: gq_pth_blockon_syscall_def bind_Some_conv set_state_def tcb_upd_def Let_def typed_but_def
        split: option.splits if_splits)
next
  case (gq_sysdone s sysc t s')
  then obtain p where p: "tcbs s t = Some p" "tcb_state p = UPTH_BLK_SYSC" by (auto simp: state_of_def)
  define s1 where "s1 = s\<lparr>tcbs := (tcbs s)(t \<mapsto> p\<lparr>uth_sysc := None\<rparr>)\<rparr>"
  have "typed_but {t} s1" "tcbs s1 t = Some (p\<lparr>uth_sysc := None\<rparr>)"
    using gq_sysdone.prems(2) by (auto simp: s1_def typed_but_def)
  moreover have "gq_pth_thread_runnable t s1 = Some s'"
    using gq_sysdone.hyps p by (simp add: gq_pth_handle_syscall_def gq_restart_thread_def s1_def)
  ultimately show ?case using p(2) by (auto intro: runnable_typed)
next
  case (gq_creates s t mmap pgsize attr start arg r t' s')
  obtain pid s0 where pid: "get_next_pid s = (pid, s0)" by (cases "get_next_pid s")
  obtain ret p where p: "gq_create_tcb mmap pgsize pid attr = (ret, p)" by (cases "gq_create_tcb mmap pgsize pid attr")
  have s0: "typed_but {} s0" using pid gq_creates.prems(2) by (auto simp: get_next_pid_def)
  have st: "tcb_state p = UPTH_CREATED" using p
    by (auto simp: gq_create_tcb_def gq_allocate_stack_def Let_def split: option.splits if_splits)
  define s1 where "s1 = ext (InitUthreadTf t (tcb_stacktop p - ucast (tcb_stacksize p)) (tcb_stacksize p))
      (if ret \<noteq> 0 then ext (PrintfMsg ''We're fucked'') s0 else s0)"
  define q where "q = p\<lparr>tcb_start_routine := start, tcb_arg := arg\<rparr>"
  define s2 where "s2 = ext (UthreadInit t) (s1\<lparr>tcbs := (tcbs s1)(t \<mapsto> q)\<rparr>)"
  have "typed_but {} s1" using s0 by (simp add: s1_def)
  then have s2: "typed_but {t} s2" "tcbs s2 t = Some q" "tcb_state q = UPTH_CREATED"
    using st by (simp_all add: s2_def q_def typed_but_upd typed_but_mono)
  have "gq_pth_thread_runnable t s2 = Some s'"
    using gq_creates.hyps(2) pid p
    by (auto simp: gq_upthread_create_def bind_Some_conv Let_def s2_def s1_def q_def)
  then show ?case using s2 by (auto intro: runnable_typed)
next
  case (gq_joins t s x q s')
  then show ?case using join_typed by blast
next
  case (gq_joined t s x r v s')
  then show ?case by (auto simp: gq_join_finish_def bind_Some_conv intro: typed_but_free)
next
  case (gq_exits t s ret s1 s')
  then show ?case using exit_typed by blast
next
  case (gq_config s can)
  then show ?case by (simp add: gq_upthread_can_vcore_request_def)
qed

lemma step_typed:
  assumes "gq_step s s'" and "gq_ok s" and "typed_but {} s"
  shows "typed_but {} s'"
  using assms
proof (induction rule: sched_step.induct)
  case (ss_block t s f s')
  then show ?case using has_blocked_typed by simp
next
  case (ss_pause t s s')
  then show ?case by (auto simp: gq_pth_thread_paused_def elim!: stop_go_typed)
next
  case (ss_wake t s s')
  then obtain p where "tcbs s t = Some p" "tcb_state p = UPTH_BLK_MUTEX"
    by (auto simp: blocked_threads_def state_of_def)
  with ss_wake show ?case by (auto intro: runnable_typed typed_but_mono)
next
  case (ss_move s s')
  then show ?case using moves_typed by blast
qed

lemma reachable_typed: "reachable gq_init gq_step s \<Longrightarrow> typed_but {} s"
proof (induction rule: reachable.induct)
  case (reach_init s)
  then show ?case by (rule init_typed)
next
  case (reach_step s s')
  then show ?case using step_typed gq_reachable_ok by blast
qed

section \<open>The property\<close>

text \<open>
  C20: every thread is in a state that fits where it is. Between two operations a thread on a queue
  is runnable or running, and any other thread waits for a join, a system call or a
  synchronisation primitive, or has exited; the transient states are never seen, and no thread is
  made runnable from a state that does not allow it, so the message about odd states is never printed.
\<close>

theorem gq_states_sound:
  assumes "reachable gq_init gq_step s"
  shows "(\<forall>t p. tcbs s t = Some p \<longrightarrow>
            (if t \<in> gq_links s then tcb_state p \<in> {UPTH_RUNNABLE, UPTH_RUNNING}
             else tcb_state p \<in> {UPTH_BLK_JOINING, UPTH_BLK_SYSC, UPTH_BLK_MUTEX, UPTH_EXITING})) \<and>
         (\<forall>c t. PrintfOddState c t \<notin> set (calls s))"
proof -
  have ty: "typed_but {} s" by (rule reachable_typed [OF assms])
  have inv: "gq_inv s" using gq_reachable_ok [OF assms] by (simp add: gq_ok_def)
  have "if t \<in> gq_links s then tcb_state p \<in> {UPTH_RUNNABLE, UPTH_RUNNING}
      else tcb_state p \<in> {UPTH_BLK_JOINING, UPTH_BLK_SYSC, UPTH_BLK_MUTEX, UPTH_EXITING}"
    if p: "tcbs s t = Some p" for t p
  proof -
    have "resting (tcb_state p)" using ty p by (simp add: typed_but_def)
    then show ?thesis using gq_inv_links_iff [OF inv, of t] p by (cases "tcb_state p") auto
  qed
  moreover have "\<forall>c t. PrintfOddState c t \<notin> set (calls s)" using ty by (simp add: typed_but_def odd_free_def)
  ultimately show ?thesis by blast
qed

theorem gq_states_sound_witness:
  "\<exists>p. tcbs gq_demo3 8192 = Some p \<and> tcb_state p \<in> {UPTH_RUNNABLE, UPTH_RUNNING}"
proof -
  have "8192 \<in> gq_links gq_demo3" by (simp add: gq_links_def gq_demo3(2))
  moreover from this obtain p where "tcbs gq_demo3 8192 = Some p"
    using gq_inv_links_iff [of gq_demo3 8192] gq_reachable_ok [OF gq_demo3(1)] by (auto simp: gq_ok_def)
  ultimately show ?thesis using gq_states_sound [OF gq_demo3(1)] by metis
qed

end
