(* ===== verification/Gq_Run.thy ===== *)
theory Gq_Run
  imports Lifecycle_Gq Gq_States
begin

text \<open>
  What becomes of a thread of the global-queue scheduler, from \<open>upthread_create\<close> to the return of
  \<open>upthread_join\<close>: it runs the function it was created with on the argument it was created with,
  and the one who joins it gets what that function returned. While others run, what the thread relies
  on is kept by the refinement of the life-cycle specification.
\<close>

section \<open>As long as the block is there\<close>

abbreviation gq_alive :: "upthread_t \<Rightarrow> gq \<Rightarrow> gq \<Rightarrow> bool" where
  "gq_alive \<equiv> alive_step gq_step gq_abs"

lemma gq_alive_kept:
  assumes "(gq_alive t)\<^sup>*\<^sup>* s s'" and "reachable gq_init gq_step s" and "tcbs s t = Some p"
  obtains p' where "reachable gq_init gq_step s'" "gq_ok s'" "tcbs s' t = Some p'"
    "tcb_start_routine p' = tcb_start_routine p" "tcb_arg p' = tcb_arg p" "tcb_detached p' = tcb_detached p"
    "tcb_state p = UPTH_EXITING \<Longrightarrow> tcb_state p' = UPTH_EXITING \<and> tcb_retval p' = tcb_retval p"
proof -
  have "snd (gq_abs s) t = Some (tcb_view p)" using views_Some [OF assms(3)] by (simp add: gq_abs_def)
  from gq_refines.alive_kept [OF assms(1,2) this] obtain v where
    v: "reachable gq_init gq_step s'" "views s' t = Some v" "view_kept False (tcb_view p) v"
    by (auto simp: gq_abs_def)
  then obtain p' where p': "tcbs s' t = Some p'" "v = tcb_view p'" by (auto simp: views_def)
  have k: "tcb_start_routine p' = tcb_start_routine p" "tcb_arg p' = tcb_arg p" "tcb_detached p' = tcb_detached p"
    using v(3) p'(2) by (auto simp: view_kept_def)
  have e: "tcb_state p' = UPTH_EXITING \<and> tcb_retval p' = tcb_retval p" if "tcb_state p = UPTH_EXITING"
    using v(3) p'(2) that by (simp add: view_kept_def tcb_view_def split: if_splits)
  show thesis by (rule that [OF v(1) gq_reachable_ok [OF v(1)] p'(1) k e])
qed

section \<open>The property\<close>

text \<open>
  C6: a joinable thread runs what it was created to run, and its result reaches whoever joins it. After
  \<open>upthread_create\<close> with a function and an argument, whatever the other threads and the scheduler do,
  the thread when it is first dispatched calls that function on that argument; when the function has
  returned \<open>v\<close> the thread exits; and from then on, for as long as nobody has freed the block, the
  second half of \<open>upthread_join\<close> returns 0 and \<open>v\<close> and frees it.
\<close>

theorem gq_join_returns_result:
  assumes "reachable gq_init gq_step s0" and "tcbs s0 t = None"
    and "gq_upthread_create gq_pth_thread_runnable mmap pgsize t attr start arg s0 = Some (r, t', s1)"
    and "case attr of None \<Rightarrow> True | Some a \<Rightarrow> attr_detachstate a \<noteq> UPTHREAD_CREATE_DETACHED"
    and "(gq_alive t)\<^sup>*\<^sup>* s1 s2" and "call start arg s2 = Some (v, s3)"
    and "(gq_alive t)\<^sup>*\<^sup>* s2 s3" and "t \<in> set (active_queue s3)"
  shows "\<exists>s4 s5. gq_upthread_run call t s2 = Some s4 \<and>
           gq_pth_exit_cb gq_pth_thread_runnable t s4 = Some s5 \<and>
           (\<forall>s6. (gq_alive t)\<^sup>*\<^sup>* s5 s6 \<longrightarrow>
              gq_join_finish t s6 = Some (0, v, s6\<lparr>tcbs := (tcbs s6)(t := None)\<rparr>))"
proof -
  define p where "p = (snd (gq_create_tcb mmap pgsize (next_pid s0) attr))
      \<lparr>tcb_start_routine := start, tcb_arg := arg, tcb_state := UPTH_RUNNABLE\<rparr>"
  from gq_create_tcb_result [OF assms(3)] have p: "tcbs s1 t = Some p" by (simp add: p_def)
  have nd: "\<not> tcb_detached p" using assms(4)
    by (auto simp: p_def gq_create_tcb_def gq_allocate_stack_def tcb_zero_def Let_def split: option.splits)
  have "gq_step s0 s1" by (rule ss_move, rule gq_creates [OF assms(2,3)])
  then have r1: "reachable gq_init gq_step s1" by (rule reach_step [OF assms(1)])
  obtain p2 where r2: "reachable gq_init gq_step s2" and p2: "tcbs s2 t = Some p2"
    "tcb_start_routine p2 = start" "tcb_arg p2 = arg" "tcb_detached p2 = tcb_detached p"
    by (rule gq_alive_kept [OF assms(5) r1 p]) (simp add: p_def)
  obtain p3 where r3: "reachable gq_init gq_step s3" and ok3: "gq_ok s3" and p3: "tcbs s3 t = Some p3"
    "tcb_detached p3 = tcb_detached p2" by (rule gq_alive_kept [OF assms(7) r2 p2(1)])
  from gq_upthread_exit_ok [OF ok3 assms(8), of v] p3(1) obtain s4 where s4:
    "gq_upthread_exit v t s3 = Some s4" "gq_ok s4" "tcbs s4 t = Some (p3\<lparr>tcb_retval := v\<rparr>)"
    "active_queue s4 = active_queue s3" by auto
  have run: "gq_upthread_run call t s2 = Some s4"
    using p2 assms(6) s4(1) by (simp add: gq_upthread_run_def)
  have "\<not> tcb_detached (p3\<lparr>tcb_retval := v\<rparr>)" using nd p2(4) p3(2) by simp
  from gq_exit_cb_joinable [OF s4(2) _ s4(3) this] assms(8) s4(4) obtain s5 where s5:
    "gq_pth_exit_cb gq_pth_thread_runnable t s4 = Some s5"
    "tcbs s5 t = Some (p3\<lparr>tcb_retval := v, tcb_state := UPTH_EXITING, tcb_joiner := Some t\<rparr>)" by auto
  have "gq_step s3 s5" by (rule ss_move, rule gq_exits [OF assms(8) s4(1) s5(1)])
  then have r5: "reachable gq_init gq_step s5" by (rule reach_step [OF r3])
  have "gq_join_finish t s6 = Some (0, v, s6\<lparr>tcbs := (tcbs s6)(t := None)\<rparr>)"
    if "(gq_alive t)\<^sup>*\<^sup>* s5 s6" for s6
    by (rule gq_alive_kept [OF that r5 s5(2)]) (simp add: gq_join_finish_def)
  with run s5(1) show ?thesis by blast
qed

theorem gq_join_returns_result_witness:
  "\<exists>s4 s5. gq_upthread_run (\<lambda>f a s. Some (f + a, s)) 8192 gq_demo3 = Some s4 \<and>
     gq_pth_exit_cb gq_pth_thread_runnable 8192 s4 = Some s5 \<and> (\<exists>s7. gq_join_finish 8192 s5 = Some (0, 3, s7))"
proof -
  have alive: "(gq_alive 8192)\<^sup>*\<^sup>* gq_demo1 gq_demo3"
  proof -
    have "gq_take_ready gq_demo2 = (Some 8192, gq_demo3)"
      by (simp add: gq_take_ready.simps gq_demo2 gq_demo3_def)
    then have "gq_step gq_demo2 gq_demo3" by (intro ss_move gq_dispatch)
    moreover have "tcbs gq_demo2 8192 \<noteq> None" using gq_demo2(3) by (cases "tcbs gq_demo2 8192") (simp_all add: joiner_of_def)
    ultimately have "gq_alive 8192 gq_demo1 gq_demo2" "gq_alive 8192 gq_demo2 gq_demo3"
      using gq_demo2(1) by (simp_all add: alive_step_def gq_abs_def views_def gq_demo3(3))
    then show ?thesis by (blast intro: rtranclp.rtrancl_into_rtrancl)
  qed
  have act: "8192 \<in> set (active_queue gq_demo3)" by (simp add: gq_demo3)
  have new: "tcbs gq_demo0 8192 = None" by (simp add: gq_demo0)
  from gq_join_returns_result [where call = "\<lambda>f a s. Some (f + a, s)" and v = 3,
      OF gq_demo0_reachable new gq_demo1(1) _ alive _ _ act]
  show ?thesis by auto
qed

end
