(* ===== verification/Pvcq_Tls.thy ===== *)
theory Pvcq_Tls
  imports Pvcq_Inv
begin

text \<open>
  \<open>get_next_queue_id_tls_aware\<close> of \<^verbatim>\<open>src/pvcq/upthread.c\<close>, the placement that avoids vcores whose
  thread-local storage shares a line of the first-level cache with that of the new thread.
  Nothing calls it; it is modelled with the facts that would be needed to use it.
\<close>

text \<open>The static variables of the function.\<close>

record tls_statics =
  tls_sid :: int
  tls_cid :: int

abbreviation (input) l1cachesize :: int where
  "l1cachesize \<equiv> 32768"

text \<open>The size of a queue, one more for the vcore that asks.\<close>

definition tls_tqsize :: "int \<Rightarrow> int \<Rightarrow> pvcq \<Rightarrow> int option" where
  "tls_tqsize me i s = map_option (\<lambda>v. if i \<noteq> me then vc_tqsize v else vc_tqsize v + 1) (vc_get i s)"

text \<open>One pass of the loop. \<open>descs i\<close> is \<open>vcore_tls_descs(i)\<close> as a number, \<open>utls\<close> the thread's
  descriptor modulo the size of the cache.\<close>

definition tls_pass :: "int \<Rightarrow> (int \<Rightarrow> int) \<Rightarrow> int \<Rightarrow> int \<Rightarrow> pvcq \<Rightarrow> int \<Rightarrow> tls_statics \<Rightarrow> tls_statics option" where
  "tls_pass me descs utls hvc s i st = do {
     let j = i + hvc;
     tqsizei \<leftarrow> tls_tqsize me i s;
     tqsizecid \<leftarrow> tls_tqsize me (tls_cid st) s;
     tqsizesid \<leftarrow> tls_tqsize me (tls_sid st) s;
     let pvtls = descs i smod l1cachesize;
     if j < nr_vcores s then do {
       tqsizej \<leftarrow> tls_tqsize me j s;
       let svtls = descs j smod l1cachesize;
       let cid = (if utls \<noteq> pvtls \<and> utls \<noteq> svtls
                  then (if tqsizei < tqsizecid then i else if tqsizej < tqsizecid then j else tls_cid st)
                  else tls_cid st);
       let sid = (if tqsizei < tqsizesid then i else if tqsizej < tqsizesid then j else tls_sid st);
       Some \<lparr>tls_sid = sid, tls_cid = cid\<rparr>
     }
     else
       Some \<lparr>tls_sid = (if tqsizei < tqsizesid then i else tls_sid st),
             tls_cid = (if utls \<noteq> pvtls then (if tqsizei < tqsizecid then i else tls_cid st) else tls_cid st)\<rparr>
   }"

fun tls_loop :: "int \<Rightarrow> (int \<Rightarrow> int) \<Rightarrow> int \<Rightarrow> int \<Rightarrow> pvcq \<Rightarrow> nat \<Rightarrow> int \<Rightarrow> tls_statics \<Rightarrow> tls_statics option" where
  "tls_loop me descs utls hvc s 0 i st = None"
| "tls_loop me descs utls hvc s (Suc fuel) i st =
     (if i < nr_vcores s \<and> i < hvc then do {
        st \<leftarrow> tls_pass me descs utls hvc s i st;
        tls_loop me descs utls hvc s fuel (i + 1) st
      }
      else Some st)"

definition get_next_queue_id_tls_aware ::
  "int \<Rightarrow> (int \<Rightarrow> int) \<Rightarrow> int \<Rightarrow> pvcq \<Rightarrow> tls_statics \<Rightarrow> (int \<times> tls_statics) option" where
  "get_next_queue_id_tls_aware me descs tls_desc s st = do {
     let hvc = max_vcores s sdiv 2;
     st \<leftarrow> tls_loop me descs (tls_desc smod l1cachesize) hvc s (Suc (length (vc_mgmts s))) 0 st;
     vc \<leftarrow> vc_get (tls_cid st) s;
     vs \<leftarrow> vc_get (tls_sid st) s;
     Some (if vc_tqsize vc \<le> vc_tqsize vs then tls_cid st else tls_sid st, st)
   }"

section \<open>It stays inside the array\<close>

definition tls_ok :: "pvcq \<Rightarrow> tls_statics \<Rightarrow> bool" where
  "tls_ok s st \<longleftrightarrow> 0 \<le> tls_sid st \<and> tls_sid st < max_vcores s \<and> 0 \<le> tls_cid st \<and> tls_cid st < max_vcores s"

lemma tls_tqsize_defined: "0 \<le> i \<Longrightarrow> i < max_vcores s \<Longrightarrow> \<exists>n. tls_tqsize me i s = Some n"
  by (simp add: tls_tqsize_def vc_get_def)

lemma tls_pass_ok:
  assumes "tls_ok s st" and "0 \<le> i" and "i < nr_vcores s" and "nr_vcores s \<le> max_vcores s" and "0 \<le> hvc"
  shows "\<exists>st'. tls_pass me descs utls hvc s i st = Some st' \<and> tls_ok s st'"
proof -
  from assms obtain a b c where t: "tls_tqsize me i s = Some a" "tls_tqsize me (tls_cid st) s = Some b"
    "tls_tqsize me (tls_sid st) s = Some c"
    using tls_tqsize_defined [of _ s me] by (fastforce simp: tls_ok_def)
  have "\<exists>d. tls_tqsize me (i + hvc) s = Some d" if "i + hvc < nr_vcores s"
    using that assms by (intro tls_tqsize_defined) simp_all
  with t assms show ?thesis
    by (cases "i + hvc < nr_vcores s") (auto simp: tls_pass_def Let_def tls_ok_def)
qed

lemma tls_loop_ok:
  assumes "tls_ok s st" and "0 \<le> i" and "nr_vcores s \<le> max_vcores s" and "0 \<le> hvc"
    and "nat (nr_vcores s - i) < fuel"
  shows "\<exists>st'. tls_loop me descs utls hvc s fuel i st = Some st' \<and> tls_ok s st'"
  using assms(1,2,5)
proof (induction fuel arbitrary: i st)
  case 0
  then show ?case by simp
next
  case (Suc fuel)
  show ?case
  proof (cases "i < nr_vcores s \<and> i < hvc")
    case True
    with tls_pass_ok [OF Suc.prems(1,2) _ assms(3,4)] obtain st1 where
      p: "tls_pass me descs utls hvc s i st = Some st1" "tls_ok s st1" by blast
    have "0 \<le> i + 1" "nat (nr_vcores s - (i + 1)) < fuel" using Suc.prems True by auto
    from Suc.IH [OF p(2) this] p(1) True show ?thesis by simp
  next
    case False
    with Suc.prems(1) show ?thesis by auto
  qed
qed

text \<open>From the static variables' initial zeros on, the queue it returns exists; it is the shorter of
  the two candidates.\<close>

lemma get_next_queue_id_tls_aware_ok:
  assumes "tls_ok s st" and "nr_vcores s \<le> max_vcores s"
  shows "\<exists>i st'. get_next_queue_id_tls_aware me descs d s st = Some (i, st') \<and> tls_ok s st' \<and>
    0 \<le> i \<and> i < max_vcores s \<and> (i = tls_cid st' \<or> i = tls_sid st')"
proof -
  have "0 \<le> max_vcores s sdiv 2" by (simp add: max_vcores_def sdiv_pos)
  moreover have "nat (nr_vcores s - 0) < Suc (length (vc_mgmts s))" using assms(2) by (simp add: max_vcores_def)
  ultimately obtain st' where st': "tls_loop me descs (d smod l1cachesize) (max_vcores s sdiv 2) s
      (Suc (length (vc_mgmts s))) 0 st = Some st'" "tls_ok s st'"
    using tls_loop_ok [OF assms(1) _ assms(2)] by blast
  then have "vc_get (tls_cid st') s \<noteq> None" "vc_get (tls_sid st') s \<noteq> None"
    by (simp_all add: tls_ok_def vc_get_def)
  with st' show ?thesis
    by (auto simp: get_next_queue_id_tls_aware_def Let_def tls_ok_def)
qed

end
