(* ===== verification/Juggle_Sched.thy ===== *)
theory Juggle_Sched
  imports Pvcq_Threads Pvcq_Tls
begin

text \<open>
  The preemptive scheduler, \<^verbatim>\<open>src/juggle/upthread.c\<close>: the scheduler of \<^verbatim>\<open>src/pvcq/upthread.c\<close>
  with a time slice. Each vcore has an alarm that it keeps in vcore-local storage; when
  the alarm goes off, the thread the vcore runs is put back on its queue. The queues, the thread
  operations and the settings are the same code in both files, so they are the same functions here,
  on the scheduler's part of the state (\<open>on_sched\<close>).
\<close>

section \<open>State\<close>

text \<open>\<open>struct alarm_data\<close>; its \<open>awaiter\<close> is parlib's and points back to it.\<close>

record alarm_data =
  ad_armed :: bool

text \<open>
  \<open>last_preempt_period\<close> is thread-local, so one for each vcore; \<open>alarm_dtls\<close> is what
  \<open>get_dtls(alarm_dtls_key)\<close> returns on each vcore; \<open>adata_heap\<close> holds the allocated
  alarm data, and \<open>alarms\<close> what was handed to parlib's alarm service and has not gone off
  yet, with the time to wait in microseconds.
\<close>

record juggle =
  jg_sched :: pvcq
  preempt_period :: "64 word"
  last_preempt_period :: "int \<Rightarrow> 64 word"
  alarm_dtls :: "int \<Rightarrow> addr option"
  adata_heap :: "addr \<Rightarrow> alarm_data option"
  alarms :: "(addr \<times> 64 word) list"

abbreviation (input) DEFAULT_PREEMPT_PERIOD :: "64 word" where
  "DEFAULT_PREEMPT_PERIOD \<equiv> 10000"

definition on_sched :: "(pvcq \<Rightarrow> pvcq option) \<Rightarrow> juggle \<Rightarrow> juggle option" where
  "on_sched f J = map_option (\<lambda>s. J\<lparr>jg_sched := s\<rparr>) (f (jg_sched J))"

definition on_sched_val :: "(pvcq \<Rightarrow> ('a \<times> pvcq) option) \<Rightarrow> juggle \<Rightarrow> ('a \<times> juggle) option" where
  "on_sched_val f J = map_option (\<lambda>(x, s). (x, J\<lparr>jg_sched := s\<rparr>)) (f (jg_sched J))"

section \<open>Queues and thread operations\<close>

definition juggle_next_queue_id :: "(nat \<Rightarrow> pvcq \<Rightarrow> pvcq) \<Rightarrow> nat \<Rightarrow> juggle \<Rightarrow> (int \<times> juggle) option" where
  "juggle_next_queue_id env fuel = on_sched_val (get_next_queue_id_basic env fuel 0)"

definition juggle_next_queue_id_tls_aware ::
  "int \<Rightarrow> (int \<Rightarrow> int) \<Rightarrow> int \<Rightarrow> juggle \<Rightarrow> tls_statics \<Rightarrow> (int \<times> tls_statics) option" where
  "juggle_next_queue_id_tls_aware me descs tls_desc J =
     get_next_queue_id_tls_aware me descs tls_desc (jg_sched J)"

definition juggle_enqueue :: "upthread_t \<Rightarrow> bool \<Rightarrow> juggle \<Rightarrow> (int \<times> juggle) option" where
  "juggle_enqueue t athead = on_sched_val (pvcq_enqueue t athead)"

definition juggle_dequeue ::
  "(32 word \<Rightarrow> int \<times> 32 word) \<Rightarrow> int \<Rightarrow> int \<Rightarrow> juggle \<Rightarrow> (upthread_t option \<times> juggle) option" where
  "juggle_dequeue rand_r num_vcores me = on_sched_val (pvcq_dequeue rand_r num_vcores me)"

definition juggle_pth_thread_runnable :: "upthread_t \<Rightarrow> juggle \<Rightarrow> juggle option" where
  "juggle_pth_thread_runnable t = on_sched (pvcq_pth_thread_runnable t)"

definition juggle_pth_thread_paused :: "upthread_t \<Rightarrow> juggle \<Rightarrow> juggle option" where
  "juggle_pth_thread_paused t = on_sched (pvcq_pth_thread_paused pvcq_pth_thread_runnable t)"

definition juggle_pth_thread_has_blocked :: "upthread_t \<Rightarrow> ext_blk_flag \<Rightarrow> juggle \<Rightarrow> juggle option" where
  "juggle_pth_thread_has_blocked t flags = on_sched (pvcq_pth_thread_has_blocked t flags)"

definition juggle_pth_blockon_syscall :: "upthread_t \<Rightarrow> addr \<Rightarrow> juggle \<Rightarrow> juggle option" where
  "juggle_pth_blockon_syscall t sysc = on_sched (pvcq_pth_blockon_syscall t sysc)"

definition juggle_upthread_sched_ops :: "juggle schedule_ops" where
  "juggle_upthread_sched_ops =
     \<lparr>thread_runnable = juggle_pth_thread_runnable,
      thread_paused = juggle_pth_thread_paused,
      thread_blockon_syscall = juggle_pth_blockon_syscall,
      thread_has_blocked = juggle_pth_thread_has_blocked\<rparr>"

definition juggle_restart_thread :: "addr \<Rightarrow> juggle \<Rightarrow> juggle option" where
  "juggle_restart_thread sysc = on_sched (pvcq_restart_thread sysc)"

definition juggle_pth_handle_syscall :: "addr option \<Rightarrow> juggle \<Rightarrow> juggle option" where
  "juggle_pth_handle_syscall ev_msg = on_sched (pvcq_pth_handle_syscall ev_msg)"

definition juggle_upthread_alloc ::
  "platform \<Rightarrow> (64 word \<Rightarrow> addr option) \<Rightarrow> 64 word \<Rightarrow> juggle \<Rightarrow> (upthread_t \<times> juggle) option" where
  "juggle_upthread_alloc pl mmap stacksize = on_sched_val (pvcq_upthread_alloc pl mmap stacksize)"

definition juggle_upthread_free :: "platform \<Rightarrow> upthread_t \<Rightarrow> juggle \<Rightarrow> juggle option" where
  "juggle_upthread_free pl t = on_sched (pvcq_upthread_free pl t)"

definition juggle_upthread_create ::
  "platform \<Rightarrow> (64 word \<Rightarrow> addr option) \<Rightarrow> upthread_attr_t option \<Rightarrow> addr \<Rightarrow> addr \<Rightarrow> juggle \<Rightarrow>
   ((int \<times> upthread_t) \<times> juggle) option" where
  "juggle_upthread_create pl mmap attr start_routine arg =
     on_sched_val (\<lambda>s. map_option (\<lambda>(r, t, s). ((r, t), s))
       (pvcq_upthread_create pvcq_pth_thread_runnable pl mmap attr start_routine arg s))"

definition juggle_upthread_join :: "upthread_t \<Rightarrow> juggle \<Rightarrow> (pvcq_join_start \<times> juggle) option" where
  "juggle_upthread_join join_target = on_sched_val (pvcq_upthread_join join_target)"

definition juggle_pth_join_cb :: "upthread_t \<Rightarrow> upthread_t \<Rightarrow> juggle \<Rightarrow> juggle option" where
  "juggle_pth_join_cb t join_target = on_sched (pvcq_pth_join_cb pvcq_pth_thread_runnable t join_target)"

definition juggle_join_finish :: "platform \<Rightarrow> upthread_t \<Rightarrow> juggle \<Rightarrow> ((int \<times> addr) \<times> juggle) option" where
  "juggle_join_finish pl join_target =
     on_sched_val (\<lambda>s. map_option (\<lambda>(r, v, s). ((r, v), s)) (pvcq_join_finish pl join_target s))"

definition juggle_upthread_exit :: "addr \<Rightarrow> upthread_t \<Rightarrow> juggle \<Rightarrow> juggle option" where
  "juggle_upthread_exit ret t = on_sched (pvcq_upthread_exit ret t)"

definition juggle_pth_exit_cb :: "platform \<Rightarrow> upthread_t \<Rightarrow> juggle \<Rightarrow> juggle option" where
  "juggle_pth_exit_cb pl t = on_sched (pvcq_pth_exit_cb pvcq_pth_thread_runnable pl t)"

definition juggle_upthread_yield :: "int \<Rightarrow> juggle \<Rightarrow> int outcome option" where
  "juggle_upthread_yield me J = pvcq_upthread_yield me (jg_sched J)"

definition juggle_pth_yield_cb :: "upthread_t \<Rightarrow> juggle \<Rightarrow> juggle option" where
  "juggle_pth_yield_cb t = on_sched (pvcq_pth_yield_cb pvcq_pth_thread_runnable t)"

definition juggle_upthread_detach :: "upthread_t \<Rightarrow> juggle \<Rightarrow> (int \<times> juggle) option" where
  "juggle_upthread_detach t = on_sched_val (pvcq_upthread_detach t)"

definition juggle_upthread_tid :: "upthread_t \<Rightarrow> juggle \<Rightarrow> (32 word) option" where
  "juggle_upthread_tid current_uthread J = pvcq_upthread_tid current_uthread (jg_sched J)"

definition juggle_upthread_can_vcore_request :: "bool \<Rightarrow> juggle \<Rightarrow> juggle" where
  "juggle_upthread_can_vcore_request can J =
     J\<lparr>jg_sched := pvcq_upthread_can_vcore_request can (jg_sched J)\<rparr>"

definition juggle_upthread_can_vcore_steal :: "bool \<Rightarrow> juggle \<Rightarrow> juggle" where
  "juggle_upthread_can_vcore_steal can J =
     J\<lparr>jg_sched := pvcq_upthread_can_vcore_steal can (jg_sched J)\<rparr>"

definition juggle_upthread_set_num_vcores :: "int \<Rightarrow> juggle \<Rightarrow> juggle" where
  "juggle_upthread_set_num_vcores num J =
     J\<lparr>jg_sched := pvcq_upthread_set_num_vcores num (jg_sched J)\<rparr>"

definition juggle_upthread_short_circuit_yield :: "bool \<Rightarrow> juggle \<Rightarrow> juggle" where
  "juggle_upthread_short_circuit_yield ss J =
     J\<lparr>jg_sched := pvcq_upthread_short_circuit_yield ss (jg_sched J)\<rparr>"

section \<open>Alarm data\<close>

text \<open>Reading through a pointer to alarm data, or using the lock in it: undefined once it was
  freed.\<close>

definition adata_at :: "addr \<Rightarrow> juggle \<Rightarrow> alarm_data option" where
  "adata_at a J = adata_heap J a"

definition set_armed :: "addr \<Rightarrow> bool \<Rightarrow> juggle \<Rightarrow> juggle option" where
  "set_armed a b J = do {
     ad \<leftarrow> adata_at a J;
     Some (J\<lparr>adata_heap := (adata_heap J)(a \<mapsto> ad\<lparr>ad_armed := b\<rparr>)\<rparr>)
   }"

text \<open>\<open>init_adata\<close> on a block that \<open>malloc\<close> returned.\<close>

definition init_adata :: "addr \<Rightarrow> juggle \<Rightarrow> juggle" where
  "init_adata a J = J\<lparr>adata_heap := (adata_heap J)(a \<mapsto> \<lparr>ad_armed = False\<rparr>)\<rparr>"

definition new_alarm_data :: "addr option \<Rightarrow> int \<Rightarrow> juggle \<Rightarrow> (addr \<times> juggle) option" where
  "new_alarm_data malloc me J = do {
     a \<leftarrow> malloc;
     let J = init_adata a J;
     Some (a, J\<lparr>alarm_dtls := (alarm_dtls J)(me := Some a)\<rparr>)
   }"

text \<open>
  The critical section of \<open>alarm_callback\<close>, on a vcore whose \<open>current_uthread\<close> is
  \<open>current\<close>, and the whole callback, which releases the lock at the end.
\<close>

definition alarm_callback_cs ::
  "addr \<Rightarrow> upthread_t option \<Rightarrow> juggle \<Rightarrow> (upthread_t option \<times> juggle) option" where
  "alarm_callback_cs a current J = do {
     ad \<leftarrow> adata_at a J;
     if ad_armed ad then do {
       J \<leftarrow> set_armed a False J;
       (case current of
          Some t \<Rightarrow> do { J \<leftarrow> juggle_pth_thread_paused t J; Some (None, J) }
        | None \<Rightarrow> Some (current, J))
     }
     else Some (current, J\<lparr>adata_heap := (adata_heap J)(a := None)\<rparr>)
   }"

definition alarm_callback ::
  "addr \<Rightarrow> upthread_t option \<Rightarrow> juggle \<Rightarrow> (upthread_t option \<times> juggle) option" where
  "alarm_callback a current J = do {
     (current, J) \<leftarrow> alarm_callback_cs a current J;
     _ \<leftarrow> adata_at a J;
     Some (current, J)
   }"

text \<open>The call of \<open>upthread_yield\<close> may leave the thread; whatever it returns, the result is 0.\<close>

definition juggle_upthread_set_sched_period ::
  "64 word \<Rightarrow> int \<Rightarrow> juggle \<Rightarrow> (int outcome \<times> juggle) option" where
  "juggle_upthread_set_sched_period us me J = do {
     let J = J\<lparr>preempt_period := us\<rparr>;
     r \<leftarrow> juggle_upthread_yield me J;
     Some (case r of Return _ \<Rightarrow> Return 0 | Yield_then _ \<Rightarrow> Yield_then 0, J)
   }"

lemma set_sched_period_state:
  "juggle_upthread_set_sched_period us me J = Some (r, J') \<Longrightarrow> J' = J\<lparr>preempt_period := us\<rparr>"
  by (auto simp: juggle_upthread_set_sched_period_def Let_def bind_eq_Some_conv)

section \<open>The scheduler entry\<close>

text \<open>The vcore's alarm data: new the first time, replaced when it is armed for another period.\<close>

definition alarm_get :: "addr option \<Rightarrow> int \<Rightarrow> juggle \<Rightarrow> (addr \<times> juggle) option" where
  "alarm_get malloc me J =
     (case alarm_dtls J me of
        None \<Rightarrow> new_alarm_data malloc me J
      | Some a \<Rightarrow> do {
          ad \<leftarrow> adata_at a J;
          if ad_armed ad \<and> last_preempt_period J me \<noteq> preempt_period J then do {
            J \<leftarrow> set_armed a False J;
            new_alarm_data malloc me J
          }
          else Some (a, J)
        })"

text \<open>Starting the alarm when it is not armed.\<close>

definition alarm_arm :: "addr \<Rightarrow> int \<Rightarrow> juggle \<Rightarrow> juggle option" where
  "alarm_arm a me J = do {
     ad \<leftarrow> adata_at a J;
     if \<not> ad_armed ad then do {
       let J = J\<lparr>last_preempt_period := (last_preempt_period J)(me := preempt_period J)\<rparr>;
       J \<leftarrow> set_armed a True J;
       Some (J\<lparr>alarms := alarms J @ [(a, preempt_period J)]\<rparr>)
     }
     else Some J
   }"

text \<open>Before a vcore yields: its alarm is cancelled and replaced; the critical section.\<close>

definition alarm_give_up :: "addr option \<Rightarrow> addr \<Rightarrow> int \<Rightarrow> juggle \<Rightarrow> juggle option" where
  "alarm_give_up malloc a me J = do {
     J \<leftarrow> set_armed a False J;
     (_, J) \<leftarrow> new_alarm_data malloc me J;
     _ \<leftarrow> adata_at a J;
     Some J
   }"

definition jg_ext :: "ext_call \<Rightarrow> juggle \<Rightarrow> juggle" where
  "jg_ext c J = J\<lparr>jg_sched := ext c (jg_sched J)\<rparr>"

text \<open>The search loop: as in the variant without alarms, but for the give-up branch. \<open>malloc k\<close> is
  the allocation of pass \<open>k\<close>.\<close>

fun juggle_sched_loop ::
  "(nat \<Rightarrow> juggle \<Rightarrow> juggle) \<Rightarrow> (nat \<Rightarrow> addr option) \<Rightarrow> (32 word \<Rightarrow> int \<times> 32 word) \<Rightarrow> int \<Rightarrow> int \<Rightarrow> addr \<Rightarrow>
   nat \<Rightarrow> nat \<Rightarrow> int \<Rightarrow> juggle \<Rightarrow> (upthread_t \<times> juggle) option" where
  "juggle_sched_loop env malloc rand_r num_vcores me a 0 k spin J = None"
| "juggle_sched_loop env malloc rand_r num_vcores me a (Suc fuel) k spin J = do {
     (u, J) \<leftarrow> juggle_dequeue rand_r num_vcores me J;
     (case u of
        Some t \<Rightarrow> Some (t, J)
      | None \<Rightarrow> do {
          (give_up, spin) \<leftarrow> spin_step (can_adjust_vcores (jg_sched J)) spin;
          J \<leftarrow> (if give_up then do {
                  J \<leftarrow> alarm_give_up (malloc k) a me J;
                  Some (jg_ext VcoreYield J)
                }
                else Some J);
          juggle_sched_loop env malloc rand_r num_vcores me a fuel (Suc k) spin
            (env k (jg_ext CpuRelax (jg_ext HandleEvents J)))
        })
   }"

definition juggle_pth_sched_entry ::
  "(nat \<Rightarrow> juggle \<Rightarrow> juggle) \<Rightarrow> addr option \<Rightarrow> (nat \<Rightarrow> addr option) \<Rightarrow> (32 word \<Rightarrow> int \<times> 32 word) \<Rightarrow>
   int \<Rightarrow> int \<Rightarrow> nat \<Rightarrow> upthread_t option \<Rightarrow> juggle \<Rightarrow> (upthread_t \<times> juggle) option" where
  "juggle_pth_sched_entry env malloc0 malloc rand_r num_vcores me fuel current_uthread J = do {
     (a, J) \<leftarrow> alarm_get malloc0 me J;
     J \<leftarrow> alarm_arm a me J;
     (case current_uthread of
        Some t \<Rightarrow> Some (t, jg_ext RunCurrentUthread J)
      | None \<Rightarrow> do {
          (t, J) \<leftarrow> juggle_sched_loop env malloc rand_r num_vcores me a fuel 0
                       (max_spin_count (jg_sched J)) J;
          J \<leftarrow> on_sched (set_state t UPTH_RUNNING) J;
          Some (t, jg_ext (RunUthread t) J)
        })
   }"

section \<open>Initialisation\<close>

definition juggle_globals :: "nat \<Rightarrow> juggle" where
  "juggle_globals n =
     \<lparr>jg_sched = pvcq_globals n, preempt_period = DEFAULT_PREEMPT_PERIOD,
      last_preempt_period = (\<lambda>_. DEFAULT_PREEMPT_PERIOD), alarm_dtls = (\<lambda>_. None),
      adata_heap = Map.empty, alarms = []\<rparr>"

text \<open>The key of the alarm data is new, so no vcore has a value for it.\<close>

definition juggle_upthread_lib_init ::
  "platform \<Rightarrow> (64 word \<Rightarrow> addr option) \<Rightarrow> int option \<Rightarrow> addr \<Rightarrow> 64 word \<Rightarrow> juggle \<Rightarrow>
   (upthread_t \<times> juggle) option" where
  "juggle_upthread_lib_init pl mmap spin_count_env stackbottom stacksize J = do {
     (t, J) \<leftarrow> on_sched_val (pvcq_upthread_lib_init pl mmap spin_count_env stackbottom stacksize) J;
     Some (t, J\<lparr>alarm_dtls := (\<lambda>_. None)\<rparr>)
   }"

end
