(* ===== verification/Juggle_Alarms.thy ===== *)
theory Juggle_Alarms
  imports Juggle_Sched Pvcq_Correct
begin

text \<open>
  The steps of the preemptive scheduler, the invariant of its alarms, and the contract of
  \<^verbatim>\<open>Runtime\<close>: the primitives run on this scheduler as on the others.
\<close>

section \<open>Steps\<close>

text \<open>
  Besides what the scheduler without alarms does: a vcore goes through the two parts of the
  beginning of \<open>pth_sched_entry\<close>, gives up, changes the period, or an alarm goes off on a vcore
  that runs \<open>current\<close>. \<open>adata\<close> is what \<open>get_dtls\<close> returned, which only the vcore itself changes. For
  an alarm that was cancelled the step is the callback up to the release of the lock (see
  \<open>juggle_stale_alarm\<close> for the release). \<open>malloc\<close> never returns a block in use.
\<close>

inductive juggle_moves :: "juggle \<Rightarrow> juggle \<Rightarrow> bool" where
  jg_sched: "pvcq_moves (jg_sched J) s' \<Longrightarrow> juggle_moves J (J\<lparr>jg_sched := s'\<rparr>)"
| jg_get: "adata_heap J b = None \<Longrightarrow> alarm_get (Some b) me J = Some (a, J') \<Longrightarrow> juggle_moves J J'"
| jg_arm: "alarm_dtls J me = Some a \<Longrightarrow> alarm_arm a me J = Some J' \<Longrightarrow> juggle_moves J J'"
| jg_give_up: "alarm_dtls J me = Some a \<Longrightarrow> adata_heap J b = None \<Longrightarrow>
    alarm_give_up (Some b) a me J = Some J' \<Longrightarrow> juggle_moves J J'"
| jg_fire: "(a, us) \<in> set (alarms J) \<Longrightarrow> (\<And>t. cur = Some t \<Longrightarrow> t \<in> pvcq_running (jg_sched J)) \<Longrightarrow>
    alarm_callback_cs a cur (J\<lparr>alarms := remove1 (a, us) (alarms J)\<rparr>) = Some (cur', J') \<Longrightarrow>
    juggle_moves J J'"
| jg_period: "juggle_upthread_set_sched_period us me J = Some (r, J') \<Longrightarrow> juggle_moves J J'"

definition juggle_running :: "juggle \<Rightarrow> upthread_t set" where
  "juggle_running J = pvcq_running (jg_sched J)"

definition juggle_blocked :: "juggle \<Rightarrow> upthread_t set" where
  "juggle_blocked J = pvcq_blocked (jg_sched J)"

definition juggle_runtime :: "juggle runtime" where
  "juggle_runtime = registered juggle_upthread_sched_ops (\<lambda>J. pvcq_links (jg_sched J))"

lemma juggle_runtime_simps [simp]:
  "uthread_runnable juggle_runtime = juggle_pth_thread_runnable"
  "uthread_has_blocked juggle_runtime = juggle_pth_thread_has_blocked"
  "uthread_paused juggle_runtime = juggle_pth_thread_paused"
  "linked juggle_runtime J = pvcq_links (jg_sched J)"
  by (simp_all add: juggle_runtime_def juggle_upthread_sched_ops_def)

abbreviation juggle_step :: "juggle \<Rightarrow> juggle \<Rightarrow> bool" where
  "juggle_step \<equiv> sched_step juggle_runtime juggle_running juggle_blocked juggle_moves"

definition juggle_init :: "juggle \<Rightarrow> bool" where
  "juggle_init J \<longleftrightarrow>
     (\<exists>pl mmap spin stackbottom stacksize t n. platform_ok pl \<and> 0 < n \<and> int n \<le> INT_MAX \<and>
        juggle_upthread_lib_init pl mmap spin stackbottom stacksize (juggle_globals n) = Some (t, J))"

section \<open>The invariant of the alarms\<close>

definition armed :: "juggle \<Rightarrow> addr \<Rightarrow> bool" where
  "armed J a \<longleftrightarrow> (\<exists>ad. adata_heap J a = Some ad \<and> ad_armed ad)"

text \<open>
  The data of each vcore is allocated and its own; an alarm is pending at most once, on
  allocated data; the armed ones are those of some vcore, pending for the period that vcore
  remembers; and a pending alarm of a vcore's current data is armed.
\<close>

definition alarms_ok :: "juggle \<Rightarrow> bool" where
  "alarms_ok J \<longleftrightarrow>
     (\<forall>me a. alarm_dtls J me = Some a \<longrightarrow> adata_heap J a \<noteq> None) \<and>
     (\<forall>me me' a. alarm_dtls J me = Some a \<longrightarrow> alarm_dtls J me' = Some a \<longrightarrow> me = me') \<and>
     distinct (map fst (alarms J)) \<and> (\<forall>a us. (a, us) \<in> set (alarms J) \<longrightarrow> adata_heap J a \<noteq> None) \<and>
     (\<forall>a. armed J a \<longrightarrow> (\<exists>me. alarm_dtls J me = Some a \<and> (a, last_preempt_period J me) \<in> set (alarms J))) \<and>
     (\<forall>me a us. alarm_dtls J me = Some a \<longrightarrow> (a, us) \<in> set (alarms J) \<longrightarrow> armed J a)"

definition juggle_ok :: "juggle \<Rightarrow> bool" where
  "juggle_ok J \<longleftrightarrow> pvcq_ok (jg_sched J) \<and> alarms_ok J"

lemma alarms_okD:
  assumes "alarms_ok J"
  shows "alarm_dtls J me = Some a \<Longrightarrow> \<exists>ad. adata_heap J a = Some ad"
    "alarm_dtls J me = Some a \<Longrightarrow> alarm_dtls J me' = Some a \<Longrightarrow> me = me'"
    "distinct (map fst (alarms J))" "(a, us) \<in> set (alarms J) \<Longrightarrow> \<exists>ad. adata_heap J a = Some ad"
    "armed J a \<Longrightarrow> \<exists>me. alarm_dtls J me = Some a \<and> (a, last_preempt_period J me) \<in> set (alarms J)"
    "alarm_dtls J me = Some a \<Longrightarrow> (a, us) \<in> set (alarms J) \<Longrightarrow> armed J a"
  using assms unfolding alarms_ok_def by (blast, blast, blast, blast, blast, blast)

lemma alarms_ok_sched [simp]: "alarms_ok (J\<lparr>jg_sched := s\<rparr>) = alarms_ok J"
  by (simp add: alarms_ok_def armed_def)

lemma alarms_ok_period [simp]: "alarms_ok (J\<lparr>preempt_period := us\<rparr>) = alarms_ok J"
  by (simp add: alarms_ok_def armed_def)

lemma alarms_okI:
  assumes "\<And>me a. alarm_dtls J me = Some a \<Longrightarrow> adata_heap J a \<noteq> None"
    and "\<And>me me' a. alarm_dtls J me = Some a \<Longrightarrow> alarm_dtls J me' = Some a \<Longrightarrow> me = me'"
    and "distinct (map fst (alarms J))" and "\<And>a us. (a, us) \<in> set (alarms J) \<Longrightarrow> adata_heap J a \<noteq> None"
    and "\<And>a. armed J a \<Longrightarrow> \<exists>me. alarm_dtls J me = Some a \<and> (a, last_preempt_period J me) \<in> set (alarms J)"
    and "\<And>me a us. alarm_dtls J me = Some a \<Longrightarrow> (a, us) \<in> set (alarms J) \<Longrightarrow> armed J a"
  shows "alarms_ok J"
  unfolding alarms_ok_def by (intro conjI allI impI; (rule assms; assumption))

text \<open>The vcore's data is replaced by a new block, the old one (if any) not armed.\<close>

lemma alarms_ok_new:
  assumes ok: "alarms_ok J" and b: "adata_heap J b = None"
    and h: "h = (case alarm_dtls J me of None \<Rightarrow> adata_heap J
                 | Some a \<Rightarrow> (adata_heap J)(a \<mapsto> \<lparr>ad_armed = False\<rparr>))"
    and J': "alarm_dtls J' = (alarm_dtls J)(me \<mapsto> b)" "adata_heap J' = h(b \<mapsto> \<lparr>ad_armed = False\<rparr>)"
      "alarms J' = alarms J" "last_preempt_period J' = last_preempt_period J"
  shows "alarms_ok J'"
proof (rule alarms_okI)
  note d = alarms_okD [OF ok]
  have fresh: "alarm_dtls J m \<noteq> Some b" "(b, us) \<notin> set (alarms J)" for m us
    using d(1) [of m b] d(4) [of b us] b by auto
  have live: "adata_heap J' a \<noteq> None" if "adata_heap J a \<noteq> None" for a
    using that by (simp add: J' h split: option.splits)
  have arm: "armed J' a \<longleftrightarrow> armed J a \<and> alarm_dtls J me \<noteq> Some a" for a
    using b fresh by (auto simp: armed_def J' h split: option.splits if_splits)
  show "adata_heap J' a \<noteq> None" if "alarm_dtls J' m = Some a" for m a
  proof (cases "m = me")
    case True
    with that show ?thesis by (simp add: J'(1,2))
  next
    case False
    with that d(1) [of m a] show ?thesis by (intro live) (auto simp: J'(1))
  qed
  show "m = m'" if "alarm_dtls J' m = Some a" "alarm_dtls J' m' = Some a" for m m' a
    using that fresh d(2) [of m a m'] by (simp add: J' split: if_splits)
  show "distinct (map fst (alarms J'))" using d(3) by (simp add: J')
  show "adata_heap J' a \<noteq> None" if "(a, us) \<in> set (alarms J')" for a us
    using that live d(4) [of a us] by (auto simp: J')
  show "\<exists>m. alarm_dtls J' m = Some a \<and> (a, last_preempt_period J' m) \<in> set (alarms J')" if "armed J' a" for a
  proof -
    from that d(5) [of a] arm obtain m where m: "alarm_dtls J m = Some a"
      "(a, last_preempt_period J m) \<in> set (alarms J)" "alarm_dtls J me \<noteq> Some a" by blast
    then have "m \<noteq> me" by auto
    with m show ?thesis by (intro exI [of _ m]) (simp add: J')
  qed
  show "armed J' a" if "alarm_dtls J' m = Some a" "(a, us) \<in> set (alarms J')" for m a us
  proof -
    from that fresh have m: "m \<noteq> me" "alarm_dtls J m = Some a" "(a, us) \<in> set (alarms J)"
      by (auto simp: J' split: if_splits)
    then have "alarm_dtls J me \<noteq> Some a" using d(2) [of m a me] by blast
    with d(6) [OF m(2,3)] arm show ?thesis by blast
  qed
qed

section \<open>Each alarm operation keeps it\<close>

lemma new_alarm_dataE:
  assumes "new_alarm_data (Some b) me J = Some (c, J')"
  shows "c = b \<and> J' = J\<lparr>adata_heap := (adata_heap J)(b \<mapsto> \<lparr>ad_armed = False\<rparr>),
                       alarm_dtls := (alarm_dtls J)(me \<mapsto> b)\<rparr>"
  using assms by (auto simp: new_alarm_data_def init_adata_def Let_def)

lemma ad_armed_upd [simp]: "ad\<lparr>ad_armed := v\<rparr> = \<lparr>ad_armed = v\<rparr>"
  by (cases ad) simp

lemma set_armed_eq:
  "adata_heap J a = Some ad \<Longrightarrow> set_armed a v J = Some (J\<lparr>adata_heap := (adata_heap J)(a \<mapsto> \<lparr>ad_armed = v\<rparr>)\<rparr>)"
  by (simp add: set_armed_def adata_at_def)

lemma alarm_get_ok:
  assumes ok: "alarms_ok J" and b: "adata_heap J b = None"
  shows "\<exists>a J'. alarm_get (Some b) me J = Some (a, J') \<and> alarms_ok J' \<and> jg_sched J' = jg_sched J \<and>
    alarm_dtls J' me = Some a \<and> preempt_period J' = preempt_period J \<and> alarms J' = alarms J \<and>
    last_preempt_period J' = last_preempt_period J \<and>
    (armed J' a \<longrightarrow> last_preempt_period J me = preempt_period J) \<and>
    (\<forall>c. alarm_dtls J me = Some c \<longrightarrow> armed J c \<longrightarrow> last_preempt_period J me \<noteq> preempt_period J \<longrightarrow>
       a = b \<and> adata_heap J' c = Some \<lparr>ad_armed = False\<rparr> \<and> c \<noteq> b)"
proof (cases "alarm_dtls J me")
  case None
  define J' where "J' = J\<lparr>adata_heap := (adata_heap J)(b \<mapsto> \<lparr>ad_armed = False\<rparr>), alarm_dtls := (alarm_dtls J)(me \<mapsto> b)\<rparr>"
  have "alarm_get (Some b) me J = Some (b, J')"
    by (simp add: alarm_get_def None new_alarm_data_def init_adata_def J'_def)
  moreover have "alarms_ok J'" by (rule alarms_ok_new [OF ok b refl, of _ me]) (simp_all add: J'_def None)
  ultimately show ?thesis using None by (simp add: J'_def armed_def)
next
  case (Some a)
  obtain ad where ad: "adata_heap J a = Some ad" using alarms_okD(1) [OF ok Some] by blast
  have ab: "a \<noteq> b" using ad b by auto
  show ?thesis
  proof (cases "ad_armed ad \<and> last_preempt_period J me \<noteq> preempt_period J")
    case True
    define J' where "J' = J\<lparr>adata_heap := (adata_heap J)(a \<mapsto> \<lparr>ad_armed = False\<rparr>, b \<mapsto> \<lparr>ad_armed = False\<rparr>),
      alarm_dtls := (alarm_dtls J)(me \<mapsto> b)\<rparr>"
    have "alarm_get (Some b) me J = Some (b, J')"
      using True by (simp add: alarm_get_def Some adata_at_def ad set_armed_eq [OF ad] new_alarm_data_def
          init_adata_def J'_def)
    moreover have "alarms_ok J'" by (rule alarms_ok_new [OF ok b refl, of _ me]) (simp_all add: J'_def Some)
    ultimately show ?thesis using Some ab by (simp add: J'_def armed_def)
  next
    case False
    then have "alarm_get (Some b) me J = Some (a, J)" by (auto simp: alarm_get_def Some adata_at_def ad)
    then show ?thesis using ok Some False ad by (auto simp: armed_def)
  qed
qed

lemma alarm_arm_ok:
  assumes ok: "alarms_ok J" and a: "alarm_dtls J me = Some a"
  shows "\<exists>J'. alarm_arm a me J = Some J' \<and> alarms_ok J' \<and> jg_sched J' = jg_sched J \<and> armed J' a \<and>
    alarm_dtls J' = alarm_dtls J \<and> preempt_period J' = preempt_period J \<and> set (alarms J) \<subseteq> set (alarms J') \<and>
    (armed J a \<longrightarrow> J' = J) \<and> (\<not> armed J a \<longrightarrow> last_preempt_period J' me = preempt_period J)"
proof -
  note d = alarms_okD [OF ok]
  obtain ad where ad: "adata_heap J a = Some ad" using d(1) [OF a] by blast
  show ?thesis
  proof (cases "ad_armed ad")
    case True
    then have "alarm_arm a me J = Some J" by (simp add: alarm_arm_def adata_at_def ad)
    then show ?thesis using ok True ad by (auto simp: armed_def)
  next
    case False
    then have na: "\<not> armed J a" by (simp add: armed_def ad)
    then have np: "(a, us) \<notin> set (alarms J)" for us using d(6) [OF a] by blast
    define J' where "J' = J\<lparr>last_preempt_period := (last_preempt_period J)(me := preempt_period J),
      adata_heap := (adata_heap J)(a \<mapsto> \<lparr>ad_armed = True\<rparr>), alarms := alarms J @ [(a, preempt_period J)]\<rparr>"
    have eq: "alarm_arm a me J = Some J'"
      using False by (simp add: alarm_arm_def adata_at_def ad set_armed_def J'_def)
    have arm: "armed J' c \<longleftrightarrow> c = a \<or> armed J c" for c by (simp add: armed_def J'_def)
    have "alarms_ok J'"
    proof (rule alarms_okI)
      show "adata_heap J' c \<noteq> None" if "alarm_dtls J' m = Some c" for m c
        using that d(1) [of m c] by (auto simp: J'_def)
      show "m = m'" if "alarm_dtls J' m = Some c" "alarm_dtls J' m' = Some c" for m m' c
        using that d(2) by (simp add: J'_def)
      show "distinct (map fst (alarms J'))" using d(3) np by (auto simp: J'_def)
      show "adata_heap J' c \<noteq> None" if "(c, us) \<in> set (alarms J')" for c us
        using that d(4) [of c us] by (auto simp: J'_def)
      show "\<exists>m. alarm_dtls J' m = Some c \<and> (c, last_preempt_period J' m) \<in> set (alarms J')" if "armed J' c" for c
      proof (cases "c = a")
        case True
        then show ?thesis using a by (intro exI [of _ me]) (simp add: J'_def)
      next
        case False
        with that arm d(5) [of c] obtain m where m: "alarm_dtls J m = Some c"
          "(c, last_preempt_period J m) \<in> set (alarms J)" by blast
        then have "m \<noteq> me" using a False by auto
        with m show ?thesis by (intro exI [of _ m]) (simp add: J'_def)
      qed
      show "armed J' c" if "alarm_dtls J' m = Some c" "(c, us) \<in> set (alarms J')" for m c us
        using that d(6) [of m c us] arm by (auto simp: J'_def)
    qed
    with eq na arm show ?thesis by (intro exI [of _ J']) (auto simp: J'_def)
  qed
qed

lemma alarm_give_up_ok:
  assumes ok: "alarms_ok J" and a: "alarm_dtls J me = Some a" and b: "adata_heap J b = None"
  shows "\<exists>J'. alarm_give_up (Some b) a me J = Some J' \<and> alarms_ok J' \<and> jg_sched J' = jg_sched J \<and>
    alarm_dtls J' = (alarm_dtls J)(me \<mapsto> b) \<and> alarms J' = alarms J \<and>
    adata_heap J' a = Some \<lparr>ad_armed = False\<rparr> \<and> a \<noteq> b"
proof -
  obtain ad where ad: "adata_heap J a = Some ad" using alarms_okD(1) [OF ok a] by blast
  have ab: "a \<noteq> b" using ad b by auto
  define J' where "J' = J\<lparr>adata_heap := (adata_heap J)(a \<mapsto> \<lparr>ad_armed = False\<rparr>, b \<mapsto> \<lparr>ad_armed = False\<rparr>),
    alarm_dtls := (alarm_dtls J)(me \<mapsto> b)\<rparr>"
  have "alarm_give_up (Some b) a me J = Some J'"
    using ab by (simp add: alarm_give_up_def adata_at_def set_armed_eq [OF ad] new_alarm_data_def
        init_adata_def J'_def)
  moreover have "alarms_ok J'" by (rule alarms_ok_new [OF ok b refl, of _ me]) (simp_all add: J'_def a)
  ultimately show ?thesis using ab by (simp add: J'_def)
qed

text \<open>An alarm goes off.\<close>

lemma alarms_ok_fired:
  assumes ok: "alarms_ok J" and p: "(a, us) \<in> set (alarms J)"
    and J': "alarm_dtls J' = alarm_dtls J" "alarms J' = remove1 (a, us) (alarms J)"
      "last_preempt_period J' = last_preempt_period J"
      "adata_heap J' = (if armed J a then (adata_heap J)(a \<mapsto> \<lparr>ad_armed = False\<rparr>) else (adata_heap J)(a := None))"
  shows "alarms_ok J'"
proof (rule alarms_okI)
  note d = alarms_okD [OF ok]
  have dis: "distinct (alarms J)" using d(3) by (simp add: distinct_map)
  have set: "set (alarms J') = set (alarms J) - {(a, us)}" by (simp add: J' dis)
  have uniq: "v = us" if "(a, v) \<in> set (alarms J)" for v
    using eq_key_imp_eq_value [OF d(3) that p] .
  have gone: "(a, v) \<notin> set (alarms J')" for v using uniq set by blast
  have arm: "armed J' c \<longleftrightarrow> c \<noteq> a \<and> armed J c" for c by (simp add: armed_def J')
  show "adata_heap J' c \<noteq> None" if "alarm_dtls J' m = Some c" for m c
    using that d(1) [of m c] d(6) [of m a us] p by (auto simp: J')
  show "m = m'" if "alarm_dtls J' m = Some c" "alarm_dtls J' m' = Some c" for m m' c
    using that d(2) by (simp add: J')
  show "distinct (map fst (alarms J'))" using d(3) set_remove1_subset [of "(a, us)" "alarms J"]
    by (auto simp: J'(2) distinct_map intro: inj_on_subset)
  show "adata_heap J' c \<noteq> None" if "(c, v) \<in> set (alarms J')" for c v
  proof -
    have "c \<noteq> a" using that gone by blast
    moreover have "(c, v) \<in> set (alarms J)" using that set by blast
    ultimately show ?thesis using d(4) [of c v] by (auto simp: J'(4))
  qed
  show "\<exists>m. alarm_dtls J' m = Some c \<and> (c, last_preempt_period J' m) \<in> set (alarms J')" if "armed J' c" for c
    using that d(5) [of c] arm set by (auto simp: J'(1,3))
  show "armed J' c" if "alarm_dtls J' m = Some c" "(c, v) \<in> set (alarms J')" for m c v
  proof -
    have "c \<noteq> a" using that gone by blast
    with that set d(6) [of m c v] arm show ?thesis by (simp add: J'(1))
  qed
qed

end
