(* ===== verification/Juggle_Correct.thy ===== *)
theory Juggle_Correct
  imports Juggle_Alarms
begin

text \<open>
  The preemptive scheduler meets the contract, does nothing the scheduler without alarms could not
  do, and keeps the books of its alarms, up to what happens to an alarm that was cancelled.
\<close>

section \<open>The contract\<close>

lemma alarm_callback_cs_ok:
  assumes ok: "juggle_ok J" and p: "(a, us) \<in> set (alarms J)"
    and run: "\<And>t. cur = Some t \<Longrightarrow> t \<in> pvcq_running (jg_sched J)"
  shows "\<exists>cur' J'. alarm_callback_cs a cur (J\<lparr>alarms := remove1 (a, us) (alarms J)\<rparr>) = Some (cur', J') \<and>
    juggle_ok J' \<and> pvcq_blocked (jg_sched J') = pvcq_blocked (jg_sched J) \<and>
    (armed J a \<longrightarrow> cur' = None \<and> adata_heap J' a = Some \<lparr>ad_armed = False\<rparr> \<and>
       alarm_callback a cur (J\<lparr>alarms := remove1 (a, us) (alarms J)\<rparr>) = Some (cur', J') \<and>
       (case cur of None \<Rightarrow> jg_sched J' = jg_sched J
        | Some t \<Rightarrow> uthread_paused pvcq_runtime t (jg_sched J) = Some (jg_sched J'))) \<and>
    (\<not> armed J a \<longrightarrow> cur' = cur \<and> jg_sched J' = jg_sched J \<and> adata_heap J' a = None)"
proof -
  have al: "alarms_ok J" and s: "pvcq_ok (jg_sched J)" using ok by (simp_all add: juggle_ok_def)
  obtain ad where ad: "adata_heap J a = Some ad" using alarms_okD(4) [OF al p] by blast
  let ?J = "J\<lparr>alarms := remove1 (a, us) (alarms J)\<rparr>"
  let ?h = "if armed J a then (adata_heap J)(a \<mapsto> \<lparr>ad_armed = False\<rparr>) else (adata_heap J)(a := None)"
  have ok': "alarms_ok (?J\<lparr>adata_heap := ?h, jg_sched := s'\<rparr>)" for s'
    by (rule alarms_ok_fired [OF al p]) simp_all
  show ?thesis
  proof (cases "armed J a")
    case False
    let ?J' = "?J\<lparr>adata_heap := ?h, jg_sched := jg_sched J\<rparr>"
    have "alarm_callback_cs a cur ?J = Some (cur, ?J')"
      using False ad by (auto simp: alarm_callback_cs_def adata_at_def armed_def)
    with ok' [of "jg_sched J"] s False show ?thesis
      by (intro exI [of _ cur] exI [of _ ?J']) (simp add: juggle_ok_def)
  next
    case True
    then have ar: "ad_armed ad" using ad by (simp add: armed_def)
    show ?thesis
    proof (cases cur)
      case None
      let ?J' = "?J\<lparr>adata_heap := ?h, jg_sched := jg_sched J\<rparr>"
      have cb: "alarm_callback_cs a cur ?J = Some (None, ?J')"
        using True ad ar None by (simp add: alarm_callback_cs_def adata_at_def set_armed_def)
      then have "alarm_callback a cur ?J = Some (None, ?J')"
        using True by (simp add: alarm_callback_def adata_at_def)
      with cb ok' [of "jg_sched J"] s True None show ?thesis
        by (intro exI [of _ None] exI [of _ ?J']) (simp add: juggle_ok_def)
    next
      case (Some t)
      from pvcq_sched.paused_spec [OF s run [OF Some]] obtain s' where s':
        "uthread_paused pvcq_runtime t (jg_sched J) = Some s'" "pvcq_ok s'"
        "pvcq_blocked s' = pvcq_blocked (jg_sched J)" by blast
      let ?J' = "?J\<lparr>adata_heap := ?h, jg_sched := s'\<rparr>"
      have cb: "alarm_callback_cs a cur ?J = Some (None, ?J')"
        using True ad ar Some s'(1)
        by (simp add: alarm_callback_cs_def adata_at_def set_armed_def juggle_pth_thread_paused_def on_sched_def)
      then have "alarm_callback a cur ?J = Some (None, ?J')"
        using True by (simp add: alarm_callback_def adata_at_def)
      with cb ok' [of s'] s' True Some show ?thesis
        by (intro exI [of _ None] exI [of _ ?J']) (simp add: juggle_ok_def)
    qed
  qed
qed

lemma juggle_moves_ok:
  assumes "juggle_moves J J'" and "juggle_ok J"
  shows "juggle_ok J' \<and> juggle_blocked J' = juggle_blocked J"
  using assms
proof (induction rule: juggle_moves.induct)
  case (jg_sched J s')
  then show ?case using pvcq_moves_ok [where H = "{}"] by (simp add: juggle_ok_def juggle_blocked_def)
next
  case (jg_get J b me a J')
  with alarm_get_ok [of J b me] show ?case by (auto simp: juggle_ok_def juggle_blocked_def)
next
  case (jg_arm J me a J')
  with alarm_arm_ok [of J me a] show ?case by (auto simp: juggle_ok_def juggle_blocked_def)
next
  case (jg_give_up J me a b J')
  with alarm_give_up_ok [of J me a b] show ?case by (auto simp: juggle_ok_def juggle_blocked_def)
next
  case (jg_fire a us J cur cur' J')
  obtain c K where "alarm_callback_cs a cur (J\<lparr>alarms := remove1 (a, us) (alarms J)\<rparr>) = Some (c, K)"
    "juggle_ok K" "pvcq_blocked (jg_sched K) = pvcq_blocked (jg_sched J)"
    using alarm_callback_cs_ok [of J a us cur, OF jg_fire(4,1,2)] by blast
  with jg_fire(3) show ?case by (simp add: juggle_blocked_def)
next
  case (jg_period us me J r J')
  then show ?case by (auto simp: juggle_ok_def juggle_blocked_def dest!: set_sched_period_state)
qed

lemma on_sched_spec:
  assumes ok: "juggle_ok J" and s': "f (jg_sched J) = Some s'" "pvcq_ok s'"
  shows "\<exists>J'. on_sched f J = Some J' \<and> juggle_ok J' \<and> jg_sched J' = s'"
  using assms by (simp add: on_sched_def juggle_ok_def)

interpretation juggle_sched: two_level_scheduler juggle_runtime juggle_ok juggle_running juggle_blocked juggle_moves
proof (unfold_locales, goal_cases)
  case (1 J t)
  then show ?case using pvcq_sched.blocked_unlinked by (simp add: juggle_ok_def juggle_blocked_def)
next
  case (2 J t)
  then show ?case using pvcq_sched.blocked_not_running by (simp add: juggle_ok_def juggle_blocked_def juggle_running_def)
next
  case (3 J t f)
  then have s: "pvcq_ok (jg_sched J)" "t \<in> pvcq_running (jg_sched J)" by (simp_all add: juggle_ok_def juggle_running_def)
  from pvcq_has_blocked_spec [OF s, of f] on_sched_spec [OF 3(1)] show ?case
    by (fastforce simp: juggle_pth_thread_has_blocked_def juggle_running_def juggle_blocked_def)
next
  case (4 J t)
  then have s: "pvcq_ok (jg_sched J)" "t \<in> pvcq_blocked (jg_sched J)" by (simp_all add: juggle_ok_def juggle_blocked_def)
  from pvcq_runnable_spec [OF s] on_sched_spec [OF 4(1)] show ?case
    by (fastforce simp: juggle_pth_thread_runnable_def juggle_running_def juggle_blocked_def)
next
  case (5 J t)
  then have s: "pvcq_ok (jg_sched J)" "t \<in> pvcq_running (jg_sched J)" by (simp_all add: juggle_ok_def juggle_running_def)
  from pvcq_paused_spec [OF s] on_sched_spec [OF 5(1)] show ?case
    by (fastforce simp: juggle_pth_thread_paused_def juggle_running_def juggle_blocked_def)
next
  case (6 J J')
  then show ?case using juggle_moves_ok by blast
qed

lemma juggle_init_sched:
  assumes "juggle_init J"
  shows "pvcq_init (jg_sched J)" and "alarms_ok J"
proof -
  from assms obtain pl mmap spin b z t n where i: "platform_ok pl" "0 < n" "int n \<le> INT_MAX"
    "juggle_upthread_lib_init pl mmap spin b z (juggle_globals n) = Some (t, J)" by (auto simp: juggle_init_def)
  then have "pvcq_upthread_lib_init pl mmap spin b z (pvcq_globals n) = Some (t, jg_sched J)"
    and a: "alarm_dtls J = (\<lambda>_. None)" "adata_heap J = Map.empty" "alarms J = []"
    by (auto simp: juggle_upthread_lib_init_def on_sched_val_def juggle_globals_def bind_Some_conv)
  with i(1-3) show "pvcq_init (jg_sched J)" unfolding pvcq_init_def by blast
  show "alarms_ok J" by (simp add: alarms_ok_def armed_def a)
qed

lemma juggle_reachable_ok: "reachable juggle_init juggle_step J \<Longrightarrow> juggle_ok J"
  using juggle_sched.sched_reachable_inv [of juggle_init J] juggle_init_sched pvcq_init_ok
  by (simp add: juggle_ok_def)

section \<open>Simulation\<close>

lemma juggle_step_sim:
  assumes "juggle_step J J'" and ok: "juggle_ok J"
  shows "jg_sched J' = jg_sched J \<or> pvcq_step (jg_sched J) (jg_sched J')"
  using assms(1)
proof (cases rule: sched_step.cases)
  case (ss_block t f)
  then show ?thesis
    by (auto simp: juggle_pth_thread_has_blocked_def on_sched_def juggle_running_def intro!: sched_step.ss_block)
next
  case (ss_pause t)
  then show ?thesis
    by (auto simp: juggle_pth_thread_paused_def on_sched_def juggle_running_def intro!: sched_step.ss_pause)
next
  case (ss_wake t)
  then show ?thesis
    by (auto simp: juggle_pth_thread_runnable_def on_sched_def juggle_blocked_def intro!: sched_step.ss_wake)
next
  case ss_move
  then show ?thesis
  proof (cases rule: juggle_moves.cases)
    case (jg_sched s')
    then show ?thesis by (auto intro: sched_step.ss_move)
  next
    case (jg_get b me a)
    with alarm_get_ok [of J b me] ok show ?thesis by (auto simp: juggle_ok_def)
  next
    case (jg_arm me a)
    with alarm_arm_ok [of J me a] ok show ?thesis by (auto simp: juggle_ok_def)
  next
    case (jg_give_up me a b)
    with alarm_give_up_ok [of J me a b] ok show ?thesis by (auto simp: juggle_ok_def)
  next
    case (jg_fire a us cur cur')
    from alarm_callback_cs_ok [of J a us cur, OF ok jg_fire(1,2)] jg_fire(3)
    have "jg_sched J' = jg_sched J \<or>
        (\<exists>t. cur = Some t \<and> uthread_paused pvcq_runtime t (jg_sched J) = Some (jg_sched J'))"
      by (cases cur) auto
    with jg_fire(2) show ?thesis by (blast intro: sched_step.ss_pause)
  next
    case (jg_period us me r)
    then show ?thesis by (auto dest!: set_sched_period_state)
  qed
qed

lemma juggle_reachable_sched:
  assumes "reachable juggle_init juggle_step J"
  shows "reachable pvcq_init pvcq_step (jg_sched J)"
  using assms
proof (induction rule: reachable.induct)
  case (reach_init J)
  then show ?case by (intro reachable.reach_init) (rule juggle_init_sched)
next
  case (reach_step J J')
  from juggle_step_sim [OF reach_step(2) juggle_reachable_ok [OF reach_step(1)]] reach_step(3)
  show ?case by (auto intro: reachable.reach_step)
qed

end
