(* ===== verification/Juggle_Life.thy ===== *)
theory Juggle_Life
  imports Juggle_Correct
begin

text \<open>
  Properties of the preemptive scheduler: its alarms, the time slice, and what goes wrong with
  an alarm that was cancelled.
\<close>

section \<open>A small execution\<close>

text \<open>The library has started on two vcores. Vcore 0 goes through the beginning of its scheduler
  entry, with its alarm data at 900; the period is changed; vcore 0 comes by again.\<close>

definition jg0 :: juggle where
  "jg0 = (juggle_globals 2)\<lparr>jg_sched := pv0\<rparr>"

definition jg1 :: juggle where
  "jg1 = jg0\<lparr>alarm_dtls := [0 \<mapsto> 900], adata_heap := [900 \<mapsto> \<lparr>ad_armed = False\<rparr>]\<rparr>"

definition jg2 :: juggle where
  "jg2 = jg1\<lparr>adata_heap := [900 \<mapsto> \<lparr>ad_armed = True\<rparr>], alarms := [(900, 10000)]\<rparr>"

definition jg3 :: juggle where
  "jg3 = jg2\<lparr>preempt_period := 500\<rparr>"

definition jg4 :: juggle where
  "jg4 = jg3\<lparr>adata_heap := [900 \<mapsto> \<lparr>ad_armed = False\<rparr>, 901 \<mapsto> \<lparr>ad_armed = False\<rparr>], alarm_dtls := [0 \<mapsto> 901]\<rparr>"

lemmas jg_defs = jg0_def jg1_def jg2_def jg3_def jg4_def juggle_globals_def

abbreviation juggle_reach :: "juggle \<Rightarrow> bool" where
  "juggle_reach \<equiv> reachable juggle_init juggle_step"

lemma jg0_init: "juggle_init jg0"
proof -
  have "pvcq_upthread_lib_init demo_platform (\<lambda>_. Some 1048576) None 65536 8192 (pvcq_globals 2) = Some (1052480, pv0)"
    using pv_boot by (simp add: pv_boot_def)
  then have "juggle_upthread_lib_init demo_platform (\<lambda>_. Some 1048576) None 65536 8192 (juggle_globals 2) = Some (1052480, jg0)"
    by (simp add: juggle_upthread_lib_init_def on_sched_val_def juggle_globals_def jg0_def)
  moreover have "0 < (2::nat)" "int 2 \<le> INT_MAX" by simp_all
  ultimately show ?thesis unfolding juggle_init_def using demo_platform_ok by blast
qed

lemma jg_steps:
  "juggle_moves jg0 jg1" "juggle_moves jg1 jg2" "juggle_moves jg2 jg3" "juggle_moves jg3 jg4"
proof -
  have "alarm_get (Some 900) 0 jg0 = Some (900, jg1)"
    by (simp add: alarm_get_def new_alarm_data_def init_adata_def jg_defs)
  then show "juggle_moves jg0 jg1" by (rule jg_get [rotated]) (simp add: jg_defs)
  have "alarm_arm 900 0 jg1 = Some jg2"
    by (simp add: alarm_arm_def adata_at_def set_armed_def jg_defs fun_upd_idem)
  then show "juggle_moves jg1 jg2" by (rule jg_arm [rotated]) (simp add: jg_defs)
  have "pvcq_upthread_yield 0 pv0 = Some (Return 0)" by code_simp
  then have "juggle_upthread_set_sched_period 500 0 jg2 = Some (Return 0, jg3)"
    by (simp add: juggle_upthread_set_sched_period_def juggle_upthread_yield_def jg_defs)
  then show "juggle_moves jg2 jg3" by (rule jg_period)
  have "alarm_get (Some 901) 0 jg3 = Some (901, jg4)"
    by (simp add: alarm_get_def adata_at_def set_armed_def new_alarm_data_def init_adata_def jg_defs)
  then show "juggle_moves jg3 jg4" by (rule jg_get [rotated]) (simp add: jg_defs)
qed

lemma jg_reach: "juggle_reach jg0" "juggle_reach jg1" "juggle_reach jg2" "juggle_reach jg3" "juggle_reach jg4"
proof -
  show 0: "juggle_reach jg0" by (rule reachable.reach_init) (rule jg0_init)
  show 1: "juggle_reach jg1" by (rule reach_step [OF 0]) (rule ss_move, rule jg_steps)
  show 2: "juggle_reach jg2" by (rule reach_step [OF 1]) (rule ss_move, rule jg_steps)
  show 3: "juggle_reach jg3" by (rule reach_step [OF 2]) (rule ss_move, rule jg_steps)
  show "juggle_reach jg4" by (rule reach_step [OF 3]) (rule ss_move, rule jg_steps)
qed

section \<open>Properties\<close>



text \<open>
  C25: the books of the alarms balance. In every reachable state no alarm is pending twice, the
  data of every pending alarm and of every vcore is allocated, no two vcores share their data, and
  the data of a vcore is armed exactly when its alarm is pending; so an alarm is never set while
  it is already set.
\<close>

theorem juggle_alarms_sound:
  assumes "reachable juggle_init juggle_step J"
  shows "distinct (map fst (alarms J)) \<and> (\<forall>a us. (a, us) \<in> set (alarms J) \<longrightarrow> adata_heap J a \<noteq> None) \<and>
    (\<forall>me a. alarm_dtls J me = Some a \<longrightarrow>
       adata_heap J a \<noteq> None \<and> (armed J a \<longleftrightarrow> a \<in> fst ` set (alarms J)) \<and>
       (\<forall>me'. alarm_dtls J me' = Some a \<longrightarrow> me' = me))"
proof -
  have ok: "alarms_ok J" using juggle_reachable_ok [OF assms] by (simp add: juggle_ok_def)
  note d = alarms_okD [OF ok]
  have arm: "armed J a \<longleftrightarrow> a \<in> fst ` set (alarms J)" if "alarm_dtls J me = Some a" for me a
    using d(5) [of a] d(6) [OF that] by force
  show ?thesis
  proof (intro conjI allI impI)
    show "distinct (map fst (alarms J))" by (rule d(3))
    show "adata_heap J a \<noteq> None" if "(a, us) \<in> set (alarms J)" for a us using d(4) [OF that] by auto
    show "adata_heap J a \<noteq> None" if "alarm_dtls J me = Some a" for me a using d(1) [OF that] by auto
    show "armed J a \<longleftrightarrow> a \<in> fst ` set (alarms J)" if "alarm_dtls J me = Some a" for me a
      by (rule arm [OF that])
    show "m = me" if "alarm_dtls J me = Some a" "alarm_dtls J m = Some a" for me m a
      by (rule d(2) [OF that(2,1)])
  qed
qed

theorem juggle_alarms_sound_witness:
  "distinct (map fst (alarms jg2)) \<and> armed jg2 900"
proof -
  have "alarm_dtls jg2 0 = Some 900" "900 \<in> fst ` set (alarms jg2)" by (simp_all add: jg_defs)
  with juggle_alarms_sound [OF jg_reach(3)] show ?thesis by blast
qed

text \<open>
  A vcore never runs its scheduler without a time slice. The beginning of \<open>pth_sched_entry\<close> is
  always defined, provided \<open>malloc\<close> succeeds, and leaves the vcore with an armed alarm that is
  pending for the period now in force, whatever alarm it had before.
\<close>

theorem juggle_entry_arms:
  assumes "reachable juggle_init juggle_step J" and "adata_heap J b = None"
  shows "\<exists>a J1 J2. alarm_get (Some b) me J = Some (a, J1) \<and> alarm_arm a me J1 = Some J2 \<and>
    alarm_dtls J2 me = Some a \<and> armed J2 a \<and> (a, preempt_period J) \<in> set (alarms J2) \<and>
    last_preempt_period J2 me = preempt_period J \<and> jg_sched J2 = jg_sched J"
proof -
  have ok: "alarms_ok J" using juggle_reachable_ok [OF assms(1)] by (simp add: juggle_ok_def)
  from alarm_get_ok [OF ok assms(2), of me] obtain a J1 where g: "alarm_get (Some b) me J = Some (a, J1)"
    "alarms_ok J1" "jg_sched J1 = jg_sched J" "alarm_dtls J1 me = Some a" "preempt_period J1 = preempt_period J"
    "last_preempt_period J1 = last_preempt_period J" "armed J1 a \<longrightarrow> last_preempt_period J me = preempt_period J"
    by blast
  from alarm_arm_ok [OF g(2,4)] obtain J2 where r: "alarm_arm a me J1 = Some J2" "alarms_ok J2"
    "jg_sched J2 = jg_sched J1" "armed J2 a" "alarm_dtls J2 = alarm_dtls J1" "armed J1 a \<longrightarrow> J2 = J1"
    "\<not> armed J1 a \<longrightarrow> last_preempt_period J2 me = preempt_period J1" by blast
  have last: "last_preempt_period J2 me = preempt_period J" using g(5-7) r(6,7) by auto
  from alarms_okD(5) [OF r(2,4)] obtain m where m: "alarm_dtls J2 m = Some a"
    "(a, last_preempt_period J2 m) \<in> set (alarms J2)" by blast
  have "alarm_dtls J2 me = Some a" using g(4) r(5) by simp
  from alarms_okD(2) [OF r(2) m(1) this] m(2) last g r this show ?thesis by auto
qed

theorem juggle_entry_arms_witness:
  "\<exists>a J1 J2. alarm_get (Some 901) 0 jg3 = Some (a, J1) \<and> alarm_arm a 0 J1 = Some J2 \<and>
     (a, 500) \<in> set (alarms J2)"
proof -
  have "adata_heap jg3 901 = None" by (simp add: jg_defs)
  from juggle_entry_arms [OF jg_reach(4) this, of 0] show ?thesis by (auto simp: jg3_def)
qed

text \<open>
  C30: the end of a time slice. When an armed alarm goes off on a vcore that runs a thread,
  \<open>alarm_callback\<close> is defined, leaves the vcore without a current thread, puts exactly that
  thread back on a run queue, wakes and blocks nobody else, and disarms the alarm.
\<close>

theorem juggle_preempts:
  assumes "reachable juggle_init juggle_step J" and "(a, us) \<in> set (alarms J)" and "armed J a"
    and "t \<in> juggle_running J"
  shows "\<exists>J'. alarm_callback a (Some t) (J\<lparr>alarms := remove1 (a, us) (alarms J)\<rparr>) = Some (None, J') \<and>
    juggle_running J' = juggle_running J - {t} \<and> juggle_blocked J' = juggle_blocked J \<and>
    t \<in> pvcq_links (jg_sched J') \<and> state_of (pvcq_live (jg_sched J')) t = Some UPTH_RUNNABLE \<and> \<not> armed J' a"
proof -
  have ok: "juggle_ok J" by (rule juggle_reachable_ok [OF assms(1)])
  have run: "t \<in> pvcq_running (jg_sched J)" using assms(4) by (simp add: juggle_running_def)
  from alarm_callback_cs_ok [of J a us "Some t", OF ok assms(2)] run assms(3) obtain J' where
    J': "alarm_callback a (Some t) (J\<lparr>alarms := remove1 (a, us) (alarms J)\<rparr>) = Some (None, J')"
      "juggle_ok J'" "adata_heap J' a = Some \<lparr>ad_armed = False\<rparr>"
      "uthread_paused pvcq_runtime t (jg_sched J) = Some (jg_sched J')" by auto
  have s: "pvcq_ok (jg_sched J)" using ok by (simp add: juggle_ok_def)
  have 1: "pvcq_running (jg_sched J') = pvcq_running (jg_sched J) - {t}"
    "pvcq_blocked (jg_sched J') = pvcq_blocked (jg_sched J)" "t \<in> pvcq_links (jg_sched J')"
    using pvcq_paused_spec [OF s run] J'(4) by auto
  moreover have "state_of (pvcq_live (jg_sched J')) t = Some UPTH_RUNNABLE"
    using J'(2) 1(3) by (simp add: juggle_ok_def pvcq_ok_def pvcq_inv_def)
  ultimately show ?thesis using J'(1,3)
    by (intro exI [of _ J']) (simp add: juggle_running_def juggle_blocked_def armed_def)
qed

lemma pv0_running: "1052480 \<in> pvcq_running pv0"
proof -
  have "state_of (pvcq_live pv0) 1052480 = Some UPTH_RUNNING" by code_simp
  then show ?thesis by (simp add: pvcq_running_def)
qed

theorem juggle_preempts_witness:
  "\<exists>J'. alarm_callback 900 (Some 1052480) (jg2\<lparr>alarms := []\<rparr>) = Some (None, J') \<and>
     1052480 \<in> pvcq_links (jg_sched J')"
proof -
  have "(900, 10000) \<in> set (alarms jg2)" "armed jg2 900" "1052480 \<in> juggle_running jg2"
    "remove1 (900, 10000) (alarms jg2) = []"
    using pv0_running by (simp_all add: jg_defs armed_def juggle_running_def)
  from juggle_preempts [OF jg_reach(3) this(1-3)] this(4) show ?thesis by auto
qed

text \<open>
  C40: an alarm that was cancelled is used after it was freed. When a vcore comes by its
  scheduler entry with an armed alarm for a period that is no longer in force, the old alarm stays
  pending, disarmed; when it goes off, on whatever vcore, the callback frees its data inside
  the critical section and then releases the lock that lies in the freed block.
\<close>

theorem juggle_stale_alarm:
  assumes "reachable juggle_init juggle_step J" and "alarm_dtls J me = Some a" and "armed J a"
    and "last_preempt_period J me \<noteq> preempt_period J" and "adata_heap J b = None"
    and "alarm_get (Some b) me J = Some (c, J')"
  shows "c = b \<and> a \<in> fst ` set (alarms J') \<and>
    alarm_callback_cs a cur J' = Some (cur, J'\<lparr>adata_heap := (adata_heap J')(a := None)\<rparr>) \<and>
    alarm_callback a cur J' = None"
proof -
  have ok: "alarms_ok J" using juggle_reachable_ok [OF assms(1)] by (simp add: juggle_ok_def)
  from alarm_get_ok [OF ok assms(5), of me] assms(2-4,6) have g: "c = b" "alarms J' = alarms J"
    "adata_heap J' a = Some \<lparr>ad_armed = False\<rparr>" by auto
  have "a \<in> fst ` set (alarms J)" using alarms_okD(5) [OF ok assms(3)] by force
  then show ?thesis using g by (simp add: alarm_callback_def alarm_callback_cs_def adata_at_def)
qed

theorem juggle_stale_alarm_witness:
  "900 \<in> fst ` set (alarms jg4) \<and> alarm_callback 900 None jg4 = None"
proof -
  have g: "alarm_get (Some 901) 0 jg3 = Some (901, jg4)"
    by (simp add: alarm_get_def adata_at_def set_armed_def new_alarm_data_def init_adata_def jg_defs)
  have "alarm_dtls jg3 0 = Some 900" "armed jg3 900" "last_preempt_period jg3 0 \<noteq> preempt_period jg3"
    "adata_heap jg3 901 = None" by (simp_all add: jg_defs armed_def)
  from juggle_stale_alarm [OF jg_reach(4) this g] show ?thesis by blast
qed

text \<open>
  Alarm data leaks. When a vcore gives up after its alarm has gone off while it was
  searching, the old data stays allocated although no alarm is pending on it and no vcore refers
  to it, so nothing will ever free it.
\<close>

theorem juggle_give_up_leaks:
  assumes "reachable juggle_init juggle_step J" and "alarm_dtls J me = Some a" and "\<not> armed J a"
    and "adata_heap J b = None" and "alarm_give_up (Some b) a me J = Some J'"
  shows "adata_heap J' a \<noteq> None \<and> a \<notin> fst ` set (alarms J') \<and> (\<forall>m. alarm_dtls J' m \<noteq> Some a)"
proof -
  have ok: "alarms_ok J" using juggle_reachable_ok [OF assms(1)] by (simp add: juggle_ok_def)
  from alarm_give_up_ok [OF ok assms(2,4)] assms(5) have g: "alarms J' = alarms J"
    "alarm_dtls J' = (alarm_dtls J)(me \<mapsto> b)" "adata_heap J' a = Some \<lparr>ad_armed = False\<rparr>" "a \<noteq> b" by auto
  have "a \<notin> fst ` set (alarms J)" using alarms_okD(6) [OF ok assms(2)] assms(3) by force
  moreover have "alarm_dtls J m \<noteq> Some a" if "m \<noteq> me" for m
    using alarms_okD(2) [OF ok assms(2), of m] that by blast
  ultimately show ?thesis using g by auto
qed

theorem juggle_give_up_leaks_witness:
  "\<exists>J'. alarm_give_up (Some 901) 900 0 jg1 = Some J' \<and> adata_heap J' 900 \<noteq> None \<and>
     900 \<notin> fst ` set (alarms J')"
proof -
  have "alarms_ok jg1" "alarm_dtls jg1 0 = Some 900" "adata_heap jg1 901 = None" "\<not> armed jg1 900"
    using juggle_reachable_ok [OF jg_reach(2)] by (simp_all add: juggle_ok_def jg_defs armed_def)
  from alarm_give_up_ok [OF this(1-3)] obtain J' where "alarm_give_up (Some 901) 900 0 jg1 = Some J'" by blast
  from juggle_give_up_leaks [OF jg_reach(2) _ _ _ this] this show ?thesis by (auto simp: jg_defs armed_def)
qed

section \<open>The scheduler entry with and without alarms\<close>

text \<open>What other vcores do to the scheduler while this one searches.\<close>

definition lift_env :: "(nat \<Rightarrow> pvcq \<Rightarrow> pvcq) \<Rightarrow> nat \<Rightarrow> juggle \<Rightarrow> juggle" where
  "lift_env env k J = J\<lparr>jg_sched := env k (jg_sched J)\<rparr>"

lemma jg_ext_simps [simp]:
  "jg_sched (jg_ext c J) = ext c (jg_sched J)" "adata_heap (jg_ext c J) = adata_heap J"
  "jg_sched (lift_env env k J) = env k (jg_sched J)" "adata_heap (lift_env env k J) = adata_heap J"
  by (simp_all add: jg_ext_def lift_env_def)

lemma alarm_give_up_defined:
  assumes "adata_heap J a \<noteq> None" and "malloc \<noteq> None"
  shows "\<exists>J'. alarm_give_up malloc a me J = Some J' \<and> jg_sched J' = jg_sched J \<and> adata_heap J' a \<noteq> None"
  using assms by (auto simp: alarm_give_up_def set_armed_def adata_at_def new_alarm_data_def init_adata_def)

lemma juggle_sched_loop_eq:
  assumes "adata_heap J a \<noteq> None" and "\<And>k. malloc k \<noteq> None"
  shows "map_option (\<lambda>(t, J). (t, jg_sched J))
      (juggle_sched_loop (lift_env env) malloc rand_r n me a fuel k spin J) =
    pvcq_sched_loop env rand_r n me fuel k spin (jg_sched J)"
  using assms(1)
proof (induction fuel arbitrary: k spin J)
  case 0
  then show ?case by simp
next
  case (Suc fuel)
  show ?case
  proof (cases "pvcq_dequeue rand_r n me (jg_sched J)")
    case None
    then show ?thesis by (simp add: juggle_dequeue_def on_sched_val_def)
  next
    case (Some r)
    obtain u s where r: "r = (u, s)" by (cases r)
    let ?J = "J\<lparr>jg_sched := s\<rparr>"
    let ?g = "can_adjust_vcores s \<and> spin = 0"
    have "adata_heap ?J a \<noteq> None" using Suc.prems by simp
    from alarm_give_up_defined [OF this assms(2) [of k], of me] obtain J1 where
      J1: "alarm_give_up (malloc k) a me ?J = Some J1" "jg_sched J1 = s" "adata_heap J1 a \<noteq> None" by auto
    define J2 where "J2 = (if ?g then jg_ext VcoreYield J1 else ?J)"
    have J2: "adata_heap J2 a \<noteq> None" "jg_sched J2 = (if ?g then ext VcoreYield s else s)"
      using J1 Suc.prems by (simp_all add: J2_def)
    show ?thesis
      using Some r J1(1) J2 Suc.IH [of "lift_env env k (jg_ext CpuRelax (jg_ext HandleEvents J2))" "Suc k"]
      by (cases u; cases "int_dec spin") (auto simp: juggle_dequeue_def on_sched_val_def Let_def J2_def spin_step_def)
  qed
qed

text \<open>
  C33: the preemptive scheduler picks the threads the other one picks. As long as \<open>malloc\<close> succeeds,
  \<open>pth_sched_entry\<close> with alarms and the one without, from the same queues, run the same thread
  after the same search and leave the same scheduler state, or both find nothing.
\<close>

theorem juggle_entry_equiv:
  assumes "reachable juggle_init juggle_step J" and "malloc0 \<noteq> None" and "\<And>k. malloc k \<noteq> None"
  shows "map_option (\<lambda>(t, J). (t, jg_sched J))
      (juggle_pth_sched_entry (lift_env env) malloc0 malloc rand_r n me fuel cur J) =
    pvcq_pth_sched_entry env rand_r n me fuel cur (jg_sched J)"
proof -
  have ok: "alarms_ok J" using juggle_reachable_ok [OF assms(1)] by (simp add: juggle_ok_def)
  have "\<exists>a J1. alarm_get malloc0 me J = Some (a, J1) \<and> jg_sched J1 = jg_sched J \<and> adata_heap J1 a \<noteq> None"
    using assms(2) alarms_okD(1) [OF ok, of me]
    by (auto simp: alarm_get_def new_alarm_data_def init_adata_def adata_at_def set_armed_def split: option.splits)
  then obtain a J1 where g: "alarm_get malloc0 me J = Some (a, J1)" "jg_sched J1 = jg_sched J"
    "adata_heap J1 a \<noteq> None" by blast
  then have "\<exists>J2. alarm_arm a me J1 = Some J2 \<and> jg_sched J2 = jg_sched J \<and> adata_heap J2 a \<noteq> None"
    by (auto simp: alarm_arm_def adata_at_def set_armed_def)
  then obtain J2 where r: "alarm_arm a me J1 = Some J2" "jg_sched J2 = jg_sched J" "adata_heap J2 a \<noteq> None"
    by blast
  note loop = juggle_sched_loop_eq [where malloc = malloc and env = env and rand_r = rand_r and n = n and me = me
      and fuel = fuel and k = 0 and spin = "max_spin_count (jg_sched J)", OF r(3) assms(3), unfolded r(2)]
  show ?thesis
  proof (cases cur)
    case (Some t)
    then show ?thesis using g r by (simp add: juggle_pth_sched_entry_def pvcq_pth_sched_entry_def)
  next
    case None
    show ?thesis
    proof (cases "juggle_sched_loop (lift_env env) malloc rand_r n me a fuel 0 (max_spin_count (jg_sched J)) J2")
      case None
      with loop have "pvcq_sched_loop env rand_r n me fuel 0 (max_spin_count (jg_sched J)) (jg_sched J) = None"
        by simp
      then show ?thesis using g r None \<open>cur = None\<close>
        by (simp add: juggle_pth_sched_entry_def pvcq_pth_sched_entry_def)
    next
      case (Some x)
      obtain t K where x: "x = (t, K)" by (cases x)
      with loop Some have "pvcq_sched_loop env rand_r n me fuel 0 (max_spin_count (jg_sched J)) (jg_sched J) =
          Some (t, jg_sched K)" by simp
      then show ?thesis using g r Some x \<open>cur = None\<close>
        by (cases "set_state t UPTH_RUNNING (jg_sched K)")
          (simp_all add: juggle_pth_sched_entry_def pvcq_pth_sched_entry_def on_sched_def)
    qed
  qed
qed

theorem juggle_entry_equiv_witness:
  "map_option (\<lambda>(t, J). (t, jg_sched J))
     (juggle_pth_sched_entry (lift_env (\<lambda>_ s. s)) (Some 902) (\<lambda>_. Some 903) (pl_rand_r demo_platform) 2 0 3
        (Some 1052480) jg2) = Some (1052480, ext RunCurrentUthread pv0)"
proof -
  have "pvcq_pth_sched_entry (\<lambda>_ s. s) (pl_rand_r demo_platform) 2 0 3 (Some 1052480) (jg_sched jg2) =
      Some (1052480, ext RunCurrentUthread pv0)" by (simp add: pvcq_pth_sched_entry_def jg_defs)
  with juggle_entry_equiv [OF jg_reach(3), of "Some 902" "\<lambda>_. Some 903"] show ?thesis by simp
qed

end
