(* ===== verification/Programs.thy ===== *)
theory Programs
  imports Juggle_Life Semaphore_Gq
begin

text \<open>
  Programs that use several synchronisation objects at once, on the two schedulers with a queue for
  each vcore: the promises of the objects hold together, with stealing, and with preemption
  by alarms.
\<close>

section \<open>The objects on each scheduler\<close>

interpretation pvcq_mon: sync_object pvcq_ok pvcq_running pvcq_blocked
    "mon_object pvcq_runtime pvcq_ok pvcq_running pvcq_moves" "mon_inv pvcq_ok pvcq_blocked"
  by (rule pvcq_sched.mon_object_ok)

interpretation juggle_mon: sync_object juggle_ok juggle_running juggle_blocked
    "mon_object juggle_runtime juggle_ok juggle_running juggle_moves" "mon_inv juggle_ok juggle_blocked"
  by (rule juggle_sched.mon_object_ok)

interpretation juggle_mon_bar: sync_pair juggle_ok juggle_running juggle_blocked
    "mon_object juggle_runtime juggle_ok juggle_running juggle_moves" "mon_inv juggle_ok juggle_blocked"
    "bar_object juggle_runtime juggle_ok juggle_running juggle_moves P" "bar_ok juggle_ok juggle_blocked P" for P
  by (rule juggle_sched.mon_bar_ok)

section \<open>A small program\<close>

text \<open>One thread, which locks the mutex; the barrier is for it alone and the semaphore, at address
  64, has one token.\<close>

definition prog_mon :: "'s \<Rightarrow> 's monitor" where
  "prog_mon s = \<lparr>mon_mutex = UPTHREAD_MUTEX_INITIALIZER, mon_cond = UPTHREAD_CONDVAR_INITIALIZER,
     mon_sched = s, mon_pc = (\<lambda>_. Client), mon_waking = {}, mon_held = (\<lambda>_. 0)\<rparr>"

definition prog_bar :: "'s \<Rightarrow> 's barsys" where
  "prog_bar s = \<lparr>br_bar = snd (upthread_barrier_init [0] [0] 1), br_sched = s, br_pc = (\<lambda>_. BIdle),
     br_lock = (\<lambda>_. None), br_lead = None, br_gen = 0, br_arr = (\<lambda>_. 0), br_ret = (\<lambda>_. 0)\<rparr>"

definition prog_sem :: "'s \<Rightarrow> 's semsys" where
  "prog_sem s = \<lparr>sy_mem = [64 \<mapsto> 1, 68 \<mapsto> 0], sy_fx = futexes_init, sy_sched = s,
     sy_pc = (\<lambda>_. SIdle), sy_waking = {}, sy_posts = 0, sy_waits = 0, sy_slow = 0\<rparr>"

definition prog_locked :: "upthread_t \<Rightarrow> 's \<Rightarrow> 's monitor" where
  "prog_locked t s = (prog_mon s)\<lparr>
     mon_mutex := UPTHREAD_MUTEX_INITIALIZER\<lparr>mutex_locked := 1, mutex_owner := Some t\<rparr>,
     mon_held := (\<lambda>_. 0)(t := 1)\<rparr>"

lemma prog_start:
  assumes "sinv s"
  shows "so_start (program rt sinv running moves {t} ins 64 1) ((prog_mon s, prog_bar s), prog_sem s)"
proof -
  have "upthread_mutex_init (Some UPTHREAD_MUTEX_INITIALIZER) None = (0, Some UPTHREAD_MUTEX_INITIALIZER)"
    "upthread_cond_init (Some UPTHREAD_CONDVAR_INITIALIZER) = (0, Some UPTHREAD_CONDVAR_INITIALIZER)"
    by (simp_all add: upthread_mutex_init_def upthread_mutexattr_init_def UPTHREAD_MUTEX_INITIALIZER_def
        upthread_cond_init_def UPTHREAD_CONDVAR_INITIALIZER_def)
  then have 1: "mon_init sinv (prog_mon s)" using assms unfolding mon_init_def prog_mon_def by fastforce
  have "upthread_barrier_init [0] [0] (int (card {t})) = (0, br_bar (prog_bar s))"
    by (simp add: prog_bar_def upthread_barrier_init_def)
  moreover have "length [0 :: upthread_t] = card {t}" by simp
  ultimately have 2: "bar_start sinv {t} (prog_bar s)" using assms unfolding bar_start_def
    by (intro conjI exI [of _ "[0]"]) (simp_all add: prog_bar_def)
  have "upthread_sem_init (Some 64) 0 1 Map.empty = (0, [64 \<mapsto> 1, 68 \<mapsto> 0])"
    by (simp add: upthread_sem_init_def)
  then have 3: "sem_start sinv 64 1 (prog_sem s)" using assms by (auto simp: sem_start_def prog_sem_def)
  show ?thesis using 1 2 3
    by (simp add: program_def mon_object_def bar_object_def sem_object_def)
      (simp add: prog_mon_def prog_bar_def prog_sem_def)
qed

lemma prog_reach:
  assumes "sinv s" and "t \<in> running s"
  shows "so_reachable (program rt sinv running moves {t} ins 64 1) ((prog_locked t s, prog_bar s), prog_sem s)"
proof (rule reach_step)
  show "so_reachable (program rt sinv running moves {t} ins 64 1) ((prog_mon s, prog_bar s), prog_sem s)"
    by (intro reach_init prog_start assms(1))
  have l: "upthread_mutex_lock t (Some (mon_mutex (prog_mon s))) =
      Some (Lock_done 0, Some (UPTHREAD_MUTEX_INITIALIZER\<lparr>mutex_locked := 1, mutex_owner := Some t\<rparr>))"
    by (simp add: prog_mon_def UPTHREAD_MUTEX_INITIALIZER_def upthread_mutex_lock_def
        mutex_recursive_owner_def mutex_lock_loop_def int_inc_def)
  have "mon_step rt running moves (prog_mon s) (prog_locked t s)"
    using m_lock [of t running "prog_mon s", OF _ _ l, of rt moves] assms(2)
    by (simp add: prog_locked_def prog_mon_def fun_upd_idem)
  then have "so_step (mon_object rt sinv running moves) (prog_mon s) (prog_locked t s)"
    by (simp add: mon_object_def)
  note 1 = pair_left [OF this, of "bar_object rt sinv running moves {t}" "prog_bar s"]
  have "so_put (bar_object rt sinv running moves {t})
      (so_sched (mon_object rt sinv running moves) (prog_locked t s)) (prog_bar s) = prog_bar s"
    by (simp add: bar_object_def mon_object_def prog_locked_def prog_mon_def prog_bar_def)
  with 1 have "so_step (pair_object (mon_object rt sinv running moves) (bar_object rt sinv running moves {t}))
      (prog_mon s, prog_bar s) (prog_locked t s, prog_bar s)" by simp
  note 2 = pair_left [OF this, of "sem_object rt sinv running moves ins 64 1" "prog_sem s"]
  have "so_put (sem_object rt sinv running moves ins 64 1)
      (so_sched (mon_object rt sinv running moves) (prog_locked t s)) (prog_sem s) = prog_sem s"
    by (simp add: sem_object_def mon_object_def prog_locked_def prog_mon_def prog_sem_def)
  with 2 show "so_step (program rt sinv running moves {t} ins 64 1)
      ((prog_mon s, prog_bar s), prog_sem s) ((prog_locked t s, prog_bar s), prog_sem s)"
    by (simp add: program_def)
qed

section \<open>Properties\<close>

text \<open>
  C11: synchronisation is correct on the scheduler with stealing. In a program whose threads use
  a mutex with its condition variable, a barrier and a semaphore in any order, at most one
  thread holds the mutex; nobody passes the barrier before all have arrived as often; the semaphore
  has handed out no more than it was given; and no sleeper of any of them is forgotten, while
  threads sleep on one object and are woken by others' steps on another.
\<close>

theorem pvcq_program_correct:
  assumes "so_reachable (program pvcq_runtime pvcq_ok pvcq_running pvcq_moves P ins sem n) ((M, B), S)"
    and "wfl_adds ins" and "n + int (sy_posts S) \<le> INT_MAX" and "int (sy_slow S) \<le> INT_MAX"
  shows "(\<forall>t u. 0 < mon_held M t \<and> 0 < mon_held M u \<longrightarrow> t = u \<and> mutex_owner (mon_mutex M) = Some t) \<and>
    (\<forall>t \<in> P. \<forall>u \<in> P. br_ret B t \<le> br_arr B u) \<and>
    int (sy_waits S) \<le> n + int (sy_posts S) \<and>
    (\<forall>t. mutex_locked (mon_mutex M) = 0 \<and> mon_pc M t = Lock_waiting \<longrightarrow> (\<exists>w. mon_pc M w = Lock_retry)) \<and>
    (\<forall>t w k m. br_pc B t = BAsleep w k m \<longrightarrow>
       (\<exists>u \<in> P. br_arr B u < br_arr B t) \<or> (\<exists>l \<in> P. is_opening (br_pc B l))) \<and>
    (\<forall>t v. sy_pc S t = SAsleep \<and> sy_mem S sem = Some v \<longrightarrow> v \<le> int (card {u. sem_active (sy_pc S u)}))"
proof -
  have b: "sem_bounded n S" using assms(3,4) by (simp add: sem_bounded_def)
  note s = pvcq_sched.program_safe [OF assms(1,2)] and l = pvcq_sched.program_live [OF assms(1,2)]
  show ?thesis
  proof (intro conjI allI ballI impI; (elim conjE)?)
    show "t = u" "mutex_owner (mon_mutex M) = Some t" if "0 < mon_held M t" "0 < mon_held M u" for t u
      using s(1) [OF that] by simp_all
    show "int (sy_waits S) \<le> n + int (sy_posts S)" using s(3) [OF b] by simp
    show "(\<exists>u \<in> P. br_arr B u < br_arr B t) \<or> (\<exists>l \<in> P. is_opening (br_pc B l))"
      if "br_pc B t = BAsleep w k m" for t w k m by (rule l(2) [OF that])
  qed (auto intro: s(2) l(1) l(3) [OF b])
qed

theorem pvcq_program_correct_witness:
  "mutex_owner (mon_mutex (prog_locked 1052480 pv1)) = Some 1052480"
proof -
  have "pvcq_ok pv1" by (rule pvcq_reachable_ok [OF pv1_reachable])
  moreover have "1052480 \<in> pvcq_running pv1"
    using pv1(2,3) by (auto simp: pvcq_running_def state_of_def pvcq_live_tcbs)
  ultimately have r: "so_reachable (program pvcq_runtime pvcq_ok pvcq_running pvcq_moves {1052480} demo_ins 64 1)
      ((prog_locked 1052480 pv1, prog_bar pv1), prog_sem pv1)" by (rule prog_reach)
  have "0 < mon_held (prog_locked 1052480 pv1) 1052480" by (simp add: prog_locked_def)
  with pvcq_program_correct [OF r wfl_adds_Cons] show ?thesis by (simp add: prog_sem_def)
qed

text \<open>
  C10: the same under preemption. On the scheduler with time slices, where an alarm may take the vcore
  from a thread between any two accesses to memory, the objects keep the same promises; and a
  thread sleeps for at most one of them, and is then blocked in the scheduler.
\<close>

theorem juggle_program_correct:
  assumes "so_reachable (program juggle_runtime juggle_ok juggle_running juggle_moves P ins sem n) ((M, B), S)"
    and "wfl_adds ins" and "n + int (sy_posts S) \<le> INT_MAX" and "int (sy_slow S) \<le> INT_MAX"
  shows "(\<forall>t u. 0 < mon_held M t \<and> 0 < mon_held M u \<longrightarrow> t = u \<and> mutex_owner (mon_mutex M) = Some t) \<and>
    (\<forall>t \<in> P. \<forall>u \<in> P. br_ret B t \<le> br_arr B u) \<and>
    int (sy_waits S) \<le> n + int (sy_posts S) \<and>
    (\<forall>t. mutex_locked (mon_mutex M) = 0 \<and> mon_pc M t = Lock_waiting \<longrightarrow> (\<exists>w. mon_pc M w = Lock_retry)) \<and>
    asleep M \<inter> (sleepers False B \<union> sleepers True B) = {} \<and>
    (asleep M \<union> (sleepers False B \<union> sleepers True B)) \<inter> sem_asleep S = {} \<and>
    asleep M \<union> (sleepers False B \<union> sleepers True B) \<union> sem_asleep S \<subseteq> juggle_blocked (mon_sched M)"
proof -
  have b: "sem_bounded n S" using assms(3,4) by (simp add: sem_bounded_def)
  note s = juggle_sched.program_safe [OF assms(1,2)] and l = juggle_sched.program_live(1) [OF assms(1,2)]
  show ?thesis
  proof (intro conjI allI ballI impI; (elim conjE)?)
    show "t = u" "mutex_owner (mon_mutex M) = Some t" if "0 < mon_held M t" "0 < mon_held M u" for t u
      using s(1) [OF that] by simp_all
    show "int (sy_waits S) \<le> n + int (sy_posts S)" using s(3) [OF b] by simp
  qed (use juggle_sched.program_inv(4,5) [OF assms(1,2)] juggle_sched.program_sleepers [OF assms(1,2)]
    in \<open>blast intro: s(2) l\<close>)+
qed

theorem juggle_program_correct_witness:
  "mutex_owner (mon_mutex (prog_locked 1052480 jg2)) = Some 1052480"
proof -
  have "juggle_ok jg2" by (rule juggle_reachable_ok [OF jg_reach(3)])
  moreover have "1052480 \<in> juggle_running jg2"
    using pv0_running by (simp add: juggle_running_def jg_defs)
  ultimately have r: "so_reachable (program juggle_runtime juggle_ok juggle_running juggle_moves {1052480} demo_ins 64 1)
      ((prog_locked 1052480 jg2, prog_bar jg2), prog_sem jg2)" by (rule prog_reach)
  have "0 < mon_held (prog_locked 1052480 jg2) 1052480" by (simp add: prog_locked_def)
  with juggle_program_correct [OF r wfl_adds_Cons] show ?thesis by (simp add: prog_sem_def)
qed

end
