(* ===== verification/Lithe_Threads.thy ===== *)
theory Lithe_Threads
  imports Pvcq_Ops
begin

text \<open>
  The variant on top of Lithe, \<^verbatim>\<open>src/lithe/upthread.c\<close>: threads are Lithe contexts and Lithe's
  fork-join scheduler runs them. Lithe is not part of the repository: the calls to it are recorded,
  in order, and its random number and number of vcores are arguments. What is left is the
  pool of contexts, their creation, and the join protocol.
\<close>

section \<open>State\<close>

text \<open>\<open>struct upthread_lithe_context\<close>, with the fields of the embedded context that the code uses.\<close>

record lithe_context =
  lc_stack_offset :: int
  lc_stack_bottom :: addr
  lc_stack_size :: "64 word"
  lc_detached :: bool
  lc_joiner :: "upthread_t option"
  lc_start_routine :: addr
  lc_arg :: addr
  lc_retval :: addr

datatype lithe_call =
    LitheLibInit
  | SchedEnter upthread_t
  | HartRequest int
  | ContextInit upthread_t
  | ContextCleanup upthread_t
  | ContextUnblock upthread_t
  | LitheDestroyDtls
  | LitheMunmap addr "64 word"
  | LithePrintf string

record lithe_up =
  ctxs :: "upthread_t \<Rightarrow> lithe_context option"
  context_zombie_list :: "upthread_t list"
  lithe_calls :: "lithe_call list"

definition lext :: "lithe_call \<Rightarrow> lithe_up \<Rightarrow> lithe_up" where
  "lext c s = s\<lparr>lithe_calls := lithe_calls s @ [c]\<rparr>"

definition ctx_upd :: "upthread_t \<Rightarrow> (lithe_context \<Rightarrow> lithe_context) \<Rightarrow> lithe_up \<Rightarrow> lithe_up option" where
  "ctx_upd t f s = map_option (\<lambda>c. s\<lparr>ctxs := (ctxs s)(t \<mapsto> f c)\<rparr>) (ctxs s t)"

definition lithe_context_zero :: lithe_context where
  "lithe_context_zero = \<lparr>lc_stack_offset = 0, lc_stack_bottom = 0, lc_stack_size = 0, lc_detached = False,
     lc_joiner = None, lc_start_routine = 0, lc_arg = 0, lc_retval = 0\<rparr>"

section \<open>The pool of contexts\<close>

text \<open>\<open>r\<close> is the random number, \<open>n\<close> is \<open>max_vcores()\<close>; new memory is zero.\<close>

definition ctx_alloc ::
  "platform \<Rightarrow> (64 word \<Rightarrow> addr option) \<Rightarrow> int \<Rightarrow> int \<Rightarrow> 64 word \<Rightarrow> lithe_up \<Rightarrow>
   (upthread_t \<times> lithe_up) option" where
  "ctx_alloc pl mmap r n stacksize s =
     (case pl_wfl_remove pl (context_zombie_list s) of
        Some (ctx, zombies) \<Rightarrow> Some (ctx, s\<lparr>context_zombie_list := zombies\<rparr>)
      | None \<Rightarrow>
          if n = 0 then None
          else do {
            let offset = pl_roundup pl (pl_tcbsize pl) (pl_clsize pl) +
                         word_of_int (r smod n) * pl_clsize pl;
            let stacksize = pl_roundup pl (stacksize + offset) (pl_pgsize pl);
            stackbot \<leftarrow> mmap stacksize;
            let ctx = stackbot + stacksize - offset;
            let c = lithe_context_zero\<lparr>lc_stack_offset := uint offset, lc_stack_bottom := stackbot,
                      lc_stack_size := stacksize - offset\<rparr>;
            Some (ctx, s\<lparr>ctxs := (ctxs s)(ctx \<mapsto> c)\<rparr>)
          })"

text \<open>The size of the mapping passes through an \<open>int\<close>.\<close>

definition ctx_free :: "platform \<Rightarrow> upthread_t \<Rightarrow> lithe_up \<Rightarrow> lithe_up option" where
  "ctx_free pl t s =
     (if length (context_zombie_list s) < 1000
      then Some (s\<lparr>context_zombie_list := pl_wfl_insert pl (context_zombie_list s) t\<rparr>)
      else do {
        c \<leftarrow> ctxs s t;
        let stacksize = (ucast (lc_stack_size c + word_of_int (lc_stack_offset c)) :: 32 word);
        Some (lext (LitheMunmap (lc_stack_bottom c) (scast stacksize)) (s\<lparr>ctxs := (ctxs s)(t := None)\<rparr>))
      })"

section \<open>Interface\<close>

definition lithe_upthread_getattr_np :: "upthread_t \<Rightarrow> lithe_up \<Rightarrow> (int \<times> upthread_attr_t) option" where
  "lithe_upthread_getattr_np th s = map_option (\<lambda>c.
     (0, \<lparr>attr_stackaddr = lc_stack_bottom c, attr_stacksize = lc_stack_size c,
          attr_detachstate = (if lc_detached c then UPTHREAD_CREATE_DETACHED else UPTHREAD_CREATE_JOINABLE)\<rparr>))
     (ctxs s th)"

text \<open>\<open>parlib_aligned_alloc\<close> gives the memory of the scheduler and of the main context at \<open>t\<close>, whose
  contents Lithe initialises to \<open>c\<close>.\<close>

definition lithe_upthread_lib_init :: "upthread_t \<Rightarrow> lithe_context \<Rightarrow> lithe_up" where
  "lithe_upthread_lib_init t c =
     (let s = lext LitheLibInit \<lparr>ctxs = Map.empty, context_zombie_list = [], lithe_calls = []\<rparr>;
          s = s\<lparr>ctxs := [t \<mapsto> c\<lparr>lc_detached := True, lc_joiner := None\<rparr>]\<rparr>
      in lext (SchedEnter t) s)"

definition lithe_upthread_create ::
  "platform \<Rightarrow> (64 word \<Rightarrow> addr option) \<Rightarrow> int \<Rightarrow> int \<Rightarrow> upthread_attr_t option \<Rightarrow> addr \<Rightarrow> addr \<Rightarrow>
   lithe_up \<Rightarrow> (int \<times> upthread_t \<times> lithe_up) option" where
  "lithe_upthread_create pl mmap r n attr start_routine arg s = do {
     let stacksize = (case attr of
                        None \<Rightarrow> UPTHREAD_STACK_SIZE (pl_pgsize pl)
                      | Some a \<Rightarrow> if attr_stacksize a \<noteq> 0 then attr_stacksize a
                                  else UPTHREAD_STACK_SIZE (pl_pgsize pl));
     (t, s) \<leftarrow> ctx_alloc pl mmap r n stacksize s;
     s \<leftarrow> ctx_upd t (\<lambda>c. c\<lparr>lc_detached := False, lc_joiner := None\<rparr>) s;
     s \<leftarrow> ctx_upd t (\<lambda>c. c\<lparr>lc_detached :=
            (case attr of
               None \<Rightarrow> lc_detached c
             | Some a \<Rightarrow> if attr_detachstate a = UPTHREAD_CREATE_DETACHED then True else lc_detached c)\<rparr>) s;
     s \<leftarrow> ctx_upd t (\<lambda>c. c\<lparr>lc_start_routine := start_routine, lc_arg := arg\<rparr>) s;
     Some (0, t, lext (ContextInit t) s)
   }"

section \<open>Join, exit, detach\<close>

definition lithe_upthread_join :: "upthread_t \<Rightarrow> lithe_up \<Rightarrow> (pvcq_join_start \<times> lithe_up) option" where
  "lithe_upthread_join join_target s = do {
     c \<leftarrow> ctxs s join_target;
     Some (if lc_detached c
           then (Pvcq_join_refused (-1),
                 lext (LithePrintf ''[upthread] trying to join on a detached upthread'') s)
           else if lc_joiner c = None then (Pvcq_join_block, s)
           else (Pvcq_join_ready, s))
   }"

text \<open>The callback of \<open>lithe_context_block\<close>.\<close>

definition lithe_pth_join_cb :: "upthread_t \<Rightarrow> upthread_t \<Rightarrow> lithe_up \<Rightarrow> lithe_up option" where
  "lithe_pth_join_cb t join_target s = do {
     c \<leftarrow> ctxs s join_target;
     s \<leftarrow> ctx_upd join_target (\<lambda>c. c\<lparr>lc_joiner := Some t\<rparr>) s;
     Some (case lc_joiner c of None \<Rightarrow> s | Some _ \<Rightarrow> lext (ContextUnblock t) s)
   }"

definition lithe_join_finish :: "platform \<Rightarrow> upthread_t \<Rightarrow> lithe_up \<Rightarrow> (int \<times> addr \<times> lithe_up) option" where
  "lithe_join_finish pl join_target s = do {
     c \<leftarrow> ctxs s join_target;
     s \<leftarrow> ctx_free pl join_target s;
     Some (0, lc_retval c, s)
   }"

definition lithe_context_exit :: "platform \<Rightarrow> upthread_t \<Rightarrow> lithe_up \<Rightarrow> lithe_up option" where
  "lithe_context_exit pl t s = do {
     let s = lext (ContextCleanup t) (lext (HartRequest (-1)) s);
     c \<leftarrow> ctxs s t;
     if lc_detached c then ctx_free pl t s
     else do {
       s \<leftarrow> ctx_upd t (\<lambda>c. c\<lparr>lc_joiner := Some t\<rparr>) s;
       Some (case lc_joiner c of None \<Rightarrow> s | Some w \<Rightarrow> lext (ContextUnblock w) s)
     }
   }"

definition lithe_upthread_exit :: "addr \<Rightarrow> upthread_t \<Rightarrow> lithe_up \<Rightarrow> lithe_up option" where
  "lithe_upthread_exit ret t s = do {
     s \<leftarrow> ctx_upd t (\<lambda>c. c\<lparr>lc_retval := ret\<rparr>) s;
     Some (lext LitheDestroyDtls s)
   }"

text \<open>\<open>lithe_context_yield\<close>, then the result.\<close>

definition lithe_upthread_yield :: "int outcome" where
  "lithe_upthread_yield = Yield_then 1"

definition lithe_upthread_detach :: "upthread_t \<Rightarrow> lithe_up \<Rightarrow> (int \<times> lithe_up) option" where
  "lithe_upthread_detach t s = do {
     s \<leftarrow> ctx_upd t (\<lambda>c. c\<lparr>lc_detached := True\<rparr>) s;
     Some (0, s)
   }"

end
