(* ===== verification/Variants.thy ===== *)
theory Variants
  imports Gq_Threads Juggle_Sched Lithe_Threads
begin

text \<open>
  What every variant has a copy of: where a thread begins, and what \<open>upthread_getattr_np\<close> reports;
  the boot of the Lithe variant, \<open>upthread_lithe_sched_alloc\<close> and its table of callbacks; and the
  lemmas that relate the copies.
\<close>

section \<open>Where a thread begins\<close>

definition pvcq_upthread_run ::
  "(addr \<Rightarrow> addr \<Rightarrow> pvcq \<Rightarrow> (addr \<times> pvcq) option) \<Rightarrow> upthread_t \<Rightarrow> pvcq \<Rightarrow> pvcq option" where
  "pvcq_upthread_run call me s = do {
     p \<leftarrow> tcbs s me;
     (ret, s) \<leftarrow> call (tcb_start_routine p) (tcb_arg p) s;
     pvcq_upthread_exit ret me s
   }"

definition juggle_upthread_run ::
  "(addr \<Rightarrow> addr \<Rightarrow> juggle \<Rightarrow> (addr \<times> juggle) option) \<Rightarrow> upthread_t \<Rightarrow> juggle \<Rightarrow> juggle option" where
  "juggle_upthread_run call me J = do {
     p \<leftarrow> tcbs (jg_sched J) me;
     (ret, J) \<leftarrow> call (tcb_start_routine p) (tcb_arg p) J;
     juggle_upthread_exit ret me J
   }"

text \<open>\<open>__uthread_run\<close> is local to \<open>upthread_create\<close> there.\<close>

definition lithe_upthread_run ::
  "(addr \<Rightarrow> addr \<Rightarrow> lithe_up \<Rightarrow> (addr \<times> lithe_up) option) \<Rightarrow> upthread_t \<Rightarrow> lithe_up \<Rightarrow> lithe_up option" where
  "lithe_upthread_run call me s = do {
     c \<leftarrow> ctxs s me;
     (ret, s) \<leftarrow> call (lc_start_routine c) (lc_arg c) s;
     lithe_upthread_exit ret me s
   }"

section \<open>Attributes of a running thread\<close>

definition pvcq_upthread_getattr_np :: "upthread_t \<Rightarrow> pvcq \<Rightarrow> (int \<times> upthread_attr_t) option" where
  "pvcq_upthread_getattr_np th s = map_option (\<lambda>p.
     (0, \<lparr>attr_stackaddr = tcb_stacktop p - ucast (tcb_stacksize p),
          attr_stacksize = ucast (tcb_stacksize p),
          attr_detachstate =
            (if tcb_detached p then UPTHREAD_CREATE_DETACHED else UPTHREAD_CREATE_JOINABLE)\<rparr>)) (tcbs s th)"

definition juggle_upthread_getattr_np :: "upthread_t \<Rightarrow> juggle \<Rightarrow> (int \<times> upthread_attr_t) option" where
  "juggle_upthread_getattr_np th J = map_option (\<lambda>p.
     (0, \<lparr>attr_stackaddr = tcb_stacktop p - ucast (tcb_stacksize p),
          attr_stacksize = ucast (tcb_stacksize p),
          attr_detachstate =
            (if tcb_detached p then UPTHREAD_CREATE_DETACHED else UPTHREAD_CREATE_JOINABLE)\<rparr>))
     (tcbs (jg_sched J) th)"

lemma getattr_variants:
  "pvcq_upthread_getattr_np th s = map_option upthread_getattr_np (tcbs s th)"
  "juggle_upthread_getattr_np th J = pvcq_upthread_getattr_np th (jg_sched J)"
  by (cases "tcbs s th"; simp add: pvcq_upthread_getattr_np_def upthread_getattr_np_def)
    (simp add: pvcq_upthread_getattr_np_def juggle_upthread_getattr_np_def)

text \<open>What a call does to the scheduler it does to the one that \<open>juggle\<close> is built around.\<close>

lemma juggle_run_on_sched:
  "juggle_upthread_run (\<lambda>f a. on_sched_val (call f a)) me = on_sched (pvcq_upthread_run call me)"
  by (auto simp: juggle_upthread_run_def pvcq_upthread_run_def juggle_upthread_exit_def on_sched_def
      on_sched_val_def fun_eq_iff split: Option.bind_splits prod.splits option.splits)

text \<open>The identifier that Lithe gave the context, which is not a field of this variant's own.\<close>

definition lithe_upthread_tid :: "(upthread_t \<Rightarrow> int) \<Rightarrow> upthread_t \<Rightarrow> int" where
  "lithe_upthread_tid lithe_id current_uthread = lithe_id current_uthread"

section \<open>The scheduler of the Lithe variant\<close>

text \<open>
  The table of callbacks, over any type of functions: all but one are those of Lithe's
  fork-join scheduler, which come in the table \<open>fjs\<close>.
\<close>

record 'f lithe_sched_funcs =
  lf_hart_request :: 'f
  lf_hart_enter :: 'f
  lf_hart_return :: 'f
  lf_sched_enter :: 'f
  lf_sched_exit :: 'f
  lf_child_enter :: 'f
  lf_child_exit :: 'f
  lf_context_block :: 'f
  lf_context_unblock :: 'f
  lf_context_yield :: 'f
  lf_context_exit :: 'f

definition upthread_lithe_sched_funcs :: "'f lithe_sched_funcs \<Rightarrow> 'f \<Rightarrow> 'f lithe_sched_funcs" where
  "upthread_lithe_sched_funcs fjs context_exit =
     \<lparr>lf_hart_request = lf_hart_request fjs,
      lf_hart_enter = lf_hart_enter fjs,
      lf_hart_return = lf_hart_return fjs,
      lf_sched_enter = lf_sched_enter fjs,
      lf_sched_exit = lf_sched_exit fjs,
      lf_child_enter = lf_child_enter fjs,
      lf_child_exit = lf_child_exit fjs,
      lf_context_block = lf_context_block fjs,
      lf_context_unblock = lf_context_unblock fjs,
      lf_context_yield = lf_context_yield fjs,
      lf_context_exit = context_exit\<rparr>"

text \<open>
  One allocation holds the scheduler, the main context and Lithe's array of vcores. The sizes
  and offsets of \<open>struct sched_data\<close> are the compiler's.
\<close>

record sched_layout =
  sl_sizeof :: "64 word"
  sl_main_context :: "64 word"
  sl_vc_mgmt :: "64 word"
  sl_sizeof_vc :: "64 word"

record 'f lithe_sched =
  ls_vc_mgmt :: addr
  ls_funcs :: "'f lithe_sched_funcs"
  ls_main_context :: upthread_t

text \<open>\<open>aligned_alloc\<close> is \<open>parlib_aligned_alloc\<close>; what \<open>lithe_fork_join_sched_init\<close> is given is in the
  result.\<close>

definition upthread_lithe_sched_alloc ::
  "(64 word \<Rightarrow> 64 word \<Rightarrow> addr option) \<Rightarrow> sched_layout \<Rightarrow> 64 word \<Rightarrow> int \<Rightarrow> 'f lithe_sched_funcs \<Rightarrow> 'f \<Rightarrow>
   (addr \<times> 'f lithe_sched) option" where
  "upthread_lithe_sched_alloc aligned_alloc sl pgsize n fjs context_exit = do {
     s \<leftarrow> aligned_alloc pgsize (sl_sizeof sl + sl_sizeof_vc sl * word_of_int n);
     Some (s, \<lparr>ls_vc_mgmt = s + sl_vc_mgmt sl,
               ls_funcs = upthread_lithe_sched_funcs fjs context_exit,
               ls_main_context = s + sl_main_context sl\<rparr>)
   }"

text \<open>\<open>init_once_racy\<close> and nothing else.\<close>

definition lithe_upthread_lib_destroy :: "lithe_up \<Rightarrow> lithe_up" where
  "lithe_upthread_lib_destroy s = s"

text \<open>A product of sizes that does not wrap around.\<close>

lemma unat_size_sum:
  assumes "unat (a :: 64 word) + unat (b :: 64 word) * nat n < 2 ^ 64" and "0 \<le> n"
  shows "unat (a + b * word_of_int n) = unat a + unat b * nat n"
proof (cases "b = 0")
  case False
  then have "1 \<le> unat b" by (simp add: Suc_le_eq unat_gt_0)
  then have "1 * nat n \<le> unat b * nat n" by (intro mult_right_mono) simp_all
  then have "nat n < 2 ^ 64" using assms(1) by linarith
  then have n: "unat (word_of_int n :: 64 word) = nat n"
    using assms(2) by (simp add: unat_of_nat flip: of_nat_nat)
  from assms(1) have "unat (b * word_of_int n) = unat b * nat n"
    by (simp add: unat_word_ariths n)
  with assms(1) show ?thesis by (simp add: unat_word_ariths)
qed simp

text \<open>The entries of the array that \<open>vc_mgmt\<close> points to are inside the allocation.\<close>

lemma sched_alloc_fits:
  assumes "upthread_lithe_sched_alloc aligned_alloc sl pgsize n fjs ce = Some (s, L)"
    and "sl_vc_mgmt sl \<le> sl_sizeof sl" and "0 \<le> i" and "i < n"
    and "unat (sl_sizeof sl) + unat (sl_sizeof_vc sl) * nat n < 2 ^ 64"
  shows "unat (ls_vc_mgmt L - s) + unat (sl_sizeof_vc sl) * (nat i + 1) \<le>
           unat (sl_sizeof sl + sl_sizeof_vc sl * word_of_int n)"
proof -
  have "ls_vc_mgmt L - s = sl_vc_mgmt sl"
    using assms(1) by (auto simp: upthread_lithe_sched_alloc_def bind_Some_conv)
  moreover have "unat (sl_sizeof_vc sl) * (nat i + 1) \<le> unat (sl_sizeof_vc sl) * nat n"
    using assms(3,4) by (intro mult_left_mono) auto
  moreover have "unat (sl_vc_mgmt sl) \<le> unat (sl_sizeof sl)" using assms(2) by (simp add: word_le_nat_alt)
  ultimately show ?thesis using unat_size_sum [OF assms(5)] assms(3,4) by simp
qed

text \<open>Only the end of a context is the variant's own.\<close>

lemma sched_alloc_funcs:
  assumes "upthread_lithe_sched_alloc aligned_alloc sl pgsize n fjs ce = Some (s, L)"
  shows "ls_funcs L = fjs\<lparr>lf_context_exit := ce\<rparr>"
  using assms by (cases fjs) (auto simp: upthread_lithe_sched_alloc_def upthread_lithe_sched_funcs_def bind_Some_conv)

end
