(* ===== verification/Pvcq_Run.thy ===== *)
theory Pvcq_Run
  imports Lifecycle_Pvcq Variants
begin

text \<open>
  What becomes of a thread of the per-vcore-queue scheduler, from \<open>upthread_create\<close> to the return of
  \<open>upthread_join\<close>, as \<^verbatim>\<open>Gq_Run\<close> has it for the other scheduler. Here the block may come from the pool
  and goes back to it, and a thread may be detached after it was created.
\<close>

section \<open>As long as the block is not given back\<close>

abbreviation pvcq_alive :: "upthread_t \<Rightarrow> pvcq \<Rightarrow> pvcq \<Rightarrow> bool" where
  "pvcq_alive \<equiv> alive_step pvcq_step pvcq_abs"

lemma pvcq_alive_kept:
  assumes "(pvcq_alive t)\<^sup>*\<^sup>* s s'" and "reachable pvcq_init pvcq_step s" and "tcbs (pvcq_live s) t = Some p"
  obtains p' where "reachable pvcq_init pvcq_step s'" "pvcq_ok s'" "tcbs (pvcq_live s') t = Some p'"
    "tcb_start_routine p' = tcb_start_routine p" "tcb_arg p' = tcb_arg p"
    "tcb_state p = UPTH_EXITING \<Longrightarrow> tcb_state p' = UPTH_EXITING \<and> tcb_retval p' = tcb_retval p"
proof -
  have "snd (pvcq_abs s) t = Some (tcb_view p)" using views_Some [OF assms(3)] by (simp add: pvcq_abs_def)
  from pvcq_refines.alive_kept [OF assms(1,2) this] obtain v where
    v: "reachable pvcq_init pvcq_step s'" "views (pvcq_live s') t = Some v" "view_kept True (tcb_view p) v"
    by (auto simp: pvcq_abs_def)
  then obtain p' where p': "tcbs (pvcq_live s') t = Some p'" "v = tcb_view p'" by (auto simp: views_def)
  have k: "tcb_start_routine p' = tcb_start_routine p" "tcb_arg p' = tcb_arg p"
    using v(3) p'(2) by (auto simp: view_kept_def)
  have e: "tcb_state p' = UPTH_EXITING \<and> tcb_retval p' = tcb_retval p" if "tcb_state p = UPTH_EXITING"
    using v(3) p'(2) that by (simp add: view_kept_def tcb_view_def split: if_splits)
  show thesis by (rule that [OF v(1) pvcq_reachable_ok [OF v(1)] p'(1) k e])
qed

section \<open>The property\<close>

text \<open>
  C31: a joinable thread runs what it was created to run, and its result reaches whoever joins it,
  whichever vcore steals the thread meanwhile. After \<open>upthread_create\<close> with a function and an argument,
  the thread when it is first dispatched calls that function on that argument; when the function has
  returned \<open>v\<close> and nobody has detached the thread, it exits and queues the thread that waits for it;
  and from then on, for as long as nobody has freed the block, the second half of \<open>upthread_join\<close>
  returns 0 and \<open>v\<close> and frees it, to the pool unless that is full.
\<close>

theorem pvcq_join_returns_result:
  assumes "reachable pvcq_init pvcq_step s0" and "platform_ok pl"
    and "tcbs s0 t = None \<or> t \<in> set (zombie_list s0)"
    and "pvcq_upthread_create pvcq_pth_thread_runnable pl mmap attr start arg s0 = Some (r, t, s1)"
    and "(pvcq_alive t)\<^sup>*\<^sup>* s1 s2" and "call start arg s2 = Some (v, s3)"
    and "(pvcq_alive t)\<^sup>*\<^sup>* s2 s3" and "t \<in> pvcq_running s3" and "t \<notin> detached_threads s3"
  shows "\<exists>s4 s5. pvcq_upthread_run call t s2 = Some s4 \<and>
           pvcq_pth_exit_cb pvcq_pth_thread_runnable pl t s4 = Some s5 \<and>
           (\<forall>w. joiner_of s3 t = Some w \<longrightarrow> w \<in> set (pvcq_queued s5)) \<and>
           (\<forall>s6. (pvcq_alive t)\<^sup>*\<^sup>* s5 s6 \<longrightarrow> (\<exists>s7. pvcq_join_finish pl t s6 = Some (0, v, s7) \<and>
              tcbs (pvcq_live s7) t = None \<and> (length (zombie_list s6) < 1000 \<longrightarrow> t \<in> set (zombie_list s7))))"
proof -
  have inv0: "pvcq_inv {} s0" using pvcq_reachable_ok [OF assms(1)] by (simp add: pvcq_ok_def)
  from pvcq_create_inv [OF assms(2) inv0 assms(3,4)] obtain p where
    p: "tcbs (pvcq_live s1) t = Some p" "tcb_start_routine p = start" "tcb_arg p = arg" by fastforce
  have "pvcq_step s0 s1" by (rule ss_move, rule pv_creates [OF assms(2-4)])
  then have r1: "reachable pvcq_init pvcq_step s1" by (rule reach_step [OF assms(1)])
  obtain p2 where r2: "reachable pvcq_init pvcq_step s2" and p2: "tcbs (pvcq_live s2) t = Some p2"
    "tcb_start_routine p2 = start" "tcb_arg p2 = arg" by (rule pvcq_alive_kept [OF assms(5) r1 p(1)]) (simp add: p)
  obtain p3 where r3: "reachable pvcq_init pvcq_step s3" and ok3: "pvcq_ok s3"
    and p3: "tcbs (pvcq_live s3) t = Some p3" by (rule pvcq_alive_kept [OF assms(7) r2 p2(1)])
  let ?p = "p3\<lparr>tcb_retval := v\<rparr>"
  have inv3: "pvcq_inv {} s3" using ok3 by (simp add: pvcq_ok_def)
  from pvcq_upthread_exit_inv [OF inv3 p3, of v] obtain s4 where s4: "pvcq_upthread_exit v t s3 = Some s4"
    "pvcq_inv {} s4" "tcbs (pvcq_live s4) = (tcbs (pvcq_live s3))(t \<mapsto> ?p)" by blast
  have run3: "tcb_state p3 = UPTH_RUNNING" using assms(8) p3 by (auto elim: pvcq_runningE)
  have ok4: "pvcq_ok s4" using pvcq_ok_neutral [OF ok3 p3 s4(2,3)] run3 by simp
  have raw: "tcbs s2 t = Some p2" "tcbs s3 t = Some p3" using p2(1) p3 by (simp_all add: pvcq_live_Some)
  have run: "pvcq_upthread_run call t s2 = Some s4"
    using p2 raw assms(6) s4(1) by (simp add: pvcq_upthread_run_def)
  have t4: "tcbs (pvcq_live s4) t = Some ?p" "tcb_state ?p = UPTH_RUNNING" "\<not> tcb_detached ?p"
    using s4(3) run3 raw(2) assms(9) by (simp_all add: detached_threads_def)
  from pvcq_exit_cb_joinable [OF ok4 t4, of pl] obtain s5 where s5:
    "pvcq_pth_exit_cb pvcq_pth_thread_runnable pl t s4 = Some s5"
    "tcbs (pvcq_live s5) t = Some (?p\<lparr>tcb_state := UPTH_EXITING, tcb_joiner := Some t\<rparr>)"
    "\<forall>w. tcb_joiner ?p = Some w \<longrightarrow> w \<in> pvcq_links s5" by blast
  have wake: "\<forall>w. joiner_of s3 t = Some w \<longrightarrow> w \<in> set (pvcq_queued s5)"
    using s5(3) raw(2) by (simp add: joiner_of_def pvcq_links_def)
  have "pvcq_step s3 s5" by (rule ss_move, rule pv_exits [OF assms(2,8) s4(1) s5(1)])
  then have r5: "reachable pvcq_init pvcq_step s5" by (rule reach_step [OF r3])
  have "\<exists>s7. pvcq_join_finish pl t s6 = Some (0, v, s7) \<and> tcbs (pvcq_live s7) t = None \<and>
      (length (zombie_list s6) < 1000 \<longrightarrow> t \<in> set (zombie_list s7))"
    if alive: "(pvcq_alive t)\<^sup>*\<^sup>* s5 s6" for s6
  proof -
    obtain p6 where p6: "pvcq_ok s6" "tcbs (pvcq_live s6) t = Some p6" "tcb_state p6 = UPTH_EXITING"
      "tcb_retval p6 = v" by (rule pvcq_alive_kept [OF alive r5 s5(2)]) simp
    have "pvcq_inv {} s6" "tcb_state p6 \<noteq> UPTH_RUNNABLE" using p6(1,3) by (simp_all add: pvcq_ok_def)
    from pvcq_free_inv [OF assms(2) this(1) p6(2) this(2)] p6(2,4) show ?thesis
      by (auto simp: pvcq_join_finish_def pvcq_live_Some)
  qed
  with run s5(1) wake show ?thesis by blast
qed

theorem pvcq_join_returns_result_witness:
  "\<exists>s4 s5. pvcq_upthread_run (\<lambda>f a s. Some (f + a, s)) 6295360 pv3 = Some s4 \<and>
     pvcq_pth_exit_cb pvcq_pth_thread_runnable demo_platform 6295360 s4 = Some s5 \<and>
     1052480 \<in> set (pvcq_queued s5) \<and> (\<exists>s7. pvcq_join_finish demo_platform 6295360 s5 = Some (0, 3, s7))"
proof -
  have live: "tcbs (pvcq_live pv2) 6295360 \<noteq> None" "tcbs (pvcq_live pv3) 6295360 \<noteq> None"
    by code_simp+
  have "pvcq_alive 6295360 pv1 pv2" "pvcq_alive 6295360 pv2 pv3"
    using pv2_step pv3_step live by (simp_all add: alive_step_def pvcq_abs_def views_def)
  then have alive: "(pvcq_alive 6295360)\<^sup>*\<^sup>* pv1 pv3" by (blast intro: rtranclp.rtrancl_into_rtrancl)
  obtain p where p: "tcbs pv3 6295360 = Some p" "tcb_state p = UPTH_RUNNING" "tcb_joiner p = Some 1052480"
    "\<not> tcb_detached p" using pv3(2) by auto
  then have run: "6295360 \<in> pvcq_running pv3" "6295360 \<notin> detached_threads pv3" and j: "joiner_of pv3 6295360 = Some 1052480"
    by (simp_all add: pvcq_running_def state_of_def pvcq_live_tcbs pv3(1) detached_threads_def joiner_of_def)
  from pvcq_join_returns_result [where call = "\<lambda>f a s. Some (f + a, s)" and v = 3,
      OF pv0_reachable demo_platform_ok disjI1 [OF pv0_fresh] pv_new [unfolded pv_new_def] alive _ _ run] j
  show ?thesis by auto
qed

end
