(* ===== verification/Pvcq_Thieves.thy ===== *)
theory Pvcq_Thieves
  imports Pvcq_Life
begin

text \<open>
  Work stealing by many vcores at once. \<open>pvcq_dequeue\<close> is a call of \<open>__pth_thread_dequeue\<close> that
  nobody disturbs; here each read of a queue length, each random choice and each critical section of the
  call is a step of its own, and any number of vcores take such steps in any order, between the
  operations of running threads.
\<close>

section \<open>A dequeue, access by access\<close>

text \<open>What a call of the local function \<open>tdequeue\<close> is for: the first attempt, on the vcore's own queue;
  the first thread of a theft, of which \<open>n\<close> more are wanted; or one of those, the first one being in
  hand. The flag tells the scan over all vcores from the choice of two.\<close>

datatype purpose = Own_queue | First_of bool nat | More_of bool nat upthread_t

datatype thief =
    Idle
  | Check int purpose
  | Pop int purpose
  | Decide
  | Draw
  | Draw_again int
  | Read_size int int
  | Read_other int int int
  | Count int bool
  | Put upthread_t int bool nat upthread_t
  | Done "upthread_t option"

definition scan_at :: "int \<Rightarrow> int \<Rightarrow> thief" where
  "scan_at me i = (if i = me then Done None else Count i True)"

definition next_victim :: "int \<Rightarrow> pvcq \<Rightarrow> int \<Rightarrow> bool \<Rightarrow> thief" where
  "next_victim me s v scan = scan_at me (((if scan then v else me) + 1) mod max_vcores s)"

definition steal_more :: "int \<Rightarrow> bool \<Rightarrow> nat \<Rightarrow> upthread_t \<Rightarrow> thief" where
  "steal_more v scan n hand = (if n = 0 then Done (Some hand) else Check v (More_of scan n hand))"

fun thief_missed :: "int \<Rightarrow> pvcq \<Rightarrow> int \<Rightarrow> purpose \<Rightarrow> thief" where
  "thief_missed me s v Own_queue = Decide"
| "thief_missed me s v (First_of scan n) = next_victim me s v scan"
| "thief_missed me s v (More_of scan n hand) = Done (Some hand)"

fun thief_got :: "upthread_t \<Rightarrow> int \<Rightarrow> purpose \<Rightarrow> thief" where
  "thief_got t v Own_queue = Done (Some t)"
| "thief_got t v (First_of scan n) = steal_more v scan n t"
| "thief_got t v (More_of scan n hand) = Put t v scan n hand"

text \<open>The critical section of \<open>tdequeue\<close>, entered after \<open>tqsize\<close> was read without the lock.\<close>

definition tdequeue_cs :: "int \<Rightarrow> int \<Rightarrow> pvcq \<Rightarrow> (upthread_t option \<times> pvcq) option" where
  "tdequeue_cs me vcoreid s = do {
     v \<leftarrow> vc_get vcoreid s;
     (case stailq_pop (vc_tqueue v) of
        (None, _) \<Rightarrow> Some (None, s)
      | (Some t, q) \<Rightarrow> do {
          let s = vc_put vcoreid (v\<lparr>vc_tqueue := q, vc_tqsize := vc_tqsize v - 1\<rparr>) s;
          s \<leftarrow> tcb_upd t (\<lambda>p. p\<lparr>tcb_preferred_vcq := me\<rparr>) s;
          Some (Some t, s)
        })
   }"

fun thief_step ::
  "(32 word \<Rightarrow> int \<times> 32 word) \<Rightarrow> int \<Rightarrow> int \<Rightarrow> thief \<Rightarrow> pvcq \<Rightarrow> (thief \<times> pvcq) option" where
  "thief_step rand_r num_vcores me Idle s = None"
| "thief_step rand_r num_vcores me (Check v w) s = do {
     x \<leftarrow> vc_get v s;
     Some (if vc_tqsize x \<noteq> 0 then Pop v w else thief_missed me s v w, s)
   }"
| "thief_step rand_r num_vcores me (Pop v w) s = do {
     (u, s) \<leftarrow> tdequeue_cs me v s;
     Some (case u of None \<Rightarrow> thief_missed me s v w | Some t \<Rightarrow> thief_got t v w, s)
   }"
| "thief_step rand_r num_vcores me Decide s = Some (if can_steal s then Draw else Done None, s)"
| "thief_step rand_r num_vcores me Draw s = do {
     (c, s) \<leftarrow> rand_vcore rand_r num_vcores me s;
     Some (Draw_again c, s)
   }"
| "thief_step rand_r num_vcores me (Draw_again c0) s = do {
     (c, s) \<leftarrow> rand_vcore rand_r num_vcores me s;
     Some (Read_size c0 c, s)
   }"
| "thief_step rand_r num_vcores me (Read_size c0 c1) s = do {
     x \<leftarrow> vc_get c0 s;
     Some (Read_other c0 c1 (vc_tqsize x), s)
   }"
| "thief_step rand_r num_vcores me (Read_other c0 c1 n) s = do {
     x \<leftarrow> vc_get c1 s;
     let (best, other) = (if n > vc_tqsize x then (c0, c1) else (c1, c0));
     Some (Count (if me \<noteq> best then best else other) False, s)
   }"
| "thief_step rand_r num_vcores me (Count v scan) s = do {
     x \<leftarrow> vc_get v s;
     let num_to_steal = (vc_tqsize x + 1) sdiv 2;
     Some (if num_to_steal \<noteq> 0 then Check v (First_of scan (nat (num_to_steal - 1)))
           else next_victim me s v scan, s)
   }"
| "thief_step rand_r num_vcores me (Put u v scan n hand) s = do {
     (_, s) \<leftarrow> pvcq_enqueue u False s;
     Some (steal_more v scan (n - 1) hand, s)
   }"
| "thief_step rand_r num_vcores me (Done r) s = None"

section \<open>Undisturbed, it is the dequeue\<close>

definition thief_alone ::
  "(32 word \<Rightarrow> int \<times> 32 word) \<Rightarrow> int \<Rightarrow> int \<Rightarrow> thief \<times> pvcq \<Rightarrow> thief \<times> pvcq \<Rightarrow> bool" where
  "thief_alone rand_r num_vcores me a b \<longleftrightarrow> thief_step rand_r num_vcores me (fst a) (snd a) = Some b"

lemma alone_step:
  "thief_step rand_r n me c s = Some (c', s') \<Longrightarrow> (thief_alone rand_r n me)\<^sup>*\<^sup>* (c', s') z \<Longrightarrow>
   (thief_alone rand_r n me)\<^sup>*\<^sup>* (c, s) z"
  by (rule converse_rtranclp_into_rtranclp) (simp_all add: thief_alone_def)

lemma tdequeue_eq_cs:
  "tdequeue me v s = do { x \<leftarrow> vc_get v s; if vc_tqsize x \<noteq> 0 then tdequeue_cs me v s else Some (None, s) }"
  by (cases "vc_get v s") (simp_all add: tdequeue_def tdequeue_cs_def)

lemma alone_tdequeue:
  assumes "tdequeue me v s = Some (r, s')"
    and "(thief_alone rand_r n me)\<^sup>*\<^sup>* (case r of None \<Rightarrow> thief_missed me s' v w | Some t \<Rightarrow> thief_got t v w, s') z"
  shows "(thief_alone rand_r n me)\<^sup>*\<^sup>* (Check v w, s) z"
proof -
  from assms(1) obtain x where x: "vc_get v s = Some x" by (auto simp: tdequeue_def bind_eq_Some_conv)
  show ?thesis
  proof (cases "vc_tqsize x = 0")
    case True
    with assms(1) x have "r = None" "s' = s" by (simp_all add: tdequeue_def)
    with True x assms(2) show ?thesis by (intro alone_step [of rand_r n me "Check v w" s "thief_missed me s v w" s]) simp_all
  next
    case False
    with assms(1) x have "tdequeue_cs me v s = Some (r, s')" by (simp add: tdequeue_eq_cs)
    with assms(2) have "(thief_alone rand_r n me)\<^sup>*\<^sup>* (Pop v w, s) z"
      by (intro alone_step [of rand_r n me "Pop v w" s _ s']) simp_all
    with False x show ?thesis by (intro alone_step [of rand_r n me "Check v w" s "Pop v w" s]) simp_all
  qed
qed

lemma alone_steal_loop:
  assumes "steal_loop me v k s = Some s'"
  shows "(thief_alone rand_r n me)\<^sup>*\<^sup>* (steal_more v scan k hand, s) (Done (Some hand), s')"
  using assms
proof (induction k arbitrary: s)
  case (Suc k)
  then obtain u s1 where u: "tdequeue me v s = Some (u, s1)"
    "(case u of None \<Rightarrow> Some s1 | Some u \<Rightarrow> Option.bind (pvcq_enqueue u False s1) (\<lambda>(_, s). steal_loop me v k s)) = Some s'"
    by (auto simp: bind_eq_Some_conv split: prod.splits)
  show ?case
  proof (cases u)
    case None
    with u show ?thesis by (simp add: steal_more_def alone_tdequeue)
  next
    case (Some t)
    with u(2) obtain i s2 where e: "pvcq_enqueue t False s1 = Some (i, s2)" "steal_loop me v k s2 = Some s'"
      by (auto simp: bind_eq_Some_conv)
    have "(thief_alone rand_r n me)\<^sup>*\<^sup>* (Put t v scan (Suc k) hand, s1) (Done (Some hand), s')"
      by (rule alone_step [OF _ Suc.IH [OF e(2)]]) (simp add: e(1))
    with u(1) Some show ?thesis by (simp add: steal_more_def alone_tdequeue)
  qed
qed (simp add: steal_more_def)

lemma alone_steal_threads:
  assumes "steal_threads me v s = Some (r, s')"
    and "(thief_alone rand_r n me)\<^sup>*\<^sup>* (case r of None \<Rightarrow> next_victim me s' v scan | Some t \<Rightarrow> Done (Some t), s') z"
  shows "(thief_alone rand_r n me)\<^sup>*\<^sup>* (Count v scan, s) z"
proof -
  from assms(1) obtain x where x: "vc_get v s = Some x" by (auto simp: steal_threads_def bind_eq_Some_conv)
  let ?k = "(vc_tqsize x + 1) sdiv 2"
  show ?thesis
  proof (cases "?k = 0")
    case True
    with assms(1) x have "r = None" "s' = s" by (simp_all add: steal_threads_def)
    with assms(2) have "(thief_alone rand_r n me)\<^sup>*\<^sup>* (next_victim me s v scan, s) z" by simp
    then show ?thesis by (rule alone_step [rotated]) (simp add: x True)
  next
    case False
    with assms(1) x obtain u s1 where u: "tdequeue me v s = Some (u, s1)"
      "(case u of None \<Rightarrow> Some (None, s1) | Some t \<Rightarrow> Option.bind (steal_loop me v (nat (?k - 1)) s1) (\<lambda>s. Some (Some t, s))) = Some (r, s')"
      by (auto simp: steal_threads_def bind_eq_Some_conv)
    have "(thief_alone rand_r n me)\<^sup>*\<^sup>* (Check v (First_of scan (nat (?k - 1))), s) z"
    proof (rule alone_tdequeue [OF u(1)], cases u)
      case None
      with u(2) assms(2) show "(thief_alone rand_r n me)\<^sup>*\<^sup>* (case u of None \<Rightarrow> thief_missed me s1 v (First_of scan (nat (?k - 1)))
          | Some t \<Rightarrow> thief_got t v (First_of scan (nat (?k - 1))), s1) z" by simp
    next
      case (Some t)
      with u(2) obtain s2 where s2: "steal_loop me v (nat (?k - 1)) s1 = Some s2" "r = Some t" "s' = s2"
        by (auto simp: bind_eq_Some_conv)
      from alone_steal_loop [OF s2(1), of rand_r n scan t] assms(2) s2(2,3) Some
      show "(thief_alone rand_r n me)\<^sup>*\<^sup>* (case u of None \<Rightarrow> thief_missed me s1 v (First_of scan (nat (?k - 1)))
          | Some t \<Rightarrow> thief_got t v (First_of scan (nat (?k - 1))), s1) z" by simp
    qed
    then show ?thesis by (rule alone_step [rotated]) (simp add: x False)
  qed
qed

lemma alone_steal_scan:
  "steal_scan me fuel i s = Some (r, s') \<Longrightarrow> (thief_alone rand_r n me)\<^sup>*\<^sup>* (scan_at me i, s) (Done r, s')"
proof (induction fuel arbitrary: i s)
  case (Suc fuel)
  show ?case
  proof (cases "i = me")
    case True
    with Suc.prems show ?thesis by (simp add: scan_at_def)
  next
    case False
    with Suc.prems obtain u s1 where u: "steal_threads me i s = Some (u, s1)"
      "(case u of Some t \<Rightarrow> Some (Some t, s1) | None \<Rightarrow> steal_scan me fuel ((i + 1) mod max_vcores s1) s1) = Some (r, s')"
      by (auto simp: bind_eq_Some_conv)
    have "(thief_alone rand_r n me)\<^sup>*\<^sup>* (Count i True, s) (Done r, s')"
    proof (rule alone_steal_threads [OF u(1)], cases u)
      case None
      with u(2) Suc.IH show "(thief_alone rand_r n me)\<^sup>*\<^sup>* (case u of None \<Rightarrow> next_victim me s1 i True
          | Some t \<Rightarrow> Done (Some t), s1) (Done r, s')" by (simp add: next_victim_def)
    next
      case (Some t)
      with u(2) show "(thief_alone rand_r n me)\<^sup>*\<^sup>* (case u of None \<Rightarrow> next_victim me s1 i True
          | Some t \<Rightarrow> Done (Some t), s1) (Done r, s')" by auto
    qed
    with False show ?thesis by (simp add: scan_at_def)
  qed
qed simp

lemma alone_dequeue:
  assumes "pvcq_dequeue rand_r n me s = Some (r, s')"
  shows "(thief_alone rand_r n me)\<^sup>*\<^sup>* (Check me Own_queue, s) (Done r, s')"
proof -
  from assms obtain u s1 where u: "tdequeue me me s = Some (u, s1)"
    by (auto simp: pvcq_dequeue_def bind_eq_Some_conv split: prod.splits)
  show ?thesis
  proof (rule alone_tdequeue [OF u])
    show "(thief_alone rand_r n me)\<^sup>*\<^sup>* (case u of None \<Rightarrow> thief_missed me s1 me Own_queue
        | Some t \<Rightarrow> thief_got t me Own_queue, s1) (Done r, s')"
    proof (cases "can_steal s1 \<and> u = None")
      case False
      with assms u have "u = r" "s1 = s'" by (auto simp: pvcq_dequeue_def split: if_splits)
      moreover have "(thief_alone rand_r n me)\<^sup>*\<^sup>* (Decide, s') (Done None, s')" if "u = None"
        by (rule alone_step [of _ _ _ _ _ "Done None" s']) (use that False \<open>s1 = s'\<close> in auto)
      ultimately show ?thesis by (cases r) auto
    next
      case True
      with assms u obtain c0 s2 c1 s3 v0 v1 where c: "rand_vcore rand_r n me s1 = Some (c0, s2)"
        "rand_vcore rand_r n me s2 = Some (c1, s3)" "vc_get c0 s3 = Some v0" "vc_get c1 s3 = Some v1"
        by (auto simp: pvcq_dequeue_def bind_eq_Some_conv)
      define b where "b = (let (best, other) = (if vc_tqsize v0 > vc_tqsize v1 then (c0, c1) else (c1, c0))
          in if me \<noteq> best then best else other)"
      from assms u True c obtain w s4 where w: "steal_threads me b s3 = Some (w, s4)"
        "(case w of Some t \<Rightarrow> Some (Some t, s4)
          | None \<Rightarrow> steal_scan me (length (vc_mgmts s4)) ((me + 1) mod max_vcores s4) s4) = Some (r, s')"
        by (auto simp: pvcq_dequeue_def bind_eq_Some_conv b_def Let_def split: if_splits)
      have "(thief_alone rand_r n me)\<^sup>*\<^sup>* (Count b False, s3) (Done r, s')"
      proof (rule alone_steal_threads [OF w(1)])
        show "(thief_alone rand_r n me)\<^sup>*\<^sup>* (case w of None \<Rightarrow> next_victim me s4 b False
            | Some t \<Rightarrow> Done (Some t), s4) (Done r, s')"
          using w(2) alone_steal_scan by (cases w) (auto simp: next_victim_def)
      qed
      then have "(thief_alone rand_r n me)\<^sup>*\<^sup>* (Read_other c0 c1 (vc_tqsize v0), s3) (Done r, s')"
        by (rule alone_step [rotated]) (simp add: c(4) b_def Let_def)
      then have "(thief_alone rand_r n me)\<^sup>*\<^sup>* (Read_size c0 c1, s3) (Done r, s')"
        by (rule alone_step [rotated]) (simp add: c(3))
      then have "(thief_alone rand_r n me)\<^sup>*\<^sup>* (Draw_again c0, s2) (Done r, s')"
        by (rule alone_step [rotated]) (simp add: c(2))
      then have "(thief_alone rand_r n me)\<^sup>*\<^sup>* (Draw, s1) (Done r, s')"
        by (rule alone_step [rotated]) (simp add: c(1))
      then have "(thief_alone rand_r n me)\<^sup>*\<^sup>* (Decide, s1) (Done r, s')"
        by (rule alone_step [rotated]) (simp add: True)
      with True show ?thesis by simp
    qed
  qed
qed

lemma alone_unique:
  assumes "(thief_alone rand_r n me)\<^sup>*\<^sup>* a (Done r, s)" and "(thief_alone rand_r n me)\<^sup>*\<^sup>* a (Done r', s')"
  shows "(Done r, s) = (Done r', s')"
proof -
  have stuck: "b = (Done x, y)" if "(thief_alone rand_r n me)\<^sup>*\<^sup>* (Done x, y) b" for x y b
    using that by (cases rule: converse_rtranclpE) (simp_all add: thief_alone_def)
  show ?thesis
    using assms(1,2)
  proof (induction rule: converse_rtranclp_induct)
    case base
    from stuck [OF base] show ?case by simp
  next
    case (step a b)
    from step.prems show ?case
    proof (cases rule: converse_rtranclpE)
      case base
      with step.hyps(1) show ?thesis by (simp add: thief_alone_def)
    next
      case (step c)
      with step.hyps(1) have "c = b" by (simp add: thief_alone_def)
      with step step.IH show ?thesis by blast
    qed
  qed
qed

section \<open>Every call ends\<close>

text \<open>Well-formed points of a call: array indices are in range, the scan stops before it is back at
  the vcore itself, and a theft that goes on wants at least one more thread.\<close>

fun purpose_wf :: "int \<Rightarrow> int \<Rightarrow> purpose \<Rightarrow> bool" where
  "purpose_wf me v Own_queue = True"
| "purpose_wf me v (First_of scan n) = (scan \<longrightarrow> v \<noteq> me)"
| "purpose_wf me v (More_of scan n hand) = (0 < n)"

fun thief_wf :: "int \<Rightarrow> int \<Rightarrow> thief \<Rightarrow> bool" where
  "thief_wf me m (Check v w) = (0 \<le> v \<and> v < m \<and> purpose_wf me v w)"
| "thief_wf me m (Pop v w) = (0 \<le> v \<and> v < m \<and> purpose_wf me v w)"
| "thief_wf me m (Draw_again c) = (0 \<le> c \<and> c < m)"
| "thief_wf me m (Read_size c d) = (0 \<le> c \<and> c < m \<and> 0 \<le> d \<and> d < m)"
| "thief_wf me m (Read_other c d n) = (0 \<le> c \<and> c < m \<and> 0 \<le> d \<and> d < m)"
| "thief_wf me m (Count v scan) = (0 \<le> v \<and> v < m \<and> (scan \<longrightarrow> v \<noteq> me))"
| "thief_wf me m (Put u v scan n hand) = (0 \<le> v \<and> v < m \<and> 0 < n \<and> u \<noteq> hand)"
| "thief_wf me m c = True"

lemma scan_at_wf: "0 \<le> i \<Longrightarrow> i < m \<Longrightarrow> thief_wf me m (scan_at me i)"
  by (simp add: scan_at_def)

lemma next_victim_wf: "0 < max_vcores s \<Longrightarrow> thief_wf me (max_vcores s) (next_victim me s v scan)"
  by (simp add: next_victim_def scan_at_wf)

lemma steal_more_wf: "0 \<le> v \<Longrightarrow> v < m \<Longrightarrow> thief_wf me m (steal_more v scan n hand)"
  by (simp add: steal_more_def)

lemma thief_missed_wf: "0 < max_vcores s \<Longrightarrow> thief_wf me (max_vcores s) (thief_missed me s v w)"
  by (cases w) (simp_all add: next_victim_wf)

text \<open>Victims still to be tried, threads still wanted, and steps to the next decision.\<close>

definition victims :: "int \<Rightarrow> int \<Rightarrow> int \<Rightarrow> bool \<Rightarrow> nat" where
  "victims me m v scan = (if scan then nat ((me - v) mod m) else nat m)"

fun thief_rank :: "int \<Rightarrow> int \<Rightarrow> thief \<Rightarrow> nat \<times> nat \<times> nat" where
  "thief_rank me m (Check v Own_queue) = (nat m + 2, 0, 7)"
| "thief_rank me m (Pop v Own_queue) = (nat m + 2, 0, 6)"
| "thief_rank me m Decide = (nat m + 2, 0, 5)"
| "thief_rank me m Draw = (nat m + 2, 0, 4)"
| "thief_rank me m (Draw_again c) = (nat m + 2, 0, 3)"
| "thief_rank me m (Read_size c d) = (nat m + 2, 0, 2)"
| "thief_rank me m (Read_other c d n) = (nat m + 2, 0, 1)"
| "thief_rank me m (Count v scan) = (Suc (victims me m v scan), 0, 3)"
| "thief_rank me m (Check v (First_of scan n)) = (Suc (victims me m v scan), 0, 2)"
| "thief_rank me m (Pop v (First_of scan n)) = (Suc (victims me m v scan), 0, 1)"
| "thief_rank me m (Check v (More_of scan n hand)) = (0, n, 2)"
| "thief_rank me m (Pop v (More_of scan n hand)) = (0, n, 1)"
| "thief_rank me m (Put u v scan n hand) = (0, n, 0)"
| "thief_rank me m Idle = (0, 0, 0)"
| "thief_rank me m (Done r) = (0, 0, 0)"

abbreviation rank_less :: "((nat \<times> nat \<times> nat) \<times> nat \<times> nat \<times> nat) set" where
  "rank_less \<equiv> less_than <*lex*> less_than <*lex*> less_than"

lemma next_victim_rank:
  assumes "0 \<le> me" "me < max_vcores s" and "0 \<le> v" "v < max_vcores s" and "scan \<longrightarrow> v \<noteq> me"
  shows "fst (thief_rank me (max_vcores s) (next_victim me s v scan)) < Suc (victims me (max_vcores s) v scan)"
proof -
  let ?m = "max_vcores s" and ?i = "((if scan then v else me) + 1) mod max_vcores s"
  have m: "0 < ?m" using assms(1,2) by linarith
  show ?thesis
  proof (cases "?i = me")
    case True
    then show ?thesis by (simp add: next_victim_def scan_at_def)
  next
    case False
    have "nat ((me - ?i) mod ?m) < victims me ?m v scan"
    proof (cases scan)
      case True
      have ne: "(me - v) mod ?m \<noteq> 0" using mod_diff_0D [OF assms(1-4)] assms(5) True by auto
      have "(me - ?i) mod ?m = ((me - v) - 1) mod ?m" using True by (simp add: mod_diff_right_eq algebra_simps)
      also have "\<dots> = (me - v) mod ?m - 1" by (rule mod_pred [OF m ne])
      finally have "(me - ?i) mod ?m = (me - v) mod ?m - 1" .
      moreover have "0 \<le> (me - v) mod ?m" using m by simp
      ultimately show ?thesis using ne True by (simp add: victims_def)
    next
      case False
      then show ?thesis using m pos_mod_bound [OF m, of "me - ?i"] by (simp add: victims_def)
    qed
    with False show ?thesis by (simp add: next_victim_def scan_at_def victims_def)
  qed
qed

lemma steal_more_rank: "fst (thief_rank me m (steal_more v scan n hand)) = 0"
  "(thief_rank me m (steal_more v scan n hand), (0, Suc n, k)) \<in> rank_less"
  by (simp_all add: steal_more_def)

lemma rank_less_fst: "fst a < b \<Longrightarrow> (a, (b, c)) \<in> rank_less"
  by (cases a) auto

lemma victims_le: "0 \<le> me \<Longrightarrow> me < m \<Longrightarrow> victims me m v scan \<le> nat m"
  using pos_mod_bound [of m "me - v"] by (auto simp: victims_def nat_mono order_less_imp_le)

lemma thief_missed_rank:
  assumes "0 \<le> me" "me < max_vcores s" and "0 \<le> v" "v < max_vcores s" and "purpose_wf me v w"
  shows "(thief_rank me (max_vcores s) (thief_missed me s v w), thief_rank me (max_vcores s) (Check v w)) \<in> rank_less"
    and "(thief_rank me (max_vcores s) (thief_missed me s v w), thief_rank me (max_vcores s) (Pop v w)) \<in> rank_less"
  using assms next_victim_rank [OF assms(1-4)] by (cases w; simp add: rank_less_fst)+

lemma thief_step_rank:
  assumes "thief_step rand_r n me c s = Some (c', s')" and "0 \<le> me" "me < max_vcores s"
    and "thief_wf me (max_vcores s) c" and "max_vcores s' = max_vcores s"
  shows "(thief_rank me (max_vcores s) c', thief_rank me (max_vcores s) c) \<in> rank_less"
  using assms(1,4)
proof (cases c)
  case (Check v w)
  then show ?thesis using assms thief_missed_rank(1) [OF assms(2,3), of v w]
    by (cases w) (auto simp: bind_eq_Some_conv split: if_splits)
next
  case (Pop v w)
  with assms obtain u where u: "tdequeue_cs me v s = Some (u, s')"
    "c' = (case u of None \<Rightarrow> thief_missed me s' v w | Some t \<Rightarrow> thief_got t v w)"
    by (auto simp: bind_eq_Some_conv)
  show ?thesis
  proof (cases u)
    case None
    with u Pop assms thief_missed_rank(2) [of me s' v w] show ?thesis by simp
  next
    case (Some t)
    with u Pop assms show ?thesis by (cases w) (simp_all add: rank_less_fst steal_more_rank)
  qed
next
  case (Count v scan)
  with assms next_victim_rank [OF assms(2,3), of v scan] show ?thesis
    by (auto simp: bind_eq_Some_conv rank_less_fst Let_def split: if_splits)
next
  case (Put u v scan k hand)
  with assms show ?thesis using steal_more_rank(2) [of me "max_vcores s" v scan "k - 1" hand 0]
    by (auto simp: bind_eq_Some_conv)
next
  case (Read_other c d k)
  with assms victims_le [OF assms(2,3)] show ?thesis
    by (auto simp: bind_eq_Some_conv Let_def le_imp_less_Suc split: if_splits)
qed (auto simp: bind_eq_Some_conv)


section \<open>No operation changes the number of queues\<close>

lemma tcb_upd_max [simp]: "tcb_upd t f s = Some s' \<Longrightarrow> max_vcores s' = max_vcores (s :: pvcq)"
  by (auto simp: tcb_upd_def bind_eq_Some_conv max_vcores_def split: option.splits)

lemma set_state_max [simp]: "set_state t x s = Some s' \<Longrightarrow> max_vcores s' = max_vcores (s :: pvcq)"
  by (simp add: set_state_def)

lemma get_next_queue_id_max: "get_next_queue_id_basic (\<lambda>_ s. s) n k s = Some (i, s') \<Longrightarrow> max_vcores s' = max_vcores s"
  by (induction n arbitrary: k s)
    (auto simp: next_queue_pass_def bind_eq_Some_conv Let_def max_vcores_def split: if_splits option.splits)

lemma pvcq_enqueue_max: "pvcq_enqueue t a s = Some (i, s') \<Longrightarrow> max_vcores s' = max_vcores s"
  by (auto simp: pvcq_enqueue_def bind_eq_Some_conv Let_def simp del: get_next_queue_id_basic.simps split: if_splits
      dest!: set_state_max get_next_queue_id_max tcb_upd_max)

lemma tdequeue_cs_max: "tdequeue_cs me v s = Some (u, s') \<Longrightarrow> max_vcores s' = max_vcores s"
  by (cases "stailq_pop (vc_tqueue (vc_mgmts s ! nat v))")
    (auto simp: tdequeue_cs_def vc_get_Some bind_eq_Some_conv Let_def split: option.splits dest!: tcb_upd_max)

lemma rand_vcore_max: "rand_vcore rand_r n i s = Some (c, s') \<Longrightarrow> max_vcores s' = max_vcores s"
  using rand_vcore_put by fastforce

lemma thief_step_max: "thief_step rand_r n me c s = Some (c', s') \<Longrightarrow> max_vcores s' = max_vcores s"
  by (cases c) (auto simp: bind_eq_Some_conv Let_def split: if_splits
      dest: tdequeue_cs_max rand_vcore_max pvcq_enqueue_max)

lemma pvcq_runnable_max: "pvcq_pth_thread_runnable t s = Some s' \<Longrightarrow> max_vcores s' = max_vcores s"
  by (auto simp: pvcq_pth_thread_runnable_def bind_eq_Some_conv Let_def split: if_splits dest: pvcq_enqueue_max)

lemma pvcq_alloc_max: "pvcq_upthread_alloc pl mmap n s = Some (t, s') \<Longrightarrow> max_vcores s' = max_vcores s"
  by (auto simp: pvcq_upthread_alloc_def bind_eq_Some_conv Let_def max_vcores_def [of "_\<lparr>zombie_list := _\<rparr>"]
      max_vcores_def split: option.splits dest!: rand_vcore_max)

lemma pvcq_free_max: "pvcq_upthread_free pl t s = Some s' \<Longrightarrow> max_vcores s' = max_vcores s"
  by (auto simp: pvcq_upthread_free_def bind_eq_Some_conv Let_def split: if_splits)


lemmas pvcq_max = set_state_max tcb_upd_max pvcq_runnable_max pvcq_alloc_max pvcq_free_max

lemma alone_max: "(thief_alone rand_r n me)\<^sup>*\<^sup>* a b \<Longrightarrow> max_vcores (snd b) = max_vcores (snd a)"
  by (induction rule: rtranclp_induct) (auto simp: thief_alone_def dest!: thief_step_max)

lemma pvcq_dequeue_max: "pvcq_dequeue rand_r n me s = Some (r, s') \<Longrightarrow> max_vcores s' = max_vcores s"
  using alone_max [OF alone_dequeue] by fastforce

lemma pvcq_moves_max: "pvcq_moves s s' \<Longrightarrow> max_vcores s' = max_vcores s"
proof (induction rule: pvcq_moves.induct)
  case (pv_dispatch me s n rand_r t s1 s')
  then show ?case by (auto dest: pvcq_dequeue_max set_state_max)
next
  case (pv_search me s n rand_r s')
  then show ?case by (auto dest: pvcq_dequeue_max)
next
  case (pv_yields t s s')
  then show ?case by (auto simp: pvcq_pth_yield_cb_def pvcq_generic_yield_def bind_eq_Some_conv dest!: pvcq_max)
next
  case (pv_syscall t s sysc s')
  then show ?case
    by (auto simp: pvcq_pth_blockon_syscall_def pvcq_generic_yield_def bind_eq_Some_conv dest!: pvcq_max)
next
  case (pv_sysdone s sysc t s')
  then show ?case
    by (auto simp: pvcq_pth_handle_syscall_def pvcq_restart_thread_def bind_eq_Some_conv dest!: pvcq_max)
next
  case (pv_creates pl s t mmap attr start arg r s')
  then show ?case
    by (auto simp: pvcq_upthread_create_def get_next_pid_def bind_eq_Some_conv Let_def dest!: pvcq_max)
next
  case (pv_joins t s x q s')
  then show ?case
    by (auto simp: pvcq_pth_join_cb_def pvcq_generic_yield_def bind_eq_Some_conv split: option.splits dest!: pvcq_max)
next
  case (pv_joined pl t s x r v s')
  then show ?case by (auto simp: pvcq_join_finish_def bind_eq_Some_conv dest!: pvcq_max)
next
  case (pv_exits pl t s ret s1 s')
  then show ?case
    by (auto simp: pvcq_upthread_exit_def pvcq_pth_exit_cb_def pvcq_generic_yield_def bind_eq_Some_conv Let_def
        split: if_splits option.splits dest!: pvcq_max)
next
  case (pv_detaches s x q r s')
  then show ?case by (auto simp: pvcq_upthread_detach_def bind_eq_Some_conv dest!: pvcq_max)
qed (simp_all add: pvcq_upthread_can_vcore_request_def pvcq_upthread_can_vcore_steal_def
    pvcq_upthread_set_num_vcores_def pvcq_upthread_short_circuit_yield_def max_vcores_def Let_def)

lemma pvcq_step_max: "pvcq_step s s' \<Longrightarrow> max_vcores s' = max_vcores s"
  by (induction rule: sched_step.induct)
    (auto simp: pvcq_pth_thread_has_blocked_def pvcq_pth_thread_paused_def pvcq_generic_yield_def bind_eq_Some_conv
      dest!: pvcq_max intro: pvcq_moves_max)

section \<open>Threads in hand\<close>

text \<open>The threads a call has taken off a queue and not yet put on another or returned, and the one it
  returned until it runs.\<close>

fun hand_of :: "thief \<Rightarrow> upthread_t set" where
  "hand_of (Check v (More_of scan n hand)) = {hand}"
| "hand_of (Pop v (More_of scan n hand)) = {hand}"
| "hand_of (Put u v scan n hand) = {u, hand}"
| "hand_of (Done r) = set_option r"
| "hand_of c = {}"

fun in_call :: "thief \<Rightarrow> bool" where
  "in_call Idle = False"
| "in_call (Done r) = False"
| "in_call c = True"

lemma tdequeue_cs_spec:
  assumes inv: "pvcq_inv H s" and me: "0 \<le> me" "me < max_vcores s" and i: "vc_get i s = Some v"
  shows "tdequeue_cs me i s = Some (None, s) \<or>
    (\<exists>t s'. tdequeue_cs me i s = Some (Some t, s') \<and> pvcq_same s s' \<and> t \<notin> H \<and> pvcq_inv (insert t H) s')"
proof (cases "vc_tqueue v")
  case Nil
  with i show ?thesis by (simp add: tdequeue_cs_def)
next
  case (Cons t q)
  have "vc_wf v" using inv vc_get_in [OF i] by (simp add: pvcq_inv_def queues_ok_def)
  with Cons i have "tdequeue me i s = tdequeue_cs me i s" by (simp add: tdequeue_eq_cs vc_wf_def)
  with tdequeue_spec [OF inv me i] Cons show ?thesis by auto
qed

text \<open>A step of a call is defined, whatever the others hold, and the thread it takes or puts down was in
  nobody else's hand.\<close>

definition thief_ok :: "int \<Rightarrow> upthread_t set \<Rightarrow> thief \<Rightarrow> pvcq \<Rightarrow> bool" where
  "thief_ok me H c s \<longleftrightarrow>
     pvcq_inv (hand_of c \<union> H) s \<and> hand_of c \<inter> H = {} \<and> thief_wf me (max_vcores s) c"

lemma thief_missed_ok:
  assumes "pvcq_inv (hand_of (Check v w) \<union> H) s" and "hand_of (Check v w) \<inter> H = {}" and "0 < max_vcores s"
  shows "thief_ok me H (thief_missed me s v w) s"
  using assms thief_missed_wf [OF assms(3)]
  by (cases w) (auto simp: thief_ok_def next_victim_def scan_at_def)

lemma steal_more_ok:
  assumes "pvcq_inv (insert hand H) s" and "hand \<notin> H" and "0 \<le> v" "v < max_vcores s"
  shows "thief_ok me H (steal_more v scan n hand) s"
  using assms steal_more_wf by (simp add: thief_ok_def steal_more_def)

lemma thief_got_ok:
  assumes "pvcq_inv (insert t (hand_of (Check v w) \<union> H)) s" and "t \<notin> hand_of (Check v w) \<union> H"
    and "hand_of (Check v w) \<inter> H = {}" and "0 \<le> v" "v < max_vcores s" and "purpose_wf me v w"
  shows "thief_ok me H (thief_got t v w) s"
  using assms steal_more_ok [of t H s v] by (cases w) (auto simp: thief_ok_def)

lemma hand_of_Pop [simp]: "hand_of (Pop v w) = hand_of (Check v w)"
  by (cases w) simp_all


lemma thief_step_sound:
  assumes ok: "thief_ok me H c s" and c: "in_call c" and me: "0 \<le> me" "me < max_vcores s"
    and n: "0 < n" "n \<le> max_vcores s" and rnd: "\<forall>x. 0 \<le> fst (rand_r x)"
  shows "\<exists>c' s'. thief_step rand_r n me c s = Some (c', s') \<and> pvcq_same s s' \<and> thief_ok me H c' s'"
proof -
  have inv: "pvcq_inv (hand_of c \<union> H) s" and dis: "hand_of c \<inter> H = {}" and wf: "thief_wf me (max_vcores s) c"
    using ok by (simp_all add: thief_ok_def)
  have m: "0 < max_vcores s" using me by linarith
  show ?thesis
  proof (cases c)
    case (Check v w)
    with wf have v: "0 \<le> v" "v < max_vcores s" by simp_all
    then obtain x where x: "vc_get v s = Some x" using vc_get_defined by blast
    have "thief_ok me H (Pop v w) s" using ok Check by (simp add: thief_ok_def)
    moreover have "thief_ok me H (thief_missed me s v w) s"
      using inv dis Check by (intro thief_missed_ok m) simp_all
    ultimately show ?thesis using Check x by simp
  next
    case (Pop v w)
    with wf have v: "0 \<le> v" "v < max_vcores s" "purpose_wf me v w" by simp_all
    then obtain x where x: "vc_get v s = Some x" using vc_get_defined by blast
    from tdequeue_cs_spec [OF inv me x] show ?thesis
    proof (elim disjE exE conjE)
      assume "tdequeue_cs me v s = Some (None, s)"
      moreover have "thief_ok me H (thief_missed me s v w) s"
        using inv dis Pop by (intro thief_missed_ok m) simp_all
      ultimately show ?thesis using Pop by simp
    next
      fix t s'
      assume t: "tdequeue_cs me v s = Some (Some t, s')" "pvcq_same s s'" "t \<notin> hand_of c \<union> H"
        "pvcq_inv (insert t (hand_of c \<union> H)) s'"
      have "thief_ok me H (thief_got t v w) s'"
        using t(3,4) dis v Pop pvcq_same_max [OF t(2)] by (intro thief_got_ok) simp_all
      with t(1,2) Pop show ?thesis by simp
    qed
  next
    case Draw
    with inv have "pvcq_inv H s" by simp
    from rand_vcore_spec [OF this me n(1) rnd] obtain d s' where
      "rand_vcore rand_r n me s = Some (d, s')" "0 \<le> d" "d < n" "pvcq_same s s'" "pvcq_inv H s'" by blast
    with Draw n(2) pvcq_same_max show ?thesis by (fastforce simp: thief_ok_def)
  next
    case (Draw_again d0)
    with inv have "pvcq_inv H s" by simp
    from rand_vcore_spec [OF this me n(1) rnd] obtain d s' where
      "rand_vcore rand_r n me s = Some (d, s')" "0 \<le> d" "d < n" "pvcq_same s s'" "pvcq_inv H s'" by blast
    with Draw_again wf n(2) pvcq_same_max show ?thesis by (fastforce simp: thief_ok_def)
  next
    case (Read_size a b)
    with wf obtain x where "vc_get a s = Some x" using vc_get_defined by auto
    with Read_size ok show ?thesis by (simp add: thief_ok_def)
  next
    case (Read_other a b k)
    with wf obtain x where "vc_get b s = Some x" using vc_get_defined by auto
    with Read_other ok show ?thesis by (simp add: thief_ok_def Let_def)
  next
    case (Count v scan)
    with wf obtain x where "vc_get v s = Some x" using vc_get_defined by auto
    moreover have "thief_ok me H (next_victim me s v scan) s"
      using Count inv next_victim_wf [OF m] by (simp add: thief_ok_def next_victim_def scan_at_def)
    ultimately show ?thesis using Count ok by (simp add: thief_ok_def Let_def)
  next
    case (Put u v scan k hand)
    with wf dis have u: "u \<notin> insert hand H" "0 \<le> v" "v < max_vcores s" by simp_all
    from Put inv have "pvcq_inv (insert u (insert hand H)) s" by simp
    from enqueue_in_hand [OF this u(1), of False] obtain i s' where e: "pvcq_enqueue u False s = Some (i, s')"
      "pvcq_inv (insert hand H) s'" "pvcq_same s s'" by blast
    have "thief_ok me H (steal_more v scan (k - 1) hand) s'"
      using e u Put dis pvcq_same_max [OF e(3)] by (intro steal_more_ok) simp_all
    with e Put show ?thesis by simp
  qed (use c ok in \<open>simp_all add: thief_ok_def\<close>)
qed

text \<open>A call made while others hold threads starts well-formed, and a thread it returned is made to run.\<close>

lemma run_in_hand:
  assumes held: "pvcq_held (insert t H) s" and t: "t \<notin> H"
  shows "\<exists>s'. set_state t UPTH_RUNNING s = Some s' \<and> pvcq_held H s'"
proof -
  have inv: "pvcq_inv (insert t H) s" and jok: "join_ok (pvcq_live s)" using held by (simp_all add: pvcq_ok_def)
  from pvcq_run_inv [OF inv t] obtain p s' where p: "tcbs (pvcq_live s) t = Some p" "tcb_state p = UPTH_RUNNABLE"
    "set_state t UPTH_RUNNING s = Some s'" "pvcq_inv H s'"
    "tcbs (pvcq_live s') = (tcbs (pvcq_live s))(t \<mapsto> p\<lparr>tcb_state := UPTH_RUNNING\<rparr>)" by blast
  have "join_ok (pvcq_live s') \<and> blocked_threads (pvcq_live s') = blocked_threads (pvcq_live s)"
    by (rule neutral_step [OF jok p(1,5)]) (use p(2) in simp_all)
  with p(3,4) show ?thesis by (simp add: pvcq_ok_def)
qed

section \<open>Any number of vcores\<close>

text \<open>\<open>th_pc\<close> is where each vcore is; an index that is no vcore stays idle.\<close>

record thieves =
  th_sched :: pvcq
  th_pc :: "int \<Rightarrow> thief"

definition is_vcore :: "thieves \<Rightarrow> int \<Rightarrow> bool" where
  "is_vcore T me \<longleftrightarrow> 0 \<le> me \<and> me < max_vcores (th_sched T)"

definition at_pc :: "thieves \<Rightarrow> int \<Rightarrow> thief \<Rightarrow> pvcq \<Rightarrow> thieves" where
  "at_pc T me c s = T\<lparr>th_sched := s, th_pc := (th_pc T)(me := c)\<rparr>"

inductive thieves_step :: "thieves \<Rightarrow> thieves \<Rightarrow> bool" where
  th_move: "pvcq_step (th_sched T) s' \<Longrightarrow> thieves_step T (T\<lparr>th_sched := s'\<rparr>)"
| th_look: "is_vcore T me \<Longrightarrow> th_pc T me = Idle \<Longrightarrow>
    thieves_step T (at_pc T me (Check me Own_queue) (th_sched T))"
| th_act: "is_vcore T me \<Longrightarrow> 0 < n \<Longrightarrow> n \<le> max_vcores (th_sched T) \<Longrightarrow> \<forall>x. 0 \<le> fst (rand_r x) \<Longrightarrow>
    thief_step rand_r n me (th_pc T me) (th_sched T) = Some (c, s') \<Longrightarrow> thieves_step T (at_pc T me c s')"
| th_run: "th_pc T me = Done (Some t) \<Longrightarrow> set_state t UPTH_RUNNING (th_sched T) = Some s' \<Longrightarrow>
    thieves_step T (at_pc T me Idle s')"
| th_none: "th_pc T me = Done None \<Longrightarrow> thieves_step T (at_pc T me Idle (th_sched T))"

definition thieves_init :: "thieves \<Rightarrow> bool" where
  "thieves_init T \<longleftrightarrow> pvcq_init (th_sched T) \<and> th_pc T = (\<lambda>_. Idle)"

text \<open>What vcores other than \<open>me\<close> have in hand.\<close>

definition others :: "thieves \<Rightarrow> int \<Rightarrow> upthread_t set" where
  "others T me = (\<Union>x \<in> - {me}. hand_of (th_pc T x))"

definition hands :: "thieves \<Rightarrow> upthread_t set" where
  "hands T = (\<Union>x. hand_of (th_pc T x))"

definition thieves_inv :: "thieves \<Rightarrow> bool" where
  "thieves_inv T \<longleftrightarrow> pvcq_held (hands T) (th_sched T) \<and>
     (\<forall>me. hand_of (th_pc T me) \<inter> others T me = {}) \<and>
     (\<forall>me. if is_vcore T me then thief_wf me (max_vcores (th_sched T)) (th_pc T me) else th_pc T me = Idle)"

lemma hands_split: "hands T = hand_of (th_pc T me) \<union> others T me"
  by (auto simp: hands_def others_def)

lemma at_pc_simps [simp]:
  "th_sched (at_pc T me c s) = s" "th_pc (at_pc T me c s) = (th_pc T)(me := c)"
  by (simp_all add: at_pc_def)

lemma others_at_pc [simp]: "others (at_pc T me c s) me = others T me"
  by (auto simp: others_def)

text \<open>One vcore moves on: the others see nothing of it but its hand.\<close>

lemma at_pc_inv:
  assumes inv: "thieves_inv T" and "is_vcore T me" and max: "max_vcores s = max_vcores (th_sched T)"
    and "thief_ok me (others T me) c s" and "join_ok (pvcq_live s)"
  shows "thieves_inv (at_pc T me c s)"
proof -
  let ?T = "at_pc T me c s"
  have c: "pvcq_inv (hand_of c \<union> others T me) s" "hand_of c \<inter> others T me = {}"
    "thief_wf me (max_vcores s) c" using assms(4) by (simp_all add: thief_ok_def)
  have "hands ?T = hand_of c \<union> others T me" using hands_split [of ?T me] by simp
  with c(1) assms(5) have "pvcq_held (hands ?T) (th_sched ?T)" by (simp add: pvcq_ok_def)
  moreover have "hand_of (th_pc ?T x) \<inter> others ?T x = {}" for x
  proof (cases "x = me")
    case False
    have "hand_of (th_pc T x) \<inter> others T x = {}" using inv by (simp add: thieves_inv_def)
    with False c(2) show ?thesis by (auto simp: others_def disjoint_iff split: if_splits)
  qed (use c(2) in simp)
  moreover have "if is_vcore ?T x then thief_wf x (max_vcores (th_sched ?T)) (th_pc ?T x) else th_pc ?T x = Idle" for x
    using inv c(3) max assms(2) by (auto simp: thieves_inv_def is_vcore_def split: if_splits)
  ultimately show ?thesis unfolding thieves_inv_def by blast
qed

lemma thieves_invE:
  assumes "thieves_inv T"
  obtains "pvcq_held (hand_of (th_pc T me) \<union> others T me) (th_sched T)"
    and "pvcq_inv (hand_of (th_pc T me) \<union> others T me) (th_sched T)" and "join_ok (pvcq_live (th_sched T))"
    and "is_vcore T me \<Longrightarrow> thief_ok me (others T me) (th_pc T me) (th_sched T)"
    and "hand_of (th_pc T me) \<inter> others T me = {}"
    and "th_pc T me \<noteq> Idle \<Longrightarrow> is_vcore T me"
proof -
  have h: "pvcq_held (hand_of (th_pc T me) \<union> others T me) (th_sched T)" "hand_of (th_pc T me) \<inter> others T me = {}"
    "if is_vcore T me then thief_wf me (max_vcores (th_sched T)) (th_pc T me) else th_pc T me = Idle"
    using assms unfolding thieves_inv_def hands_split [of T me] by simp_all
  with that show thesis by (simp add: pvcq_ok_def thief_ok_def split: if_splits)
qed


lemma thieves_step_inv: "thieves_step T T' \<Longrightarrow> thieves_inv T \<Longrightarrow> thieves_inv T'"
proof (induction rule: thieves_step.induct)
  case (th_move T s')
  have "pvcq_held (hands T) s'"
    using pvcq_held_sched.sched_step_inv [OF th_move.hyps] th_move.prems by (simp add: thieves_inv_def)
  with th_move.prems pvcq_step_max [OF th_move.hyps] show ?case
    by (simp add: thieves_inv_def hands_def others_def is_vcore_def)
next
  case (th_look T me)
  from th_look.prems obtain "thief_ok me (others T me) (th_pc T me) (th_sched T)" "join_ok (pvcq_live (th_sched T))"
    using thieves_invE [of T me] th_look.hyps(1) by metis
  with th_look.hyps th_look.prems show ?case
    by (intro at_pc_inv) (simp_all add: thief_ok_def is_vcore_def)
next
  case (th_act T me n rand_r c s')
  from th_act.prems obtain ok: "thief_ok me (others T me) (th_pc T me) (th_sched T)"
    and jok: "join_ok (pvcq_live (th_sched T))" using thieves_invE [of T me] th_act.hyps(1) by metis
  have "in_call (th_pc T me)" using th_act.hyps(5) by (cases "th_pc T me") simp_all
  from thief_step_sound [OF ok this _ _ th_act.hyps(2-4)] th_act.hyps(1,5)
  have s': "pvcq_same (th_sched T) s'" "thief_ok me (others T me) c s'" by (auto simp: is_vcore_def)
  show ?case
    by (rule at_pc_inv [OF th_act.prems th_act.hyps(1) _ s'(2)])
      (simp_all add: pvcq_same_max [OF s'(1)] pvcq_same_ok(1) [OF s'(1) jok])
next
  case (th_run T me t s')
  from th_run.prems have held: "pvcq_held (insert t (others T me)) (th_sched T)" and t: "t \<notin> others T me"
    and me: "is_vcore T me" using thieves_invE [of T me] th_run.hyps(1) by force+
  from run_in_hand [OF held t] th_run.hyps(2) have "pvcq_held (others T me) s'" by simp
  then show ?case
    using set_state_max [OF th_run.hyps(2)]
    by (intro at_pc_inv [OF th_run.prems me]) (simp_all add: thief_ok_def pvcq_ok_def)
next
  case (th_none T me)
  from th_none.prems obtain "thief_ok me (others T me) (th_pc T me) (th_sched T)" "join_ok (pvcq_live (th_sched T))"
    "is_vcore T me" using thieves_invE [of T me] th_none.hyps(1) by force
  with th_none show ?case by (intro at_pc_inv) (simp_all add: thief_ok_def)
qed

lemma thieves_reachable_inv: "reachable thieves_init thieves_step T \<Longrightarrow> thieves_inv T"
proof (erule reachable_invariant)
  fix T assume "thieves_init T"
  then have "pvcq_ok (th_sched T)" "th_pc T = (\<lambda>_. Idle)" using pvcq_init_ok by (simp_all add: thieves_init_def)
  then show "thieves_inv T" by (simp add: thieves_inv_def hands_def others_def)
qed (rule thieves_step_inv)

section \<open>A race of two vcores\<close>

text \<open>The accesses of the vcores listed, one each, with the random numbers of the small execution.\<close>

definition thieves_act :: "int \<Rightarrow> thieves \<Rightarrow> thieves option" where
  "thieves_act me T =
     (if th_pc T me = Idle then Some (at_pc T me (Check me Own_queue) (th_sched T))
      else do {
        (c, s) \<leftarrow> thief_step (pl_rand_r demo_platform) 2 me (th_pc T me) (th_sched T);
        Some (at_pc T me c s)
      })"

fun thieves_run :: "int list \<Rightarrow> thieves \<Rightarrow> thieves option" where
  "thieves_run [] T = Some T"
| "thieves_run (me # mes) T = Option.bind (thieves_act me T) (thieves_run mes)"

lemma thieves_act_step:
  assumes "thieves_act me T = Some T'" and "0 \<le> me" "me < 2" and "max_vcores (th_sched T) = 2"
  shows "thieves_step T T' \<and> max_vcores (th_sched T') = 2"
proof (cases "th_pc T me = Idle")
  case True
  with assms th_look [of T me] show ?thesis by (auto simp: thieves_act_def is_vcore_def)
next
  case False
  with assms(1) obtain c s where
    "thief_step (pl_rand_r demo_platform) 2 me (th_pc T me) (th_sched T) = Some (c, s)" "T' = at_pc T me c s"
    by (auto simp: thieves_act_def bind_eq_Some_conv)
  with assms(2-4) th_act [of T me 2, OF _ _ _ demo_rand] thief_step_max show ?thesis by (auto simp: is_vcore_def)
qed

lemma thieves_run_reachable:
  assumes "reachable thieves_init thieves_step T" and "thieves_run mes T = Some T'"
    and "\<forall>me \<in> set mes. 0 \<le> me \<and> me < 2" and "max_vcores (th_sched T) = 2"
  shows "reachable thieves_init thieves_step T'"
  using assms
proof (induction mes arbitrary: T)
  case (Cons me mes)
  then obtain T1 where T1: "thieves_act me T = Some T1" "thieves_run mes T1 = Some T'"
    by (auto simp: bind_eq_Some_conv)
  with Cons.prems thieves_act_step [OF T1(1)] Cons.IH [OF _ T1(2)] show ?case by (auto intro: reach_step)
qed simp

lemma nobody_looking:
  "reachable pvcq_init pvcq_step s \<Longrightarrow> reachable thieves_init thieves_step \<lparr>th_sched = s, th_pc = \<lambda>_. Idle\<rparr>"
proof (induction rule: reachable.induct)
  case (reach_init s)
  then show ?case by (intro reachable.reach_init) (simp add: thieves_init_def)
next
  case (reach_step s s')
  from reachable.reach_step [OF reach_step.IH th_move, of s'] reach_step.hyps(2) show ?case by simp
qed

text \<open>Vcore 0 has chosen the queue of vcore 1 and counted two threads on it when vcore 1 takes one of
  them itself.\<close>

definition th_race :: "thieves option" where
  "th_race = thieves_run [0, 0, 0, 0, 0, 0, 0, 0, 0, 1, 1, 1, 0] \<lparr>th_sched = pv_two, th_pc = \<lambda>_. Idle\<rparr>"

lemma th_race:
  "map_option (\<lambda>T. (th_pc T 0, th_pc T 1)) th_race = Some (Done (Some 20975360), Done (Some 6295360))"
  "max_vcores pv_two = 2"
  by code_simp+

section \<open>Properties\<close>

text \<open>
  C5: However many vcores look for work at the same time, stealing from each other's queues access by
  access while running threads create, yield, block, join and exit, no thread is lost or doubled. The
  queues together hold no thread twice, no two vcores have the same thread in hand and none of those is
  on a queue; and a live thread is marked runnable exactly if it is on a queue or in a hand. And no
  vcore is ever stuck in the middle of a search: whatever the others did, its next access is defined.
\<close>

theorem thieves_sound:
  assumes "reachable thieves_init thieves_step T"
  shows "distinct (pvcq_queued (th_sched T)) \<and>
    (\<forall>me. hand_of (th_pc T me) \<inter> pvcq_links (th_sched T) = {}) \<and>
    (\<forall>me me'. me \<noteq> me' \<longrightarrow> hand_of (th_pc T me) \<inter> hand_of (th_pc T me') = {}) \<and>
    (\<forall>t. state_of (pvcq_live (th_sched T)) t = Some UPTH_RUNNABLE \<longleftrightarrow>
       t \<in> pvcq_links (th_sched T) \<or> (\<exists>me. t \<in> hand_of (th_pc T me))) \<and>
    (\<forall>me n rand_r. in_call (th_pc T me) \<longrightarrow> 0 < n \<longrightarrow> n \<le> max_vcores (th_sched T) \<longrightarrow>
       (\<forall>x. 0 \<le> fst (rand_r x)) \<longrightarrow> thief_step rand_r n me (th_pc T me) (th_sched T) \<noteq> None)"
proof (intro conjI allI impI)
  have inv: "thieves_inv T" by (rule thieves_reachable_inv [OF assms])
  then have h: "pvcq_inv (hands T) (th_sched T)" by (simp add: thieves_inv_def pvcq_ok_def)
  show "distinct (pvcq_queued (th_sched T))" using h by (simp add: pvcq_inv_def)
  show "hand_of (th_pc T me) \<inter> pvcq_links (th_sched T) = {}" for me
    using h by (auto simp: pvcq_inv_def hands_def)
  show "hand_of (th_pc T me) \<inter> hand_of (th_pc T me') = {}" if "me \<noteq> me'" for me me'
  proof -
    have "hand_of (th_pc T me) \<inter> others T me = {}" using inv by (simp add: thieves_inv_def)
    with that show ?thesis by (auto simp: others_def)
  qed
  show "state_of (pvcq_live (th_sched T)) t = Some UPTH_RUNNABLE \<longleftrightarrow>
      t \<in> pvcq_links (th_sched T) \<or> (\<exists>me. t \<in> hand_of (th_pc T me))" for t
    using h by (simp add: pvcq_inv_def hands_def)
  show "thief_step rand_r n me (th_pc T me) (th_sched T) \<noteq> None"
    if c: "in_call (th_pc T me)" "0 < n" "n \<le> max_vcores (th_sched T)" "\<forall>x. 0 \<le> fst (rand_r x)" for me n rand_r
  proof -
    have "th_pc T me \<noteq> Idle" using c(1) by auto
    with inv have me: "is_vcore T me" unfolding thieves_inv_def by metis
    with inv have ok: "thief_ok me (others T me) (th_pc T me) (th_sched T)" using thieves_invE [of T me] by metis
    from thief_step_sound [OF ok c(1) _ _ c(2-4)] me show ?thesis by (auto simp: is_vcore_def)
  qed
qed

theorem thieves_sound_witness:
  "\<exists>T. th_race = Some T \<and> hand_of (th_pc T 0) = {20975360} \<and> hand_of (th_pc T 1) = {6295360} \<and>
     (\<forall>t. state_of (pvcq_live (th_sched T)) t = Some UPTH_RUNNABLE \<longleftrightarrow>
        t \<in> pvcq_links (th_sched T) \<or> (\<exists>me. t \<in> hand_of (th_pc T me)))"
proof -
  from th_race(1) obtain T where T: "th_race = Some T" "th_pc T 0 = Done (Some 20975360)"
    "th_pc T 1 = Done (Some 6295360)" by auto
  have "reachable thieves_init thieves_step T"
    using thieves_run_reachable [OF nobody_looking [OF pv_two_reachable] T(1) [unfolded th_race_def]] th_race(2)
    by simp
  from thieves_sound [OF this] T show ?thesis by (intro exI [of _ T]) simp
qed



text \<open>
  C14: A search for work ends whatever the other vcores do meanwhile: between its own accesses the
  state may be changed at will, and still no vcore can make infinitely many of them in one call. In
  particular the scan over all vcores stops, and so does a theft from a queue that grows behind it.
\<close>

theorem thief_terminates:
  assumes "0 \<le> me" and "me < m"
  shows "wf {(c', c). thief_wf me m c \<and>
    (\<exists>rand_r n s s'. max_vcores s = m \<and> thief_step rand_r n me c s = Some (c', s'))}"
proof (rule wf_subset)
  show "wf (inv_image rank_less (thief_rank me m))" by (intro wf_inv_image wf_lex_prod) simp_all
  show "{(c', c). thief_wf me m c \<and>
      (\<exists>rand_r n s s'. max_vcores s = m \<and> thief_step rand_r n me c s = Some (c', s'))} \<subseteq>
      inv_image rank_less (thief_rank me m)"
    using assms thief_step_max thief_step_rank by (auto simp: in_inv_image)
qed

theorem thief_terminates_witness:
  "wf {(c', c). thief_wf 0 2 c \<and>
    (\<exists>rand_r n s s'. max_vcores s = 2 \<and> thief_step rand_r n 0 c s = Some (c', s'))}"
  by (rule thief_terminates) simp_all

end
