(* ===== verification/Lithe_Join.thy ===== *)
theory Lithe_Join
  imports Lithe_Threads
begin

text \<open>
  The join protocol of the Lithe variant in every interleaving: what Lithe knows of a context
  (whether it may run, is blocked, or has exited) changes with the calls the code makes, and
  the joiner slots follow the discipline of \<^verbatim>\<open>Join_State\<close>.
\<close>

section \<open>Executions\<close>

text \<open>\<open>ly_phase\<close> is Lithe's view of a context: \<open>UPTH_RUNNABLE\<close> or \<open>UPTH_RUNNING\<close>, blocked
  (\<open>UPTH_BLK_JOINING\<close>), or exited; \<open>None\<close> when there is no such context.\<close>

record lithe_sys =
  ly :: lithe_up
  ly_phase :: "upthread_t \<Rightarrow> upth_state option"

text \<open>The contexts that a step unblocked, from the calls it made.\<close>

definition new_unblocks :: "lithe_up \<Rightarrow> lithe_up \<Rightarrow> upthread_t set" where
  "new_unblocks s s' = set (concat (map (\<lambda>c. case c of ContextUnblock w \<Rightarrow> [w] | _ \<Rightarrow> [])
     (drop (length (lithe_calls s)) (lithe_calls s'))))"

definition after_calls ::
  "lithe_up \<Rightarrow> lithe_up \<Rightarrow> (upthread_t \<Rightarrow> upth_state option) \<Rightarrow> upthread_t \<Rightarrow> upth_state option" where
  "after_calls s s' ph = (\<lambda>y. if y \<in> new_unblocks s s' then Some UPTH_RUNNABLE else ph y)"

text \<open>
  A join is by one thread at a time on a thread that is not itself, and the thread that joins runs
  the second half after it was resumed; \<open>malloc\<close>, here \<open>mmap\<close> and the pool, never gives a block in use.
  A thread is detached before anybody joins it (a TODO in the code names the race).
\<close>

inductive lithe_step :: "lithe_sys \<Rightarrow> lithe_sys \<Rightarrow> bool" where
  l_run: "ly_phase Y t = Some UPTH_RUNNABLE \<Longrightarrow>
    lithe_step Y (Y\<lparr>ly_phase := (ly_phase Y)(t \<mapsto> UPTH_RUNNING)\<rparr>)"
| l_yield: "ly_phase Y t = Some UPTH_RUNNING \<Longrightarrow>
    lithe_step Y (Y\<lparr>ly_phase := (ly_phase Y)(t \<mapsto> UPTH_RUNNABLE)\<rparr>)"
| l_create: "platform_ok pl \<Longrightarrow> ctxs (ly Y) t = None \<or> t \<in> set (context_zombie_list (ly Y)) \<Longrightarrow>
    lithe_upthread_create pl mmap r n attr start arg (ly Y) = Some (v, t, s') \<Longrightarrow>
    lithe_step Y (Y\<lparr>ly := s', ly_phase := (ly_phase Y)(t \<mapsto> UPTH_RUNNABLE)\<rparr>)"
| l_join: "ly_phase Y t = Some UPTH_RUNNING \<Longrightarrow> x \<noteq> t \<Longrightarrow> ly_phase Y x \<noteq> None \<Longrightarrow>
    ctxs (ly Y) x = Some c \<Longrightarrow> \<not> lc_detached c \<Longrightarrow>
    lc_joiner c = None \<or> ly_phase Y x = Some UPTH_EXITING \<Longrightarrow>
    lithe_pth_join_cb t x (ly Y) = Some s' \<Longrightarrow>
    lithe_step Y (Y\<lparr>ly := s', ly_phase := after_calls (ly Y) s' ((ly_phase Y)(t \<mapsto> UPTH_BLK_JOINING))\<rparr>)"
| l_joined: "platform_ok pl \<Longrightarrow> ly_phase Y t = Some UPTH_RUNNING \<Longrightarrow> ly_phase Y x = Some UPTH_EXITING \<Longrightarrow>
    lithe_join_finish pl x (ly Y) = Some (r, v, s') \<Longrightarrow>
    lithe_step Y (Y\<lparr>ly := s', ly_phase := (ly_phase Y)(x := None)\<rparr>)"
| l_exit: "platform_ok pl \<Longrightarrow> ly_phase Y t = Some UPTH_RUNNING \<Longrightarrow>
    lithe_upthread_exit ret t (ly Y) = Some s1 \<Longrightarrow> lithe_context_exit pl t s1 = Some s' \<Longrightarrow>
    ctxs s1 t = Some c \<Longrightarrow>
    lithe_step Y (Y\<lparr>ly := s', ly_phase := after_calls (ly Y) s'
      ((ly_phase Y)(t := (if lc_detached c then None else Some UPTH_EXITING)))\<rparr>)"
| l_detach: "ly_phase Y x \<noteq> None \<Longrightarrow> ctxs (ly Y) x = Some c \<Longrightarrow> lc_joiner c = None \<Longrightarrow>
    lithe_upthread_detach x (ly Y) = Some (r, s') \<Longrightarrow> lithe_step Y (Y\<lparr>ly := s'\<rparr>)"

definition lithe_init :: "lithe_sys \<Rightarrow> bool" where
  "lithe_init Y \<longleftrightarrow> (\<exists>t c. ly Y = lithe_upthread_lib_init t c \<and> ly_phase Y = [t \<mapsto> UPTH_RUNNING])"

section \<open>The invariant\<close>

text \<open>The slots, with Lithe's view of the threads, as control blocks.\<close>

definition lithe_block :: "upth_state \<Rightarrow> lithe_context \<Rightarrow> upthread_tcb" where
  "lithe_block st c = tcb_zero\<lparr>tcb_state := st, tcb_joiner := lc_joiner c, tcb_detached := lc_detached c\<rparr>"

lemma lithe_block_simps [simp]:
  "tcb_state (lithe_block st c) = st" "tcb_joiner (lithe_block st c) = lc_joiner c"
  "tcb_detached (lithe_block st c) = lc_detached c"
  "(lithe_block st c)\<lparr>tcb_state := st'\<rparr> = lithe_block st' c"
  "(lithe_block st c)\<lparr>tcb_joiner := w\<rparr> = lithe_block st (c\<lparr>lc_joiner := w\<rparr>)"
  by (simp_all add: lithe_block_def)

definition lithe_view :: "lithe_sys \<Rightarrow> sched_globals" where
  "lithe_view Y =
     \<lparr>tcbs = (\<lambda>t. case ly_phase Y t of None \<Rightarrow> None | Some st \<Rightarrow> map_option (lithe_block st) (ctxs (ly Y) t)),
      u_data = (\<lambda>_. None), can_adjust_vcores = False, max_spin_count = 0, next_pid = 0, calls = []\<rparr>"

definition lithe_ok :: "lithe_sys \<Rightarrow> bool" where
  "lithe_ok Y \<longleftrightarrow>
     join_ok (lithe_view Y) \<and> (\<forall>t. ly_phase Y t \<noteq> None \<longrightarrow> ctxs (ly Y) t \<noteq> None) \<and>
     (\<forall>t \<in> set (context_zombie_list (ly Y)). ly_phase Y t = None \<and> ctxs (ly Y) t \<noteq> None) \<and>
     distinct (context_zombie_list (ly Y)) \<and>
     (\<forall>t. ly_phase Y t \<in> {None, Some UPTH_RUNNABLE, Some UPTH_RUNNING, Some UPTH_BLK_JOINING, Some UPTH_EXITING})"

lemma lithe_view_tcbs:
  "tcbs (lithe_view Y) t = (case ly_phase Y t of None \<Rightarrow> None | Some st \<Rightarrow> map_option (lithe_block st) (ctxs (ly Y) t))"
  by (simp add: lithe_view_def)

lemma lithe_view_Some:
  "ly_phase Y t = Some st \<Longrightarrow> ctxs (ly Y) t = Some c \<Longrightarrow> tcbs (lithe_view Y) t = Some (lithe_block st c)"
  by (simp add: lithe_view_tcbs)

text \<open>The free list.\<close>

lemma ctx_free_cases:
  assumes "platform_ok pl" and "ctx_free pl t s = Some s'"
  shows "(mset (context_zombie_list s') = add_mset t (mset (context_zombie_list s)) \<and> ctxs s' = ctxs s \<and>
      lithe_calls s' = lithe_calls s) \<or>
    (context_zombie_list s' = context_zombie_list s \<and> ctxs s' = (ctxs s)(t := None) \<and>
      (\<exists>a n. lithe_calls s' = lithe_calls s @ [LitheMunmap a n]))"
  using assms by (auto simp: ctx_free_def platform_ok_def lext_def Let_def bind_Some_conv split: if_splits)

lemma ctx_alloc_cases:
  assumes "platform_ok pl" and "ctx_alloc pl mmap r n z s = Some (t, s')"
  shows "(mset (context_zombie_list s) = add_mset t (mset (context_zombie_list s')) \<and> ctxs s' = ctxs s) \<or>
    (context_zombie_list s = [] \<and> context_zombie_list s' = [] \<and> (\<exists>c. ctxs s' = (ctxs s)(t \<mapsto> c)))"
  using assms
  by (auto simp: ctx_alloc_def platform_ok_def Let_def bind_Some_conv split: option.splits if_splits)

section \<open>Every step keeps it\<close>


lemma lithe_okI:
  assumes "join_ok (lithe_view Y)" and "\<And>t. ly_phase Y t \<noteq> None \<Longrightarrow> ctxs (ly Y) t \<noteq> None"
    and "\<And>t. t \<in> set (context_zombie_list (ly Y)) \<Longrightarrow> ly_phase Y t = None \<and> ctxs (ly Y) t \<noteq> None"
    and "distinct (context_zombie_list (ly Y))"
    and "\<And>t. ly_phase Y t \<in> {None, Some UPTH_RUNNABLE, Some UPTH_RUNNING, Some UPTH_BLK_JOINING, Some UPTH_EXITING}"
  shows "lithe_ok Y"
  unfolding lithe_ok_def using assms by blast

lemma lithe_okD:
  assumes "lithe_ok Y"
  shows "join_ok (lithe_view Y)" and "ly_phase Y t \<noteq> None \<Longrightarrow> \<exists>c. ctxs (ly Y) t = Some c"
    and "t \<in> set (context_zombie_list (ly Y)) \<Longrightarrow> ly_phase Y t = None \<and> ctxs (ly Y) t \<noteq> None"
    and "distinct (context_zombie_list (ly Y))"
    and "ly_phase Y t \<in> {None, Some UPTH_RUNNABLE, Some UPTH_RUNNING, Some UPTH_BLK_JOINING, Some UPTH_EXITING}"
  using assms unfolding lithe_ok_def by blast+

lemma lithe_view_upd:
  assumes "ly_phase Y' = (ly_phase Y)(t \<mapsto> st)" and "ctxs (ly Y') = (ctxs (ly Y))(t \<mapsto> c)"
  shows "tcbs (lithe_view Y') = (tcbs (lithe_view Y))(t \<mapsto> lithe_block st c)"
  using assms by (auto simp: lithe_view_tcbs fun_eq_iff split: option.splits)

lemma lithe_view_drop:
  assumes "ly_phase Y' = (ly_phase Y)(t := None)" and "\<And>y. y \<noteq> t \<Longrightarrow> ctxs (ly Y') y = ctxs (ly Y) y"
  shows "tcbs (lithe_view Y') = (tcbs (lithe_view Y))(t := None)"
  using assms by (auto simp: lithe_view_tcbs fun_eq_iff split: option.splits)

text \<open>A context that may run goes on running, or is put off.\<close>

lemma lithe_ok_toggle:
  assumes ok: "lithe_ok Y" and t: "ly_phase Y t = Some st" "st \<in> {UPTH_RUNNABLE, UPTH_RUNNING}"
    and st': "st' \<in> {UPTH_RUNNABLE, UPTH_RUNNING}"
  shows "lithe_ok (Y\<lparr>ly_phase := (ly_phase Y)(t \<mapsto> st')\<rparr>)" (is "lithe_ok ?Y")
proof -
  note d = lithe_okD [OF ok]
  obtain c where c: "ctxs (ly Y) t = Some c" using d(2) [of t] t by auto
  have "tcbs (lithe_view ?Y) = (tcbs (lithe_view Y))(t \<mapsto> lithe_block st' c)"
    by (rule lithe_view_upd) (use c in \<open>auto simp: fun_eq_iff\<close>)
  then have j: "join_ok (lithe_view ?Y)"
    by (rule join_ok_neutral_upd [OF d(1) lithe_view_Some [OF t(1) c]]) (use t st' in auto)
  have z: "t \<notin> set (context_zombie_list (ly Y))" using d(3) [of t] t by auto
  show ?thesis by (rule lithe_okI [OF j]) (use d z st' c in \<open>auto split: if_splits\<close>)
qed

lemma lithe_ok_create:
  assumes ok: "lithe_ok Y" and pl: "platform_ok pl"
    and t: "ctxs (ly Y) t = None \<or> t \<in> set (context_zombie_list (ly Y))"
    and run: "lithe_upthread_create pl mmap r n attr start arg (ly Y) = Some (v, t, s')"
  shows "lithe_ok (Y\<lparr>ly := s', ly_phase := (ly_phase Y)(t \<mapsto> UPTH_RUNNABLE)\<rparr>)" (is "lithe_ok ?Y")
proof -
  note d = lithe_okD [OF ok]
  define c where "c = the (ctxs s' t)"
  from run obtain z s1 where a: "ctx_alloc pl mmap r n z (ly Y) = Some (t, s1)"
    and c: "ctxs s' = (ctxs s1)(t \<mapsto> c)" "lc_joiner c = None"
    and z: "context_zombie_list s' = context_zombie_list s1"
    unfolding c_def by (auto simp: lithe_upthread_create_def Let_def bind_Some_conv ctx_upd_def lext_def)
  have none: "ly_phase Y t = None"
    by (cases "ly_phase Y t") (use t d(2) [of t] d(3) [of t] in auto)
  have ctx: "ctxs s' = (ctxs (ly Y))(t \<mapsto> c)"
    using ctx_alloc_cases [OF pl a] c(1) by auto
  have zs: "set (context_zombie_list s') \<subseteq> set (context_zombie_list (ly Y)) - {t}" "distinct (context_zombie_list s')"
  proof -
    have "distinct (context_zombie_list s1) \<and> set (context_zombie_list s1) \<subseteq> set (context_zombie_list (ly Y)) - {t}"
      using ctx_alloc_cases [OF pl a]
    proof
      assume m: "mset (context_zombie_list (ly Y)) = add_mset t (mset (context_zombie_list s1)) \<and> ctxs s1 = ctxs (ly Y)"
      then have "distinct (t # context_zombie_list s1)"
        using d(4) by (metis mset.simps(2) mset_eq_imp_distinct_iff)
      moreover have "set (context_zombie_list (ly Y)) = insert t (set (context_zombie_list s1))"
        using m by (metis set_mset_add_mset_insert set_mset_mset)
      ultimately show ?thesis by auto
    qed auto
    then show "set (context_zombie_list s') \<subseteq> set (context_zombie_list (ly Y)) - {t}"
      "distinct (context_zombie_list s')" by (simp_all add: z)
  qed
  have v: "tcbs (lithe_view ?Y) = (tcbs (lithe_view Y))(t \<mapsto> lithe_block UPTH_RUNNABLE c)"
    by (rule lithe_view_upd) (simp_all add: ctx)
  have j: "join_ok (lithe_view ?Y)"
    by (rule join_ok_new [OF d(1) _ v]) (simp_all add: lithe_view_tcbs none c(2))
  show ?thesis by (rule lithe_okI [OF j]) (use d zs ctx in \<open>auto split: if_splits\<close>)
qed

lemma lithe_join_cbE:
  assumes "lithe_pth_join_cb t x s = Some s'" and "ctxs s x = Some c"
  shows "ctxs s' = (ctxs s)(x \<mapsto> c\<lparr>lc_joiner := Some t\<rparr>)" "context_zombie_list s' = context_zombie_list s"
    "new_unblocks s s' = (if lc_joiner c = None then {} else {t})"
  using assms by (auto simp: lithe_pth_join_cb_def ctx_upd_def lext_def new_unblocks_def split: option.splits)

lemma lithe_ok_join:
  assumes ok: "lithe_ok Y" and t: "ly_phase Y t = Some UPTH_RUNNING" "x \<noteq> t" "ly_phase Y x \<noteq> None"
    and c: "ctxs (ly Y) x = Some c" "\<not> lc_detached c" "lc_joiner c = None \<or> ly_phase Y x = Some UPTH_EXITING"
    and run: "lithe_pth_join_cb t x (ly Y) = Some s'"
  shows "lithe_ok (Y\<lparr>ly := s', ly_phase := after_calls (ly Y) s' ((ly_phase Y)(t \<mapsto> UPTH_BLK_JOINING))\<rparr>)"
    (is "lithe_ok ?Y")
proof -
  note d = lithe_okD [OF ok] and cb = lithe_join_cbE [OF run c(1)]
  obtain ct where ct: "ctxs (ly Y) t = Some ct" using d(2) [of t] t(1) by auto
  obtain st where st: "ly_phase Y x = Some st" using t(3) by auto
  note vt = lithe_view_Some [OF t(1) ct] and vx = lithe_view_Some [OF st c(1)]
  have zom: "t \<notin> set (context_zombie_list (ly Y))" using d(3) [of t] t(1) by auto
  define new where "new = (if lc_joiner c = None then UPTH_BLK_JOINING else UPTH_RUNNABLE)"
  have ph: "ly_phase ?Y = (ly_phase Y)(t \<mapsto> new)"
    by (auto simp: after_calls_def cb(3) new_def fun_eq_iff)
  have view: "tcbs (lithe_view ?Y) = (tcbs (lithe_view Y))(t \<mapsto> lithe_block new ct,
      x \<mapsto> lithe_block st (c\<lparr>lc_joiner := Some t\<rparr>))"
    using t(2) ct st unfolding fun_eq_iff lithe_view_tcbs ph by (auto simp: cb(1) split: option.splits)
  have "join_ok (lithe_view ?Y)"
  proof (cases "lc_joiner c")
    case None
    show ?thesis
      by (rule join_ok_sleep [OF d(1) t(2) [symmetric] vt vx]) (use None c(2) view in \<open>simp_all add: new_def\<close>)
  next
    case (Some w)
    with c(3) st have ex: "st = UPTH_EXITING" by simp
    show ?thesis
      by (rule join_ok_late [OF d(1) t(2) [symmetric] vt vx, of UPTH_RUNNABLE])
        (use Some ex view in \<open>simp_all add: new_def\<close>)
  qed
  then show ?thesis
  proof (rule lithe_okI)
    show "ctxs (ly ?Y) y \<noteq> None" if "ly_phase ?Y y \<noteq> None" for y
      using that d(2) [of y] t(1) unfolding ph by (auto simp: cb(1) ct split: if_splits)
    show "ly_phase ?Y y = None \<and> ctxs (ly ?Y) y \<noteq> None" if "y \<in> set (context_zombie_list (ly ?Y))" for y
      using that d(3) [of y] zom unfolding ph by (auto simp: cb(1,2))
    show "distinct (context_zombie_list (ly ?Y))" using d(4) by (simp add: cb(2))
    show "ly_phase ?Y y \<in> {None, Some UPTH_RUNNABLE, Some UPTH_RUNNING, Some UPTH_BLK_JOINING, Some UPTH_EXITING}" for y
      using d(5) [of y] unfolding ph by (simp add: new_def)
  qed
qed

text \<open>A context goes to the free list or is unmapped.\<close>

lemma lithe_ok_freed:
  assumes ok: "lithe_ok Y" and pl: "platform_ok pl" and free: "ctx_free pl x s = Some s'"
    and s: "context_zombie_list s = context_zombie_list (ly Y)" "\<And>y. y \<noteq> x \<Longrightarrow> ctxs s y = ctxs (ly Y) y" "ctxs s x \<noteq> None"
    and st: "ly_phase Y x = Some st" "st \<noteq> UPTH_BLK_JOINING" "joiner_of (lithe_view Y) x = None \<or> st = UPTH_EXITING"
  shows "lithe_ok (Y\<lparr>ly := s', ly_phase := (ly_phase Y)(x := None)\<rparr>)" (is "lithe_ok ?Y")
proof -
  note d = lithe_okD [OF ok]
  obtain c where c: "ctxs (ly Y) x = Some c" using d(2) [of x] st by auto
  have zx: "x \<notin> set (context_zombie_list (ly Y))" using d(3) [of x] st by auto
  from ctx_free_cases [OF pl free] have ctx: "ctxs s' y = ctxs (ly Y) y" if "y \<noteq> x" for y
    using s(2) [OF that] that by auto
  have "state_of (lithe_view Y) x = Some st" by (simp add: state_of_def lithe_view_Some [OF st(1) c])
  moreover have "tcbs (lithe_view ?Y) = (tcbs (lithe_view Y))(x := None)"
    by (rule lithe_view_drop) (simp_all add: ctx)
  ultimately have j: "join_ok (lithe_view ?Y)" using st(2,3) by (intro join_ok_free [OF d(1)]) auto
  have z: "distinct (context_zombie_list s') \<and> (\<forall>y \<in> set (context_zombie_list s'). y = x \<and> ctxs s' x \<noteq> None \<or>
      y \<noteq> x \<and> y \<in> set (context_zombie_list (ly Y)))"
    using ctx_free_cases [OF pl free]
  proof
    assume m: "mset (context_zombie_list s') = add_mset x (mset (context_zombie_list s)) \<and> ctxs s' = ctxs s \<and>
      lithe_calls s' = lithe_calls s"
    then have ms: "mset (context_zombie_list s') = mset (x # context_zombie_list (ly Y))" using s(1) by simp
    have "distinct (context_zombie_list s') = distinct (x # context_zombie_list (ly Y))"
      by (rule mset_eq_imp_distinct_iff [OF ms])
    moreover have "set (context_zombie_list s') = insert x (set (context_zombie_list (ly Y)))"
      using mset_eq_setD [OF ms] by simp
    ultimately show ?thesis using d(4) zx m s(3) by auto
  qed (use d(4) zx s(1) in auto)
  from j show ?thesis
  proof (rule lithe_okI)
    show "ctxs (ly ?Y) y \<noteq> None" if "ly_phase ?Y y \<noteq> None" for y
      using that d(2) [of y] ctx [of y] by (auto split: if_splits)
    show "ly_phase ?Y y = None \<and> ctxs (ly ?Y) y \<noteq> None" if "y \<in> set (context_zombie_list (ly ?Y))" for y
      using that z d(3) [of y] ctx [of y] by auto
    show "distinct (context_zombie_list (ly ?Y))" using z by simp
    show "ly_phase ?Y y \<in> {None, Some UPTH_RUNNABLE, Some UPTH_RUNNING, Some UPTH_BLK_JOINING, Some UPTH_EXITING}" for y
      using d(5) [of y] by simp
  qed
qed

lemma lithe_ok_exit:
  assumes ok: "lithe_ok Y" and pl: "platform_ok pl" and t: "ly_phase Y t = Some UPTH_RUNNING"
    and run: "lithe_upthread_exit ret t (ly Y) = Some s1" "lithe_context_exit pl t s1 = Some s'"
    and c: "ctxs s1 t = Some c"
  shows "lithe_ok (Y\<lparr>ly := s', ly_phase := after_calls (ly Y) s'
      ((ly_phase Y)(t := (if lc_detached c then None else Some UPTH_EXITING)))\<rparr>)" (is "lithe_ok ?Y")
    and "new_unblocks (ly Y) s' = (if lc_detached c then {} else {w. lc_joiner c = Some w})"
proof -
  note d = lithe_okD [OF ok]
  obtain c0 where c0: "ctxs (ly Y) t = Some c0" using d(2) [of t] t by auto
  have vt: "tcbs (lithe_view Y) t = Some (lithe_block UPTH_RUNNING c0)" by (rule lithe_view_Some [OF t c0])
  have s1: "s1 = lext LitheDestroyDtls ((ly Y)\<lparr>ctxs := (ctxs (ly Y))(t \<mapsto> c0\<lparr>lc_retval := ret\<rparr>)\<rparr>)"
    using run(1) c0 by (simp add: lithe_upthread_exit_def ctx_upd_def)
  have cc: "c = c0\<lparr>lc_retval := ret\<rparr>" using c by (simp add: s1 lext_def)
  let ?s2 = "lext (ContextCleanup t) (lext (HartRequest (-1)) s1)"
  have s2: "ctxs ?s2 = (ctxs (ly Y))(t \<mapsto> c)" "context_zombie_list ?s2 = context_zombie_list (ly Y)"
    "lithe_calls ?s2 = lithe_calls (ly Y) @ [LitheDestroyDtls, HartRequest (-1), ContextCleanup t]"
    by (simp_all add: s1 cc lext_def)
  have zt: "t \<notin> set (context_zombie_list (ly Y))" using d(3) [of t] t by auto
  have left: "s' = (let s = ?s2\<lparr>ctxs := (ctxs ?s2)(t \<mapsto> c\<lparr>lc_joiner := Some t\<rparr>)\<rparr>
      in case lc_joiner c of None \<Rightarrow> s | Some w \<Rightarrow> lext (ContextUnblock w) s)" if "\<not> lc_detached c"
    using that run(2) s2(1) by (simp add: lithe_context_exit_def ctx_upd_def Let_def)
  show unb: "new_unblocks (ly Y) s' = (if lc_detached c then {} else {w. lc_joiner c = Some w})"
  proof (cases "lc_detached c")
    case True
    then have "ctx_free pl t ?s2 = Some s'" using run(2) s2(1) by (simp add: lithe_context_exit_def)
    from ctx_free_cases [OF pl this] s2(3) True show ?thesis by (auto simp: new_unblocks_def)
  next
    case False
    from left [OF this] show ?thesis using False s2(3) by (auto simp: new_unblocks_def lext_def Let_def s1 split: option.splits)
  qed
  show "lithe_ok ?Y"
  proof (cases "lc_detached c")
    case True
    then have fr: "ctx_free pl t ?s2 = Some s'" using run(2) s2(1) by (simp add: lithe_context_exit_def)
    have ph: "?Y = Y\<lparr>ly := s', ly_phase := (ly_phase Y)(t := None)\<rparr>"
      using True unb by (simp add: after_calls_def fun_upd_def)
    have "t \<in> detached_threads (lithe_view Y)" using True vt cc by (simp add: detached_threads_def)
    then have "joiner_of (lithe_view Y) t = None" using join_ok_detached [OF d(1)] by (cases "joiner_of (lithe_view Y) t") auto
    then show ?thesis unfolding ph
      by (intro lithe_ok_freed [OF ok pl fr s2(2) _ _ t]) (simp_all add: s2(1))
  next
    case False
    have s': "ctxs s' = (ctxs (ly Y))(t \<mapsto> c\<lparr>lc_joiner := Some t\<rparr>)" "context_zombie_list s' = context_zombie_list (ly Y)"
      using left [OF False] s2(1,2) by (simp_all add: Let_def lext_def cc s1 split: option.splits)
    have jt: "joiner_of (lithe_view Y) t = lc_joiner c" by (simp add: joiner_of_def vt cc)
    have w: "w \<noteq> t \<and> ly_phase Y w = Some UPTH_BLK_JOINING" if "lc_joiner c = Some w" for w
    proof -
      have "state_of (lithe_view Y) w = Some UPTH_BLK_JOINING"
        by (rule join_ok_live [OF d(1), of t]) (simp_all add: jt that state_of_def vt)
      then have "ly_phase Y w = Some UPTH_BLK_JOINING"
        by (auto simp: state_of_def lithe_view_tcbs split: option.splits)
      with t show ?thesis by auto
    qed
    have ph: "ly_phase ?Y y = (if y = t then Some UPTH_EXITING else if lc_joiner c = Some y then Some UPTH_RUNNABLE
        else ly_phase Y y)" for y
      using False unb w [of y] by (auto simp: after_calls_def)
    have view: "tcbs (lithe_view ?Y) y = (case ly_phase ?Y y of None \<Rightarrow> None
        | Some st \<Rightarrow> map_option (lithe_block st) (((ctxs (ly Y))(t \<mapsto> c\<lparr>lc_joiner := Some t\<rparr>)) y))" for y
      by (cases "ly_phase ?Y y") (simp_all add: lithe_view_tcbs s'(1))
    have live: "ctxs (ly Y) y \<noteq> None" if "lc_joiner c = Some y" for y
      using w [OF that] d(2) [of y] by auto
    have j: "join_ok (lithe_view ?Y)"
    proof (rule join_ok_exit [OF d(1) vt])
      show "state_of (lithe_view ?Y) y = (if y = t then Some UPTH_EXITING
          else if joiner_of (lithe_view Y) t = Some y then Some UPTH_RUNNABLE else state_of (lithe_view Y) y)" for y
        using live [of y] unfolding state_of_def view ph jt
        by (auto simp: lithe_view_tcbs split: option.splits)
      show "joiner_of (lithe_view ?Y) = (joiner_of (lithe_view Y))(t \<mapsto> t)"
      proof
        show "joiner_of (lithe_view ?Y) y = ((joiner_of (lithe_view Y))(t \<mapsto> t)) y" for y
          using w [of y] unfolding joiner_of_def view ph
          by (cases "ctxs (ly Y) y") (auto simp: lithe_view_tcbs split: option.splits)
      qed
      show "detached_threads (lithe_view ?Y) = detached_threads (lithe_view Y)"
      proof -
        have "(\<exists>p. tcbs (lithe_view ?Y) y = Some p \<and> tcb_detached p) = (\<exists>p. tcbs (lithe_view Y) y = Some p \<and> tcb_detached p)" for y
          using w [of y] False t c0 cc unfolding view ph
          by (auto simp: lithe_view_tcbs split: option.splits if_splits)
        then show ?thesis by (simp add: detached_threads_def)
      qed
    qed (use False cc in simp_all)
    then show ?thesis
    proof (rule lithe_okI)
      show "ctxs (ly ?Y) y \<noteq> None" if "ly_phase ?Y y \<noteq> None" for y
        using that live [of y] d(2) [of y] unfolding ph by (auto simp: s'(1) split: if_splits)
      show "ly_phase ?Y y = None \<and> ctxs (ly ?Y) y \<noteq> None" if "y \<in> set (context_zombie_list (ly ?Y))" for y
      proof -
        from that have y: "y \<in> set (context_zombie_list (ly Y))" by (simp add: s'(2))
        then have "y \<noteq> t" "ly_phase Y y = None" "ctxs (ly Y) y \<noteq> None" using zt d(3) [OF y] by auto
        with w [of y] show ?thesis unfolding ph by (auto simp: s'(1))
      qed
      show "distinct (context_zombie_list (ly ?Y))" using d(4) by (simp add: s'(2))
      show "ly_phase ?Y y \<in> {None, Some UPTH_RUNNABLE, Some UPTH_RUNNING, Some UPTH_BLK_JOINING, Some UPTH_EXITING}" for y
        using d(5) [of y] unfolding ph by simp
    qed
  qed
qed

lemma lithe_step_ok:
  assumes "lithe_step Y Y'" and "lithe_ok Y"
  shows "lithe_ok Y'"
  using assms
proof (induction rule: lithe_step.induct)
  case (l_run Y t)
  then show ?case by (intro lithe_ok_toggle) auto
next
  case (l_yield Y t)
  then show ?case by (intro lithe_ok_toggle) auto
next
  case (l_create pl Y t mmap r n attr start arg v s')
  show ?case by (rule lithe_ok_create [OF l_create(4,1,2,3)])
next
  case (l_join Y t x c s')
  show ?case by (rule lithe_ok_join [OF l_join(8,1-7)])
next
  case (l_joined pl Y t x r v s')
  then obtain c where "ctx_free pl x (ly Y) = Some s'" by (auto simp: lithe_join_finish_def bind_Some_conv)
  moreover have "ctxs (ly Y) x \<noteq> None" using lithe_okD(2) [OF l_joined(5), of x] l_joined(3) by auto
  ultimately show ?case by (intro lithe_ok_freed [OF l_joined(5,1) _ _ _ _ l_joined(3)]) simp_all
next
  case (l_exit pl Y t ret s1 s' c)
  show ?case by (rule lithe_ok_exit(1) [OF l_exit(6,1-5)])
next
  case (l_detach Y x c r s')
  then obtain st where st: "ly_phase Y x = Some st" by auto
  note d = lithe_okD [OF l_detach(5)]
  have s': "ctxs s' = (ctxs (ly Y))(x \<mapsto> c\<lparr>lc_detached := True\<rparr>)" "context_zombie_list s' = context_zombie_list (ly Y)"
    using l_detach(2,4) by (auto simp: lithe_upthread_detach_def ctx_upd_def)
  have v: "tcbs (lithe_view (Y\<lparr>ly := s'\<rparr>)) = (tcbs (lithe_view Y))(x \<mapsto> lithe_block st (c\<lparr>lc_detached := True\<rparr>))"
    by (rule lithe_view_upd) (use st s'(1) in \<open>auto simp: fun_eq_iff\<close>)
  have j: "join_ok (lithe_view (Y\<lparr>ly := s'\<rparr>))"
    by (rule join_ok_detach [OF d(1) lithe_view_Some [OF st l_detach(2)] v]) (use l_detach(3) in simp_all)
  show ?case by (rule lithe_okI [OF j]) (use d s' in \<open>auto split: if_splits\<close>)
qed

lemma lithe_init_ok:
  assumes "lithe_init Y"
  shows "lithe_ok Y"
proof -
  from assms obtain t c where i: "ly Y = lithe_upthread_lib_init t c" "ly_phase Y = [t \<mapsto> UPTH_RUNNING]"
    by (auto simp: lithe_init_def)
  have s: "ctxs (ly Y) = [t \<mapsto> c\<lparr>lc_detached := True, lc_joiner := None\<rparr>]" "context_zombie_list (ly Y) = []"
    by (simp_all add: i(1) lithe_upthread_lib_init_def Let_def lext_def)
  have "tcbs (lithe_view Y) = [t \<mapsto> lithe_block UPTH_RUNNING (c\<lparr>lc_detached := True, lc_joiner := None\<rparr>)]"
    by (auto simp: lithe_view_tcbs i(2) s fun_eq_iff)
  then have "join_ok (lithe_view Y)"
    by (auto simp: join_ok_def state_of_def joiner_of_def split: if_splits)
  then show ?thesis by (rule lithe_okI) (auto simp: i(2) s split: if_splits)
qed

lemma lithe_reachable_ok: "reachable lithe_init lithe_step Y \<Longrightarrow> lithe_ok Y"
  by (rule reachable_invariant [of lithe_init lithe_step]) (auto intro: lithe_init_ok lithe_step_ok)

end
