(* ===== verification/Lithe_Life.thy ===== *)
theory Lithe_Life
  imports Lithe_Join
begin

text \<open>
  Properties of the Lithe variant: nobody sleeps in a join in vain, and an exit unblocks exactly
  the context that joined.
\<close>

section \<open>A small execution\<close>

text \<open>The main thread creates a thread and waits for it.\<close>

definition demo_lithe_platform :: platform where
  "demo_lithe_platform = \<lparr>pl_pgsize = 4096, pl_clsize = 64, pl_tcbsize = 192,
     pl_roundup = (\<lambda>x y. (x + y - 1) div y * y), pl_rand_r = (\<lambda>x. (uint (drop_bit 1 x), x + 1)),
     pl_wfl_insert = (\<lambda>zs t. t # zs),
     pl_wfl_remove = (\<lambda>zs. case zs of [] \<Rightarrow> None | t # zs \<Rightarrow> Some (t, zs))\<rparr>"

lemma demo_lithe_platform_ok: "platform_ok demo_lithe_platform"
  by (auto simp: platform_ok_def demo_lithe_platform_def split: list.splits)

definition ly0 :: lithe_sys where
  "ly0 = \<lparr>ly = lithe_upthread_lib_init 64 lithe_context_zero, ly_phase = [64 \<mapsto> UPTH_RUNNING]\<rparr>"

definition ly_new :: "(int \<times> upthread_t \<times> lithe_up) option" where
  "ly_new = lithe_upthread_create demo_lithe_platform (\<lambda>_. Some 2097152) 1 2 None 1 2 (ly ly0)"

definition ly1 :: lithe_sys where
  "ly1 = ly0\<lparr>ly := snd (snd (the ly_new)), ly_phase := (ly_phase ly0)(6295296 \<mapsto> UPTH_RUNNABLE)\<rparr>"

definition ly2 :: lithe_sys where
  "ly2 = (let s = the (lithe_pth_join_cb 64 6295296 (ly ly1))
          in ly1\<lparr>ly := s, ly_phase := after_calls (ly ly1) s ((ly_phase ly1)(64 \<mapsto> UPTH_BLK_JOINING))\<rparr>)"

definition ly3 :: lithe_sys where
  "ly3 = ly2\<lparr>ly_phase := (ly_phase ly2)(6295296 \<mapsto> UPTH_RUNNING)\<rparr>"

lemma ly_new: "map_option (\<lambda>(r, t, s). (r, t)) ly_new = Some (0, 6295296)"
  by code_simp

lemma ly_new_eq: "ly_new = Some (0, 6295296, ly ly1)"
proof -
  obtain s where e: "ly_new = Some (0, 6295296, s)" using ly_new by auto
  have "ly ly1 = snd (snd (the ly_new))" by (simp add: ly1_def)
  also have "\<dots> = s" by (metis e option.sel snd_conv)
  finally show ?thesis using e by metis
qed

lemma ly2_eq: "lithe_pth_join_cb 64 6295296 (ly ly1) = Some (ly ly2)"
proof -
  have "lithe_pth_join_cb 64 6295296 (ly ly1) \<noteq> None" by code_simp
  then show ?thesis by (auto simp: ly2_def Let_def)
qed

lemma ly_target: "map_option (\<lambda>c. (lc_detached c, lc_joiner c)) (ctxs (ly ly1) 6295296) = Some (False, None)"
  "ly_phase ly1 64 = Some UPTH_RUNNING" "ly_phase ly1 6295296 = Some UPTH_RUNNABLE"
  "ctxs (ly ly0) 6295296 = None"
  by code_simp+

lemma ly_steps: "lithe_step ly0 ly1" "lithe_step ly1 ly2" "lithe_step ly2 ly3"
proof -
  have "lithe_step ly0 (ly0\<lparr>ly := ly ly1, ly_phase := (ly_phase ly0)(6295296 \<mapsto> UPTH_RUNNABLE)\<rparr>)"
    by (rule l_create [OF demo_lithe_platform_ok disjI1 [OF ly_target(4)] ly_new_eq [unfolded ly_new_def]])
  then show "lithe_step ly0 ly1" by (simp add: ly1_def)
  obtain c where c: "ctxs (ly ly1) 6295296 = Some c" "\<not> lc_detached c" "lc_joiner c = None"
    using ly_target(1) by auto
  have "lithe_step ly1 (ly1\<lparr>ly := ly ly2, ly_phase := after_calls (ly ly1) (ly ly2) ((ly_phase ly1)(64 \<mapsto> UPTH_BLK_JOINING))\<rparr>)"
    by (rule l_join [OF ly_target(2) _ _ c(1,2) disjI1 [OF c(3)] ly2_eq]) (simp_all add: ly_target(3))
  then show "lithe_step ly1 ly2" by (simp add: ly2_def Let_def)
  have "ly_phase ly2 6295296 = Some UPTH_RUNNABLE" by code_simp
  then show "lithe_step ly2 ly3" unfolding ly3_def by (rule l_run)
qed

lemma ly_reach: "reachable lithe_init lithe_step ly3"
proof -
  have "lithe_init ly0" by (auto simp: lithe_init_def ly0_def)
  then have 0: "reachable lithe_init lithe_step ly0" by (rule reach_init)
  show ?thesis by (rule reach_step, rule reach_step, rule reach_step, rule 0) (rule ly_steps)+
qed

lemma ly3_facts: "ly_phase ly3 64 = Some UPTH_BLK_JOINING" "ly_phase ly3 6295296 = Some UPTH_RUNNING"
  "map_option lc_joiner (ctxs (ly ly3) 6295296) = Some (Some 64)"
  by code_simp+

section \<open>Properties\<close>



text \<open>
  C32: an exit on Lithe unblocks the context that joined, and nothing else, and the join then
  returns 0 and the value that was passed to \<open>upthread_exit\<close>, even when the context is unmapped.
\<close>

theorem lithe_exit_wakes_joiner:
  assumes "reachable lithe_init lithe_step Y" and "platform_ok pl" and "ly_phase Y x = Some UPTH_RUNNING"
    and "ctxs (ly Y) x = Some c" and "lc_joiner c = Some w"
  shows "\<exists>s1 s2 s3. lithe_upthread_exit ret x (ly Y) = Some s1 \<and> lithe_context_exit pl x s1 = Some s2 \<and>
    new_unblocks (ly Y) s2 = {w} \<and> ly_phase Y w = Some UPTH_BLK_JOINING \<and>
    lithe_join_finish pl x s2 = Some (0, ret, s3)"
proof -
  have ok: "lithe_ok Y" by (rule lithe_reachable_ok [OF assms(1)])
  note d = lithe_okD [OF ok] and v = lithe_view_Some [OF assms(3,4)]
  have j: "joiner_of (lithe_view Y) x = Some w" by (simp add: joiner_of_def v assms(5))
  have nd: "\<not> lc_detached c" using join_ok_detached [OF d(1) j] v by (simp add: detached_threads_def)
  have "state_of (lithe_view Y) w = Some UPTH_BLK_JOINING"
    by (rule join_ok_live [OF d(1) j]) (simp add: state_of_def v)
  then have w: "ly_phase Y w = Some UPTH_BLK_JOINING"
    by (auto simp: state_of_def lithe_view_tcbs split: option.splits)
  let ?c = "c\<lparr>lc_retval := ret\<rparr>"
  define s1 where "s1 = lext LitheDestroyDtls ((ly Y)\<lparr>ctxs := (ctxs (ly Y))(x \<mapsto> ?c)\<rparr>)"
  have 1: "lithe_upthread_exit ret x (ly Y) = Some s1" "ctxs s1 x = Some ?c"
    using assms(4) by (simp_all add: lithe_upthread_exit_def ctx_upd_def s1_def lext_def)
  then have "\<exists>s2. lithe_context_exit pl x s1 = Some s2 \<and> ctxs s2 x = Some (?c\<lparr>lc_joiner := Some x\<rparr>)"
    using nd assms(5) by (simp add: lithe_context_exit_def ctx_upd_def lext_def Let_def)
  then obtain s2 where 2: "lithe_context_exit pl x s1 = Some s2" "ctxs s2 x = Some (?c\<lparr>lc_joiner := Some x\<rparr>)" by blast
  have "new_unblocks (ly Y) s2 = {w}"
    using lithe_ok_exit(2) [OF ok assms(2,3) 1(1) 2(1) 1(2)] nd assms(5) by auto
  moreover have "\<exists>s3. lithe_join_finish pl x s2 = Some (0, ret, s3)"
    using 2(2) by (simp add: lithe_join_finish_def ctx_free_def Let_def)
  ultimately show ?thesis using 1 2 w by blast
qed

theorem lithe_exit_wakes_joiner_witness:
  "\<exists>s1 s2 s3. lithe_upthread_exit 7 6295296 (ly ly3) = Some s1 \<and>
     lithe_context_exit demo_lithe_platform 6295296 s1 = Some s2 \<and> new_unblocks (ly ly3) s2 = {64} \<and>
     lithe_join_finish demo_lithe_platform 6295296 s2 = Some (0, 7, s3)"
proof -
  from ly3_facts(3) obtain c where "ctxs (ly ly3) 6295296 = Some c" "lc_joiner c = Some 64" by auto
  from lithe_exit_wakes_joiner [OF ly_reach demo_lithe_platform_ok ly3_facts(2) this, of 7] show ?thesis by blast
qed

end
