(* ===== verification/Lithe_Sync.thy ===== *)
theory Lithe_Sync
  imports Lithe_Threads
begin

text \<open>
  The synchronisation objects of the Lithe variant, \<^verbatim>\<open>src/lithe/mutex.c\<close>, \<^verbatim>\<open>condvar.c\<close>,
  \<^verbatim>\<open>barrier.c\<close> and \<^verbatim>\<open>semaphore.c\<close>: each function is a call of Lithe's, which is not part of the
  repository and comes as a record of functions. The objects are in memory that Lithe owns, so a
  function takes their address and the state of the process.
\<close>

section \<open>What Lithe supplies\<close>

text \<open>\<open>None\<close> is a call that does not return. \<open>lithe_mutexattr_gettype\<close> stores through its second
  argument, which is part of its result here.\<close>

record 's lithe_api =
  lithe_mutexattr_init :: "addr \<Rightarrow> 's \<Rightarrow> (int \<times> 's) option"
  lithe_mutexattr_gettype :: "addr \<Rightarrow> 's \<Rightarrow> ((int \<times> int option) \<times> 's) option"
  lithe_mutexattr_settype :: "addr \<Rightarrow> int \<Rightarrow> 's \<Rightarrow> (int \<times> 's) option"
  lithe_mutex_init :: "addr \<Rightarrow> addr option \<Rightarrow> 's \<Rightarrow> (int \<times> 's) option"
  lithe_mutex_trylock :: "addr \<Rightarrow> 's \<Rightarrow> (int \<times> 's) option"
  lithe_mutex_lock :: "addr \<Rightarrow> 's \<Rightarrow> (int \<times> 's) option"
  lithe_mutex_unlock :: "addr \<Rightarrow> 's \<Rightarrow> (int \<times> 's) option"
  lithe_condvar_init :: "addr \<Rightarrow> 's \<Rightarrow> (int \<times> 's) option"
  lithe_condvar_wait :: "addr \<Rightarrow> addr \<Rightarrow> 's \<Rightarrow> (int \<times> 's) option"
  lithe_condvar_signal :: "addr \<Rightarrow> 's \<Rightarrow> (int \<times> 's) option"
  lithe_condvar_broadcast :: "addr \<Rightarrow> 's \<Rightarrow> (int \<times> 's) option"
  lithe_barrier_init :: "addr \<Rightarrow> int \<Rightarrow> 's \<Rightarrow> 's option"
  lithe_barrier_destroy :: "addr \<Rightarrow> 's \<Rightarrow> 's option"
  lithe_barrier_wait :: "addr \<Rightarrow> 's \<Rightarrow> 's option"
  lithe_sem_init :: "addr \<Rightarrow> int \<Rightarrow> 's \<Rightarrow> (int \<times> 's) option"
  lithe_sem_wait :: "addr \<Rightarrow> 's \<Rightarrow> (int \<times> 's) option"
  lithe_sem_post :: "addr \<Rightarrow> 's \<Rightarrow> (int \<times> 's) option"

section \<open>Mutexes\<close>

definition lithe_upthread_mutexattr_init :: "'s lithe_api \<Rightarrow> addr \<Rightarrow> 's \<Rightarrow> (int \<times> 's) option" where
  "lithe_upthread_mutexattr_init L attr s = lithe_mutexattr_init L attr s"

definition lithe_upthread_mutexattr_destroy :: "addr \<Rightarrow> 's \<Rightarrow> (int \<times> 's) option" where
  "lithe_upthread_mutexattr_destroy attr s = Some (0, s)"

definition lithe_upthread_mutexattr_gettype ::
  "'s lithe_api \<Rightarrow> addr \<Rightarrow> 's \<Rightarrow> ((int \<times> int option) \<times> 's) option" where
  "lithe_upthread_mutexattr_gettype L attr s = lithe_mutexattr_gettype L attr s"

definition lithe_upthread_mutexattr_settype :: "'s lithe_api \<Rightarrow> addr \<Rightarrow> int \<Rightarrow> 's \<Rightarrow> (int \<times> 's) option" where
  "lithe_upthread_mutexattr_settype L attr ty s = lithe_mutexattr_settype L attr ty s"

definition lithe_upthread_mutex_init :: "'s lithe_api \<Rightarrow> addr \<Rightarrow> addr option \<Rightarrow> 's \<Rightarrow> (int \<times> 's) option" where
  "lithe_upthread_mutex_init L mutex attr s = lithe_mutex_init L mutex attr s"

definition lithe_upthread_mutex_trylock :: "'s lithe_api \<Rightarrow> addr \<Rightarrow> 's \<Rightarrow> (int \<times> 's) option" where
  "lithe_upthread_mutex_trylock L mutex s = lithe_mutex_trylock L mutex s"

definition lithe_upthread_mutex_lock :: "'s lithe_api \<Rightarrow> addr \<Rightarrow> 's \<Rightarrow> (int \<times> 's) option" where
  "lithe_upthread_mutex_lock L mutex s = lithe_mutex_lock L mutex s"

definition lithe_upthread_mutex_unlock :: "'s lithe_api \<Rightarrow> addr \<Rightarrow> 's \<Rightarrow> (int \<times> 's) option" where
  "lithe_upthread_mutex_unlock L mutex s = lithe_mutex_unlock L mutex s"

definition lithe_upthread_mutex_destroy :: "addr \<Rightarrow> 's \<Rightarrow> (int \<times> 's) option" where
  "lithe_upthread_mutex_destroy mutex s = Some (0, s)"

section \<open>Condition variables\<close>

definition lithe_upthread_condattr_init :: "addr \<Rightarrow> 's \<Rightarrow> (int \<times> 's) option" where
  "lithe_upthread_condattr_init a s = Some (0, s)"

definition lithe_upthread_condattr_destroy :: "addr \<Rightarrow> 's \<Rightarrow> (int \<times> 's) option" where
  "lithe_upthread_condattr_destroy a s = Some (0, s)"

definition lithe_upthread_cond_init :: "'s lithe_api \<Rightarrow> addr \<Rightarrow> addr option \<Rightarrow> 's \<Rightarrow> (int \<times> 's) option" where
  "lithe_upthread_cond_init L c a s = lithe_condvar_init L c s"

definition lithe_upthread_cond_destroy :: "addr \<Rightarrow> 's \<Rightarrow> (int \<times> 's) option" where
  "lithe_upthread_cond_destroy c s = Some (0, s)"

definition lithe_upthread_cond_wait :: "'s lithe_api \<Rightarrow> addr \<Rightarrow> addr \<Rightarrow> 's \<Rightarrow> (int \<times> 's) option" where
  "lithe_upthread_cond_wait L c m s = lithe_condvar_wait L c m s"

definition lithe_upthread_cond_signal :: "'s lithe_api \<Rightarrow> addr \<Rightarrow> 's \<Rightarrow> (int \<times> 's) option" where
  "lithe_upthread_cond_signal L c s = lithe_condvar_signal L c s"

definition lithe_upthread_cond_broadcast :: "'s lithe_api \<Rightarrow> addr \<Rightarrow> 's \<Rightarrow> (int \<times> 's) option" where
  "lithe_upthread_cond_broadcast L c s = lithe_condvar_broadcast L c s"

section \<open>Barriers\<close>

definition lithe_upthread_barrierattr_init :: "addr \<Rightarrow> 's \<Rightarrow> (int \<times> 's) option" where
  "lithe_upthread_barrierattr_init attr s = Some (0, s)"

definition lithe_upthread_barrierattr_destroy :: "addr \<Rightarrow> 's \<Rightarrow> (int \<times> 's) option" where
  "lithe_upthread_barrierattr_destroy attr s = Some (0, s)"

definition lithe_upthread_barrier_init ::
  "'s lithe_api \<Rightarrow> addr \<Rightarrow> addr option \<Rightarrow> int \<Rightarrow> 's \<Rightarrow> (int \<times> 's) option" where
  "lithe_upthread_barrier_init L barrier a n s = do {
     s \<leftarrow> lithe_barrier_init L barrier n s;
     Some (0, s)
   }"

definition lithe_upthread_barrier_destroy :: "'s lithe_api \<Rightarrow> addr \<Rightarrow> 's \<Rightarrow> (int \<times> 's) option" where
  "lithe_upthread_barrier_destroy L barrier s = do {
     s \<leftarrow> lithe_barrier_destroy L barrier s;
     Some (0, s)
   }"

definition lithe_upthread_barrier_wait :: "'s lithe_api \<Rightarrow> addr \<Rightarrow> 's \<Rightarrow> (int \<times> 's) option" where
  "lithe_upthread_barrier_wait L barrier s = do {
     s \<leftarrow> lithe_barrier_wait L barrier s;
     Some (0, s)
   }"

section \<open>Semaphores\<close>

definition lithe_upthread_sem_init :: "'s lithe_api \<Rightarrow> addr \<Rightarrow> int \<Rightarrow> int \<Rightarrow> 's \<Rightarrow> (int \<times> 's) option" where
  "lithe_upthread_sem_init L sem pshared cnt s = lithe_sem_init L sem cnt s"

definition lithe_upthread_sem_destroy :: "addr \<Rightarrow> 's \<Rightarrow> (int \<times> 's) option" where
  "lithe_upthread_sem_destroy sem s = Some (0, s)"

definition lithe_upthread_sem_wait :: "'s lithe_api \<Rightarrow> addr \<Rightarrow> 's \<Rightarrow> (int \<times> 's) option" where
  "lithe_upthread_sem_wait L sem s = lithe_sem_wait L sem s"

definition lithe_upthread_sem_post :: "'s lithe_api \<Rightarrow> addr \<Rightarrow> 's \<Rightarrow> (int \<times> 's) option" where
  "lithe_upthread_sem_post L sem s = lithe_sem_post L sem s"

section \<open>What the wrappers add\<close>

text \<open>Destroying an object other than a barrier, and the attributes of a condition variable or barrier,
  never reach Lithe; a barrier reports success to every thread, so none can tell that it was the last.\<close>

lemma lithe_upthread_no_ops:
  "lithe_upthread_mutexattr_destroy a s = Some (0, s)" "lithe_upthread_mutex_destroy a s = Some (0, s)"
  "lithe_upthread_condattr_init a s = Some (0, s)" "lithe_upthread_condattr_destroy a s = Some (0, s)"
  "lithe_upthread_cond_destroy a s = Some (0, s)" "lithe_upthread_sem_destroy a s = Some (0, s)"
  "lithe_upthread_barrierattr_init a s = Some (0, s)" "lithe_upthread_barrierattr_destroy a s = Some (0, s)"
  by (simp_all add: lithe_upthread_mutexattr_destroy_def lithe_upthread_mutex_destroy_def
      lithe_upthread_condattr_init_def lithe_upthread_condattr_destroy_def lithe_upthread_cond_destroy_def
      lithe_upthread_sem_destroy_def lithe_upthread_barrierattr_init_def lithe_upthread_barrierattr_destroy_def)

lemma lithe_barrier_reports_success:
  assumes "lithe_upthread_barrier_init L b a n s = Some (r, s') \<or>
           lithe_upthread_barrier_wait L b s = Some (r, s') \<or>
           lithe_upthread_barrier_destroy L b s = Some (r, s')"
  shows "r = 0"
  using assms by (auto simp: lithe_upthread_barrier_init_def lithe_upthread_barrier_wait_def
      lithe_upthread_barrier_destroy_def split: Option.bind_splits)

end
