(* ===== verification/Dtls.thy ===== *)
theory Dtls
  imports Prelude
begin

text \<open>
  Thread-specific data, \<^verbatim>\<open>src/common/dtls.c\<close>: four functions on top of parlib's dynamic
  thread-local storage, which is not part of the repository and comes as a record of functions. The
  state \<open>'s\<close> is parlib's; the thread that calls is the first argument of \<open>get_dtls\<close> and \<open>set_dtls\<close>. \<open>dtls_key_create\<close> is \<open>None\<close> when it
  finds no memory for a key.
\<close>

section \<open>What parlib supplies\<close>

record 's dtls =
  dtls_key_create :: "addr option \<Rightarrow> 's \<Rightarrow> (addr \<times> 's) option"
  dtls_key_delete :: "addr \<Rightarrow> 's \<Rightarrow> 's"
  get_dtls :: "upthread_t \<Rightarrow> addr \<Rightarrow> 's \<Rightarrow> addr option"
  set_dtls :: "upthread_t \<Rightarrow> addr \<Rightarrow> addr option \<Rightarrow> 's \<Rightarrow> 's"

text \<open>
  What is documented of it, with the set of keys that have been created and not deleted: a new key
  is none of them and has no value in any thread; a value set is the value read, by that thread
  and for that key; and nothing else changes.
\<close>

definition dtls_laws :: "'s dtls \<Rightarrow> ('s \<Rightarrow> addr set) \<Rightarrow> bool" where
  "dtls_laws D keys \<longleftrightarrow>
     (\<forall>f s k s'. dtls_key_create D f s = Some (k, s') \<longrightarrow>
        k \<notin> keys s \<and> keys s' = insert k (keys s) \<and> (\<forall>t. get_dtls D t k s' = None) \<and>
        (\<forall>t j. j \<in> keys s \<longrightarrow> get_dtls D t j s' = get_dtls D t j s)) \<and>
     (\<forall>k s. keys (dtls_key_delete D k s) = keys s - {k} \<and>
        (\<forall>t j. j \<noteq> k \<longrightarrow> get_dtls D t j (dtls_key_delete D k s) = get_dtls D t j s)) \<and>
     (\<forall>t k v s. k \<in> keys s \<longrightarrow> keys (set_dtls D t k v s) = keys s \<and>
        get_dtls D t k (set_dtls D t k v s) = v \<and>
        (\<forall>u j. (u, j) \<noteq> (t, k) \<longrightarrow> get_dtls D u j (set_dtls D t k v s) = get_dtls D u j s))"

section \<open>Keys and values\<close>

text \<open>The key is stored through the pointer \<open>__key\<close>.\<close>

definition upthread_key_create :: "'s dtls \<Rightarrow> addr option \<Rightarrow> 's \<Rightarrow> (int \<times> addr \<times> 's) option" where
  "upthread_key_create D destr_function s = do {
     (key, s) \<leftarrow> dtls_key_create D destr_function s;
     Some (0, key, s)
   }"

definition upthread_key_delete :: "'s dtls \<Rightarrow> addr \<Rightarrow> 's \<Rightarrow> int \<times> 's" where
  "upthread_key_delete D key s = (0, dtls_key_delete D key s)"

definition upthread_getspecific :: "'s dtls \<Rightarrow> upthread_t \<Rightarrow> addr \<Rightarrow> 's \<Rightarrow> addr option" where
  "upthread_getspecific D me key s = get_dtls D me key s"

definition upthread_setspecific :: "'s dtls \<Rightarrow> upthread_t \<Rightarrow> addr \<Rightarrow> addr option \<Rightarrow> 's \<Rightarrow> int \<times> 's" where
  "upthread_setspecific D me key pointer s = (0, set_dtls D me key pointer s)"

section \<open>Programs of calls\<close>

datatype dtls_op = Key_create "addr option" | Key_delete addr | Setspecific upthread_t addr "addr option"

fun dtls_do :: "'s dtls \<Rightarrow> dtls_op \<Rightarrow> 's \<Rightarrow> 's option" where
  "dtls_do D (Key_create f) s = map_option (snd \<circ> snd) (upthread_key_create D f s)"
| "dtls_do D (Key_delete k) s = Some (snd (upthread_key_delete D k s))"
| "dtls_do D (Setspecific t k v) s = Some (snd (upthread_setspecific D t k v s))"

text \<open>Calls that use only live keys, do not delete \<open>k\<close> and do not store under it in thread \<open>t\<close>.\<close>

fun dtls_other :: "('s \<Rightarrow> addr set) \<Rightarrow> upthread_t \<Rightarrow> addr \<Rightarrow> dtls_op \<Rightarrow> 's \<Rightarrow> bool" where
  "dtls_other keys t k (Key_create f) s = True"
| "dtls_other keys t k (Key_delete j) s = (j \<noteq> k)"
| "dtls_other keys t k (Setspecific u j v) s = (j \<in> keys s \<and> (u, j) \<noteq> (t, k))"

inductive dtls_others :: "'s dtls \<Rightarrow> ('s \<Rightarrow> addr set) \<Rightarrow> upthread_t \<Rightarrow> addr \<Rightarrow> 's \<Rightarrow> 's \<Rightarrow> bool"
  for D keys t k where
  do_nil: "dtls_others D keys t k s s"
| do_call: "dtls_others D keys t k s s1 \<Longrightarrow> dtls_other keys t k c s1 \<Longrightarrow> dtls_do D c s1 = Some s2 \<Longrightarrow>
    dtls_others D keys t k s s2"

lemma dtls_laws_create:
  assumes "dtls_laws D keys" and "dtls_key_create D f s = Some (k, s')"
  shows "k \<notin> keys s \<and> keys s' = insert k (keys s) \<and> get_dtls D t k s' = None \<and>
         (j \<in> keys s \<longrightarrow> get_dtls D t j s' = get_dtls D t j s)"
  using assms(1) [unfolded dtls_laws_def, THEN conjunct1] assms(2) by simp

lemma dtls_laws_delete:
  assumes "dtls_laws D keys"
  shows "keys (dtls_key_delete D k s) = keys s - {k} \<and>
         (j \<noteq> k \<longrightarrow> get_dtls D t j (dtls_key_delete D k s) = get_dtls D t j s)"
  using assms [unfolded dtls_laws_def, THEN conjunct2, THEN conjunct1] by simp

lemma dtls_laws_set:
  assumes "dtls_laws D keys" and "k \<in> keys s"
  shows "keys (set_dtls D t k v s) = keys s \<and> get_dtls D t k (set_dtls D t k v s) = v \<and>
         ((u, j) \<noteq> (t, k) \<longrightarrow> get_dtls D u j (set_dtls D t k v s) = get_dtls D u j s)"
  using assms(1) [unfolded dtls_laws_def, THEN conjunct2, THEN conjunct2] assms(2) by blast

lemma dtls_other_keeps:
  assumes laws: "dtls_laws D keys" and "dtls_other keys t k c s" and "k \<in> keys s" and "dtls_do D c s = Some s'"
  shows "k \<in> keys s' \<and> get_dtls D t k s' = get_dtls D t k s"
proof (cases c)
  case (Key_create f)
  with assms(3,4) show ?thesis
    by (auto simp: upthread_key_create_def bind_Some_conv dest: dtls_laws_create [OF laws])
next
  case (Key_delete j)
  with assms show ?thesis by (auto simp: dtls_laws_delete [OF laws] upthread_key_delete_def)
next
  case (Setspecific u j v)
  with assms show ?thesis using dtls_laws_set [OF laws, of j s u v t k]
    by (auto simp: upthread_setspecific_def)
qed

lemma dtls_others_keep:
  assumes "dtls_others D keys t k s s'" and "dtls_laws D keys" and "k \<in> keys s"
  shows "k \<in> keys s' \<and> get_dtls D t k s' = get_dtls D t k s"
  using assms by induction (use dtls_other_keeps in fastforce)+

text \<open>
  A thread reads back what it stored under a key, whatever the other threads do with that key and
  whatever anybody does with other keys in between; before it stored anything it read null.
\<close>

theorem specific_roundtrip:
  assumes "dtls_laws D keys" and "upthread_key_create D f s0 = Some (r, k, s1)"
    and "dtls_others D keys t k s1 s2" and "dtls_others D keys t k (snd (upthread_setspecific D t k v s2)) s3"
  shows "r = 0 \<and> k \<notin> keys s0 \<and> upthread_getspecific D t k s2 = None \<and>
         fst (upthread_setspecific D t k v s2) = 0 \<and> upthread_getspecific D t k s3 = v"
proof -
  from assms(2) have c: "r = 0" "dtls_key_create D f s0 = Some (k, s1)"
    by (auto simp: upthread_key_create_def bind_Some_conv)
  note k = dtls_laws_create [OF assms(1) c(2), of t]
  then have s2: "k \<in> keys s2" "get_dtls D t k s2 = None"
    using dtls_others_keep [OF assms(3,1)] by simp_all
  note set = dtls_laws_set [OF assms(1) s2(1), of t v t k]
  then have "get_dtls D t k s3 = v"
    using dtls_others_keep [OF assms(4,1)] s2(1) by (simp add: upthread_setspecific_def)
  with c(1) k s2(2) show ?thesis by (simp add: upthread_getspecific_def upthread_setspecific_def)
qed

text \<open>A storage with the documented behaviour: a counter for the keys, those deleted, and a map.\<close>

definition map_dtls :: "(nat \<times> addr list \<times> (upthread_t \<times> addr \<Rightarrow> addr option)) dtls" where
  "map_dtls =
     \<lparr>dtls_key_create = (\<lambda>f (n, d, m). if n < 2 ^ 64
        then Some (of_nat n, (n + 1, removeAll (of_nat n) d, \<lambda>(t, k). if k = of_nat n then None else m (t, k))) else None),
      dtls_key_delete = (\<lambda>k (n, d, m). (n, k # d, m)),
      get_dtls = (\<lambda>t k (n, d, m). m (t, k)),
      set_dtls = (\<lambda>t k v (n, d, m). (n, d, m((t, k) := v)))\<rparr>"

definition map_keys :: "nat \<times> addr list \<times> (upthread_t \<times> addr \<Rightarrow> addr option) \<Rightarrow> addr set" where
  "map_keys = (\<lambda>(n, d, m). of_nat ` {k. k < n \<and> k < 2 ^ 64} - set d)"

lemma of_nat_addr_eq:
  assumes "a < 2 ^ 64" and "b < 2 ^ 64"
  shows "(of_nat a :: addr) = of_nat b \<longleftrightarrow> a = b"
proof -
  have "unat (of_nat a :: addr) = a" "unat (of_nat b :: addr) = b" using assms by (simp_all add: unat_of_nat)
  then show ?thesis by metis
qed

lemma map_dtls_laws: "dtls_laws map_dtls map_keys"
  unfolding dtls_laws_def
proof (intro conjI allI impI, goal_cases)
  case (1 f s k s')
  then show ?case by (cases s) (auto simp: map_dtls_def map_keys_def of_nat_addr_eq split: if_splits)
next
  case (2 f s k s')
  then show ?case
    by (cases s) (auto simp: map_dtls_def map_keys_def of_nat_addr_eq less_Suc_eq split: if_splits)
next
  case (3 f s k s' t)
  then show ?case by (cases s) (auto simp: map_dtls_def split: if_splits)
next
  case (4 f s k s' t j)
  then show ?case by (cases s) (auto simp: map_dtls_def map_keys_def of_nat_addr_eq split: if_splits)
qed (auto simp: map_dtls_def map_keys_def)

theorem specific_roundtrip_witness:
  "upthread_getspecific map_dtls 8192 0 (snd (upthread_setspecific map_dtls 4096 0 (Some 9)
     (snd (upthread_setspecific map_dtls 8192 0 (Some 7) (1, [], \<lambda>_. None))))) = Some 7"
proof -
  let ?s1 = "(1, [], \<lambda>_. None) :: nat \<times> addr list \<times> (upthread_t \<times> addr \<Rightarrow> addr option)"
  let ?s2 = "snd (upthread_setspecific map_dtls 8192 0 (Some 7) ?s1)"
  have "upthread_key_create map_dtls None (0, [], \<lambda>_. None) = Some (0, 0, ?s1)"
    by (auto simp: upthread_key_create_def map_dtls_def)
  moreover have "dtls_others map_dtls map_keys 8192 0 ?s2 (snd (upthread_setspecific map_dtls 4096 0 (Some 9) ?s2))"
    by (rule do_call [OF do_nil, of _ _ _ "Setspecific 4096 0 (Some 9)"])
      (auto simp: map_keys_def upthread_setspecific_def map_dtls_def)
  ultimately show ?thesis using specific_roundtrip [OF map_dtls_laws _ do_nil] by blast
qed

end
