(* ===== verification/Compat.thy ===== *)
theory Compat
  imports Main
begin

text \<open>
  The compatibility header \<^verbatim>\<open>src/common/compatibility/pthread.h\<close>, which turns a pthread program into
  one of this library by renaming; the functions that the library declares in
  \<^verbatim>\<open>src/common/upthread-common.h\<close> and \<^verbatim>\<open>src/common/semaphore.h\<close>; and those that the files of a
  variant define (\<^verbatim>\<open>Makefile.am\<close> has the files of each): what such a program can compile against
  and what it can link with.
\<close>

section \<open>Renaming\<close>

definition pthread_macros :: "(string \<times> string) list" where
  "pthread_macros = [
     (''PTHREAD_CREATE_JOINABLE'', ''UPTHREAD_CREATE_JOINABLE''),
     (''PTHREAD_CREATE_DETACHED'', ''UPTHREAD_CREATE_DETACHED''),
     (''pthread_attr_t'', ''upthread_attr_t''), (''pthread_attr_init'', ''upthread_attr_init''),
     (''pthread_attr_destroy'', ''upthread_attr_destroy''),
     (''pthread_attr_setdetachstate'', ''upthread_attr_setdetachstate''),
     (''pthread_attr_getstacksize'', ''upthread_attr_getstacksize''),
     (''pthread_attr_setstacksize'', ''upthread_attr_setstacksize''), (''pthread_t'', ''upthread_t''),
     (''pthread_create'', ''upthread_create''), (''pthread_join'', ''upthread_join''),
     (''pthread_yield'', ''upthread_yield''), (''sched_yield'', ''upthread_yield''),
     (''pthread_exit'', ''upthread_exit''), (''pthread_detach'', ''upthread_detach''),
     (''pthread_self'', ''upthread_self''), (''PTHREAD_MUTEX_NORMAL'', ''UPTHREAD_MUTEX_NORMAL''),
     (''PTHREAD_MUTEX_RECURSIVE'', ''UPTHREAD_MUTEX_RECURSIVE''),
     (''PTHREAD_MUTEX_DEFAULT'', ''UPTHREAD_MUTEX_DEFAULT''),
     (''PTHREAD_MUTEX_INITIALIZER'', ''UPTHREAD_MUTEX_INITIALIZER''),
     (''pthread_mutexattr_t'', ''upthread_mutexattr_t''), (''pthread_mutex_t'', ''upthread_mutex_t''),
     (''pthread_mutexattr_init'', ''upthread_mutexattr_init''),
     (''pthread_mutexattr_destroy'', ''upthread_mutexattr_destroy''),
     (''pthread_mutexattr_gettype'', ''upthread_mutexattr_gettype''),
     (''pthread_mutexattr_settype'', ''upthread_mutexattr_settype''),
     (''pthread_mutex_init'', ''upthread_mutex_init''),
     (''pthread_mutex_trylock'', ''upthread_mutex_trylock''),
     (''pthread_mutex_lock'', ''upthread_mutex_lock''),
     (''pthread_mutex_unlock'', ''upthread_mutex_unlock''),
     (''pthread_mutex_destroy'', ''upthread_mutex_destroy''),
     (''PTHREAD_CONDVAR_INITIALIZER'', ''UPTHREAD_CONDVAR_INITIALIZER''),
     (''pthread_cond_t'', ''upthread_cond_t''), (''pthread_condattr_t'', ''upthread_condattr_t''),
     (''pthread_cond_init'', ''upthread_cond_init''),
     (''pthread_cond_destroy'', ''upthread_cond_destroy''),
     (''pthread_cond_broadcast'', ''upthread_cond_broadcast''),
     (''pthread_cond_signal'', ''upthread_cond_signal''),
     (''pthread_cond_wait'', ''upthread_cond_wait''),
     (''pthread_barrierattr_t'', ''upthread_barrierattr_t''),
     (''pthread_barrierattr_init'', ''upthread_barrierattr_init''),
     (''pthread_barrierattr_destroy'', ''upthread_barrierattr_destroy''),
     (''pthread_barrier_init'', ''upthread_barrier_init''),
     (''pthread_barrier_wait'', ''upthread_barrier_wait''),
     (''pthread_barrier_destroy'', ''upthread_barrier_destroy''), (''sem_t'', ''upthread_sem_t''),
     (''sem_init'', ''upthread_sem_init''), (''sem_destroy'', ''upthread_sem_destroy''),
     (''sem_wait'', ''upthread_sem_wait''), (''sem_post'', ''upthread_sem_post''),
     (''pthread_key_t'', ''upthread_key_t''), (''pthread_key_create'', ''upthread_key_create''),
     (''pthread_key_delete'', ''upthread_key_delete''),
     (''pthread_getspecific'', ''upthread_getspecific''),
     (''pthread_setspecific'', ''upthread_setspecific''), (''pthread_equal'', ''upthread_equal''),
     (''pthread_getattr_np'', ''upthread_getattr_np''),
     (''pthread_attr_getstack'', ''upthread_attr_getstack''),
     (''pthread_mutex_timedlock'', ''upthread_mutex_timedlock''),
     (''pthread_cond_timedwait'', ''upthread_cond_timedwait''),
     (''pthread_once_t'', ''upthread_once_t''), (''pthread_once'', ''upthread_once''),
     (''pthread_cancel'', ''upthread_cancel'')]"

text \<open>An identifier of the program after one pass of the preprocessor.\<close>

definition preprocess :: "string \<Rightarrow> string" where
  "preprocess ident = (case map_of pthread_macros ident of None \<Rightarrow> ident | Some r \<Rightarrow> r)"

section \<open>Declared functions\<close>

definition thread_prototypes :: "string list" where
  "thread_prototypes = [
     ''upthread_attr_init'', ''upthread_attr_destroy'', ''upthread_attr_setdetachstate'',
     ''upthread_attr_getstacksize'', ''upthread_attr_setstacksize'', ''upthread_create'',
     ''upthread_join'', ''upthread_yield'', ''upthread_exit'', ''upthread_detach'', ''upthread_self'',
     ''upthread_tid'']"

definition object_prototypes :: "string list" where
  "object_prototypes = [
     ''upthread_mutexattr_init'', ''upthread_mutexattr_destroy'', ''upthread_mutexattr_gettype'',
     ''upthread_mutexattr_settype'', ''upthread_mutex_init'', ''upthread_mutex_trylock'',
     ''upthread_mutex_lock'', ''upthread_mutex_unlock'', ''upthread_mutex_destroy'',
     ''upthread_cond_init'', ''upthread_cond_destroy'', ''upthread_cond_broadcast'',
     ''upthread_cond_signal'', ''upthread_cond_wait'', ''upthread_barrierattr_init'',
     ''upthread_barrierattr_destroy'', ''upthread_barrier_init'', ''upthread_barrier_wait'',
     ''upthread_barrier_destroy'', ''upthread_key_create'', ''upthread_key_delete'',
     ''upthread_getspecific'', ''upthread_setspecific'', ''upthread_equal'', ''upthread_getattr_np'',
     ''upthread_attr_getstack'', ''upthread_mutex_timedlock'', ''upthread_cond_timedwait'',
     ''upthread_once'', ''upthread_cancel'']"

definition sem_prototypes :: "string list" where
  "sem_prototypes = [
     ''upthread_sem_init'', ''upthread_sem_destroy'', ''upthread_sem_wait'', ''upthread_sem_post'']"

definition prototypes :: "string list" where
  "prototypes = thread_prototypes @ object_prototypes @ sem_prototypes"

section \<open>Defined functions\<close>

text \<open>The functions that are not \<open>static\<close>. The four files of synchronisation objects define the same
  names in \<^verbatim>\<open>src/common\<close> and in \<^verbatim>\<open>src/lithe\<close>.\<close>

definition sync_symbols :: "string list" where
  "sync_symbols = [
     ''upthread_mutexattr_init'', ''upthread_mutexattr_destroy'', ''upthread_mutexattr_gettype'',
     ''upthread_mutexattr_settype'', ''upthread_mutex_init'', ''upthread_mutex_trylock'',
     ''upthread_mutex_lock'', ''upthread_mutex_unlock'', ''upthread_mutex_destroy'',
     ''upthread_condattr_init'', ''upthread_condattr_destroy'', ''upthread_cond_init'',
     ''upthread_cond_destroy'', ''upthread_cond_wait'', ''upthread_cond_signal'',
     ''upthread_cond_broadcast'', ''upthread_barrierattr_init'', ''upthread_barrierattr_destroy'',
     ''upthread_barrier_init'', ''upthread_barrier_destroy'', ''upthread_barrier_wait'',
     ''upthread_sem_init'', ''upthread_sem_destroy'', ''upthread_sem_wait'', ''upthread_sem_post'']"

definition common_symbols :: "string list" where
  "common_symbols = [
     ''upthread_key_create'', ''upthread_key_delete'', ''upthread_getspecific'',
     ''upthread_setspecific'', ''upthread_attr_init'', ''upthread_attr_destroy'',
     ''upthread_attr_setstacksize'', ''upthread_attr_getstacksize'', ''upthread_attr_setdetachstate'',
     ''upthread_self'', ''upthread_equal'', ''upthread_attr_getstack'', ''pthread_mutex_timedlock'',
     ''pthread_cond_timedwait'', ''upthread_once'', ''upthread_cancel'']"

datatype variant = Gq | Pvcq | Juggle | Lithe

fun variant_symbols :: "variant \<Rightarrow> string list" where
  "variant_symbols Gq = [
     ''upthread_can_vcore_request'', ''upthread_getattr_np'', ''upthread_create'', ''upthread_join'',
     ''upthread_exit'', ''upthread_yield'', ''upthread_tid'', ''upthread_kill'', ''upthread_sigmask'']"
| "variant_symbols Pvcq = [
     ''upthread_can_vcore_request'', ''upthread_can_vcore_steal'', ''upthread_set_num_vcores'',
     ''upthread_short_circuit_yield'', ''upthread_getattr_np'', ''upthread_create'', ''upthread_join'',
     ''upthread_exit'', ''upthread_yield'', ''upthread_detach'', ''upthread_tid'']"
| "variant_symbols Juggle = [
     ''upthread_set_sched_period'', ''upthread_can_vcore_request'', ''upthread_can_vcore_steal'',
     ''upthread_set_num_vcores'', ''upthread_short_circuit_yield'', ''upthread_getattr_np'',
     ''upthread_create'', ''upthread_join'', ''upthread_exit'', ''upthread_yield'',
     ''upthread_detach'', ''upthread_tid'']"
| "variant_symbols Lithe = [
     ''upthread_getattr_np'', ''upthread_create'', ''upthread_join'', ''upthread_exit'',
     ''upthread_yield'', ''upthread_detach'', ''upthread_tid'']"

definition symbols :: "variant \<Rightarrow> string list" where
  "symbols v = sync_symbols @ common_symbols @ variant_symbols v"

section \<open>What a pthread program finds\<close>

text \<open>No identifier is defined twice, and none that is put in is defined in turn, so one pass is enough.\<close>

lemma macros_one_pass:
  "distinct (map fst pthread_macros) \<and> (\<forall>m \<in> set pthread_macros. preprocess (snd m) = snd m)"
  unfolding pthread_macros_def preprocess_def by code_simp

text \<open>The functions declared that nothing defines: a program that calls one compiles and does not link.\<close>

definition unresolved :: "variant \<Rightarrow> string list" where
  "unresolved v = filter (\<lambda>f. f \<notin> set (symbols v)) prototypes"

lemma unresolved_symbols:
  "unresolved Gq = [''upthread_detach'', ''upthread_mutex_timedlock'', ''upthread_cond_timedwait'']"
  "unresolved Pvcq = [''upthread_mutex_timedlock'', ''upthread_cond_timedwait'']"
  "unresolved Juggle = [''upthread_mutex_timedlock'', ''upthread_cond_timedwait'']"
  "unresolved Lithe = [''upthread_mutex_timedlock'', ''upthread_cond_timedwait'']"
  by code_simp+

text \<open>The functions defined in every variant that nothing declares.\<close>

lemma undeclared_symbols:
  "filter (\<lambda>f. f \<notin> set prototypes) (sync_symbols @ common_symbols) =
     [''upthread_condattr_init'', ''upthread_condattr_destroy'', ''pthread_mutex_timedlock'',
      ''pthread_cond_timedwait'']"
  by code_simp

text \<open>What the header renames is declared, or is a type, a constant or an initialiser.\<close>

lemma renamed_not_functions:
  "map fst (filter (\<lambda>m. snd m \<notin> set prototypes) pthread_macros) = [
     ''PTHREAD_CREATE_JOINABLE'', ''PTHREAD_CREATE_DETACHED'', ''pthread_attr_t'', ''pthread_t'',
     ''PTHREAD_MUTEX_NORMAL'', ''PTHREAD_MUTEX_RECURSIVE'', ''PTHREAD_MUTEX_DEFAULT'',
     ''PTHREAD_MUTEX_INITIALIZER'', ''pthread_mutexattr_t'', ''pthread_mutex_t'',
     ''PTHREAD_CONDVAR_INITIALIZER'', ''pthread_cond_t'', ''pthread_condattr_t'',
     ''pthread_barrierattr_t'', ''sem_t'', ''pthread_key_t'', ''pthread_once_t'']"
  by code_simp

text \<open>The attributes of a condition variable, which the library has, and POSIX's initialiser of a condition
  variable keep their names: a program that uses them gets those of the system or none.\<close>

lemma not_renamed:
  "map preprocess [''pthread_condattr_init'', ''pthread_condattr_destroy'', ''PTHREAD_COND_INITIALIZER''] =
     [''pthread_condattr_init'', ''pthread_condattr_destroy'', ''PTHREAD_COND_INITIALIZER'']"
  by code_simp

end
